(* ===== verification/Prelude.thy ===== *)
theory Prelude
  imports Main "HOL-Library.Word" "HOL-Library.Multiset" "HOL-Library.Sublist"
begin

text \<open>
  Shared vocabulary of the development: the named collections of rewrite and introduction
  rules, the result type of fallible Rust code, outcomes of blocking tasks and of awaits
  under a timeout, generic lemmas on lists, and the interface of a transition system with
  its invariant rule, which the concurrent components instantiate.
\<close>

section \<open>Collections\<close>

named_theorems rust_arith \<open>unfolding rules of the machine-integer helpers\<close>
named_theorems rust_str \<open>unfolding rules of the string helpers\<close>
named_theorems http_simps \<open>unfolding rules of the HTTP responses\<close>

section \<open>Results, tasks and awaits\<close>

text \<open>
  A Rust \<open>Result<T, E>\<close> is the sum \<open>'e + 'a\<close> with \<open>Inl\<close> for \<open>Err\<close>.
  \<open>tokio::task::spawn_blocking(..).await\<close> yields either the value of the closure or a
  \<open>JoinError\<close> when the closure panicked: \<open>'a joined\<close>. \<open>tokio::time::timeout(..).await\<close>
  yields the value or \<open>Elapsed\<close>: \<open>'a timed\<close>.
\<close>

type_synonym ('a) res = "string + 'a"

datatype 'a joined = Joined 'a | JoinPanic string

datatype 'a timed = InTime 'a | TimedOut

fun bind_res :: "'e + 'a \<Rightarrow> ('a \<Rightarrow> 'e + 'b) \<Rightarrow> 'e + 'b" where
  "bind_res (Inl e) f = Inl e"
| "bind_res (Inr x) f = f x"

lemma bind_res_Inr_iff: "bind_res r f = Inr y \<longleftrightarrow> (\<exists>x. r = Inr x \<and> f x = Inr y)"
  by (cases r) auto

text \<open>\<open>iter().map(f).collect::<Result<Vec<_>, _>>()\<close>: the first error wins.\<close>

fun collect_res :: "('a \<Rightarrow> 'e + 'b) \<Rightarrow> 'a list \<Rightarrow> 'e + 'b list" where
  "collect_res f [] = Inr []"
| "collect_res f (x # xs) =
     (case f x of Inl e \<Rightarrow> Inl e
      | Inr y \<Rightarrow> (case collect_res f xs of Inl e \<Rightarrow> Inl e | Inr ys \<Rightarrow> Inr (y # ys)))"

lemma collect_res_Inr_iff:
  "collect_res f xs = Inr ys \<longleftrightarrow> list_all2 (\<lambda>x y. f x = Inr y) xs ys"
proof (induction xs arbitrary: ys)
  case Nil
  show ?case by auto
next
  case (Cons x xs)
  have IH: "(\<exists>e. collect_res f xs = Inl e) \<or> (\<exists>zs. collect_res f xs = Inr zs)"
    by (cases "collect_res f xs") auto
  with Cons.IH [of "tl ys"] Cons.IH show ?case
    by (cases ys) (fastforce split: sum.splits)+
qed

lemma collect_res_length: "collect_res f xs = Inr ys \<Longrightarrow> length ys = length xs"
  by (auto simp: collect_res_Inr_iff dest: list_all2_lengthD)

section \<open>Lists\<close>

text \<open>
  \<open>vecs.drain(..n).collect()\<close> repeated over a list of counts: consecutive slices.
\<close>

fun slices :: "nat list \<Rightarrow> 'a list \<Rightarrow> 'a list list" where
  "slices [] xs = []"
| "slices (n # ns) xs = take n xs # slices ns (drop n xs)"

lemma slices_length [simp]: "length (slices ns xs) = length ns"
  by (induction ns arbitrary: xs) auto

lemma slices_concat: "slices (map length xss) (concat xss) = xss"
  by (induction xss) auto

lemma slices_map_concat: "slices (map length xss) (map f (concat xss)) = map (map f) xss"
proof -
  have "map f (concat xss) = concat (map (map f) xss)"
    by (simp add: map_concat)
  moreover have "map length xss = map length (map (map f) xss)"
    by simp
  ultimately show ?thesis
    by (metis slices_concat)
qed

lemma filter_concat: "filter P (concat xss) = concat (map (filter P) xss)"
  by (induction xss) auto

lemma concat_map_eqI:
  "(\<And>x. x \<in> set xs \<Longrightarrow> f x = g x) \<Longrightarrow> concat (map f xs) = concat (map g xs)"
  by (metis map_eq_conv)

text \<open>Updating one element changes a count and a collected multiset by that element.\<close>

lemma length_filter_update:
  "t < length xs \<Longrightarrow>
   length (filter P (xs[t := y])) + of_bool (P (xs ! t)) = length (filter P xs) + of_bool (P y)"
proof (induction xs arbitrary: t)
  case (Cons x xs)
  then show ?case by (cases t) fastforce+
qed simp

lemma mset_concat_update:
  "t < length xs \<Longrightarrow>
   mset (concat (map f (xs[t := y]))) + mset (f (xs ! t)) = mset (concat (map f xs)) + mset (f y)"
proof (induction xs arbitrary: t)
  case (Cons x xs)
  show ?case
  proof (cases t)
    case (Suc u)
    with Cons.prems have "mset (concat (map f (xs[u := y]))) + mset (f (xs ! u)) = mset (concat (map f xs)) + mset (f y)"
      by (intro Cons.IH) simp
    with Suc show ?thesis by (simp add: ac_simps)
  qed (simp add: ac_simps)
qed simp

lemma distinct_submset:
  assumes "mset xs \<subseteq># mset ys" "distinct ys"
  shows "distinct xs"
proof -
  obtain zs where "mset zs = mset ys - mset xs" using ex_mset by blast
  with assms(1) have "mset ys = mset (xs @ zs)" by simp
  with assms(2) have "distinct (xs @ zs)" using mset_eq_imp_distinct_iff by blast
  then show ?thesis by simp
qed

section \<open>Transition systems and invariants\<close>

text \<open>
  The interface between a component that runs concurrently and the safety arguments about
  it: a set of initial states, a step relation, and an invariant that holds initially and
  is kept by every step. The rule that every reachable state satisfies the invariant is
  proved once here.
\<close>

inductive reach :: "('s \<Rightarrow> bool) \<Rightarrow> ('s \<Rightarrow> 's \<Rightarrow> bool) \<Rightarrow> 's \<Rightarrow> bool" for init step where
  reach_init: "init s \<Longrightarrow> reach init step s"
| reach_step: "reach init step s \<Longrightarrow> step s t \<Longrightarrow> reach init step t"

locale invariant_system =
  fixes init :: "'s \<Rightarrow> bool"
    and step :: "'s \<Rightarrow> 's \<Rightarrow> bool"
    and inv :: "'s \<Rightarrow> bool"
  assumes inv_init: "init s \<Longrightarrow> inv s"
    and inv_step: "step s t \<Longrightarrow> inv s \<Longrightarrow> inv t"
begin

lemma reach_inv: "reach init step s \<Longrightarrow> inv s"
  by (induction rule: reach.induct) (auto intro: inv_init inv_step)

lemma steps_inv: "step\<^sup>*\<^sup>* s t \<Longrightarrow> inv s \<Longrightarrow> inv t"
  by (induction rule: rtranclp_induct) (auto intro: inv_step)

end

lemma reach_rtranclp: "reach init step s \<Longrightarrow> step\<^sup>*\<^sup>* s t \<Longrightarrow> reach init step t"
  by (rotate_tac, induction rule: rtranclp_induct) (auto intro: reach_step)

end
