(* ===== verification/Rust_Std.thy ===== *)
theory Rust_Std
  imports Prelude
begin

text \<open>
  The parts of the Rust standard library the program relies on: \<open>usize\<close> arithmetic on a
  64-bit target, string trimming, splitting, case folding and integer parsing. A \<open>usize\<close>
  is a natural number below \<open>2 ^ 64\<close>; saturation and the wrap-around of
  \<open>next_power_of_two\<close> are written out. A string is a list of characters; the case
  mapping and the white-space set are those of ASCII, the alphabet of the configuration
  files, model names and error messages of the program.
\<close>

section \<open>Machine integers\<close>

definition usize_max :: nat where
  "usize_max = 2 ^ 64 - 1"

definition sat_mul :: "nat \<Rightarrow> nat \<Rightarrow> nat" where
  [rust_arith]: "sat_mul a b = min (a * b) usize_max"

definition sat_sub :: "nat \<Rightarrow> nat \<Rightarrow> nat" where
  [rust_arith]: "sat_sub a b = a - b"

lemma sat_mul_mono: "a \<le> a' \<Longrightarrow> b \<le> b' \<Longrightarrow> sat_mul a b \<le> sat_mul a' b'"
  unfolding sat_mul_def by (meson min.mono mult_le_mono order_refl)

lemma sat_mul_less_iff: "c \<le> usize_max \<Longrightarrow> sat_mul a b < c \<longleftrightarrow> a * b < c"
  by (auto simp: sat_mul_def)

text \<open>
  \<open>usize::next_power_of_two\<close>: the least power of two that is not below the argument;
  above \<open>2 ^ 63\<close> the release build wraps to 0.
\<close>

function pow2_from :: "nat \<Rightarrow> nat \<Rightarrow> nat" where
  "pow2_from p n = (if 0 < p \<and> p < n then pow2_from (2 * p) n else p)"
  by pat_completeness auto
termination
  by (relation "measure (\<lambda>(p, n). n - p)") auto

declare pow2_from.simps [simp del]

definition next_power_of_two :: "nat \<Rightarrow> nat" where
  "next_power_of_two n = (if n \<le> 2 ^ 63 then pow2_from 1 n else 0)"

lemma pow2_from_ge: "0 < p \<Longrightarrow> n \<le> pow2_from p n"
proof (induction p n rule: pow2_from.induct)
  case (1 p n)
  then show ?case by (subst pow2_from.simps) auto
qed

lemma pow2_from_power: "\<exists>j. pow2_from p n = p * 2 ^ j"
proof (induction p n rule: pow2_from.induct)
  case (1 p n)
  show ?case
  proof (cases "0 < p \<and> p < n")
    case True
    with 1 obtain j where "pow2_from (2 * p) n = 2 * p * 2 ^ j" by auto
    with True show ?thesis
      by (subst pow2_from.simps) (auto intro!: exI [of _ "Suc j"])
  next
    case False
    then show ?thesis by (subst pow2_from.simps) (auto intro!: exI [of _ 0])
  qed
qed

lemma pow2_from_less: "0 < p \<Longrightarrow> p < 2 * n \<Longrightarrow> pow2_from p n < 2 * n"
proof (induction p n rule: pow2_from.induct)
  case (1 p n)
  then show ?case by (subst pow2_from.simps) auto
qed

lemma next_power_of_two_bounds:
  assumes "0 < n" and "n \<le> 2 ^ 63"
  shows "n \<le> next_power_of_two n" and "next_power_of_two n < 2 * n"
    and "\<exists>j. next_power_of_two n = 2 ^ j"
  using assms pow2_from_ge [of 1 n] pow2_from_less [of 1 n] pow2_from_power [of 1 n]
  by (auto simp: next_power_of_two_def)

section \<open>Strings\<close>

definition is_ws :: "char \<Rightarrow> bool" where
  "is_ws c \<longleftrightarrow> (let n = of_char c :: nat in n = 32 \<or> (9 \<le> n \<and> n \<le> 13))"

definition trim :: "string \<Rightarrow> string" where
  "trim s = rev (dropWhile is_ws (rev (dropWhile is_ws s)))"

text \<open>\<open>s.split(c)\<close>: always at least one piece.\<close>

fun split_on :: "char \<Rightarrow> string \<Rightarrow> string list" where
  "split_on c [] = [[]]"
| "split_on c (x # xs) =
     (if x = c then [] # split_on c xs
      else (case split_on c xs of [] \<Rightarrow> [[x]] | p # ps \<Rightarrow> (x # p) # ps))"

definition ascii_upper :: "char \<Rightarrow> char" where
  "ascii_upper c = (let n = of_char c :: nat in
     if 97 \<le> n \<and> n \<le> 122 then char_of (n - 32) else c)"

definition ascii_lower :: "char \<Rightarrow> char" where
  "ascii_lower c = (let n = of_char c :: nat in
     if 65 \<le> n \<and> n \<le> 90 then char_of (n + 32) else c)"

definition to_uppercase :: "string \<Rightarrow> string" where
  "to_uppercase = map ascii_upper"

definition to_ascii_lowercase :: "string \<Rightarrow> string" where
  "to_ascii_lowercase = map ascii_lower"

definition eq_ignore_ascii_case :: "string \<Rightarrow> string \<Rightarrow> bool" where
  "eq_ignore_ascii_case s t \<longleftrightarrow> to_ascii_lowercase s = to_ascii_lowercase t"

definition replace_char :: "char \<Rightarrow> char \<Rightarrow> string \<Rightarrow> string" where
  "replace_char a b = map (\<lambda>c. if c = a then b else c)"

text \<open>\<open>haystack.contains(needle)\<close> on strings.\<close>

fun str_contains :: "string \<Rightarrow> string \<Rightarrow> bool" where
  "str_contains [] needle = (needle = [])"
| "str_contains (c # cs) needle = (take (length needle) (c # cs) = needle \<or> str_contains cs needle)"

section \<open>Integer parsing\<close>

definition is_digit :: "char \<Rightarrow> bool" where
  "is_digit c \<longleftrightarrow> (let n = of_char c :: nat in 48 \<le> n \<and> n \<le> 57)"

fun digits_val :: "nat \<Rightarrow> string \<Rightarrow> nat" where
  "digits_val acc [] = acc"
| "digits_val acc (c # cs) = digits_val (10 * acc + (of_char c - 48)) cs"

text \<open>
  \<open>str::parse::<uN>()\<close>: an optional plus sign, then one or more digits, with overflow
  an error. The error value carries no information the program reads.
\<close>

definition parse_uint :: "nat \<Rightarrow> string \<Rightarrow> nat option" where
  "parse_uint w s =
     (let ds = (case s of [] \<Rightarrow> [] | c # cs \<Rightarrow> if c = CHR ''+'' then cs else s) in
      if ds \<noteq> [] \<and> list_all is_digit ds \<and> digits_val 0 ds < 2 ^ w
      then Some (digits_val 0 ds) else None)"

abbreviation parse_usize :: "string \<Rightarrow> nat option" where
  "parse_usize \<equiv> parse_uint 64"

abbreviation parse_u64 :: "string \<Rightarrow> nat option" where
  "parse_u64 \<equiv> parse_uint 64"

abbreviation parse_u32 :: "string \<Rightarrow> nat option" where
  "parse_u32 \<equiv> parse_uint 32"

lemma parse_uint_bound: "parse_uint w s = Some n \<Longrightarrow> n < 2 ^ w"
  by (auto simp: parse_uint_def Let_def split: if_splits)

text \<open>\<open>to_string()\<close> of an unsigned integer, to state that parsing inverts printing.\<close>

fun show_nat :: "nat \<Rightarrow> string" where
  "show_nat n = (if n < 10 then [char_of (48 + n)] else show_nat (n div 10) @ [char_of (48 + n mod 10)])"

declare show_nat.simps [simp del]

lemma digits_val_append: "digits_val a (xs @ [c]) = 10 * digits_val a xs + (of_char c - 48)"
  by (induction xs arbitrary: a) auto

lemma of_char_digit: "n < 10 \<Longrightarrow> (of_char (char_of (48 + n) :: char) :: nat) = 48 + n"
  by simp

lemma digits_val_show_nat: "digits_val 0 (show_nat n) = n"
proof (induction n rule: show_nat.induct)
  case (1 n)
  then show ?case
    by (subst show_nat.simps) (auto simp: digits_val_append)
qed

lemma is_digit_char_of: "(n::nat) < 10 \<Longrightarrow> is_digit (char_of (48 + n))"
  by (simp add: is_digit_def Let_def)

lemma show_nat_digits: "list_all is_digit (show_nat n) \<and> show_nat n \<noteq> []"
proof (induction n rule: show_nat.induct)
  case (1 n)
  then show ?case
    by (subst (1 2) show_nat.simps) (auto simp: is_digit_char_of)
qed

lemma hd_digit_not_plus: "list_all is_digit s \<Longrightarrow> s \<noteq> [] \<Longrightarrow> hd s \<noteq> CHR ''+''"
  by (cases s) (auto simp: is_digit_def Let_def)

lemma parse_uint_show_nat: "n < 2 ^ w \<Longrightarrow> parse_uint w (show_nat n) = Some n"
  using show_nat_digits [of n] hd_digit_not_plus [of "show_nat n"] digits_val_show_nat [of n]
  by (auto simp: parse_uint_def Let_def split: list.splits)

lemma is_digit_not_ws: "is_digit c \<Longrightarrow> \<not> is_ws c"
  by (auto simp: is_digit_def is_ws_def Let_def)

lemma dropWhile_ws_digits: "list_all is_digit s \<Longrightarrow> dropWhile is_ws s = s"
  by (cases s) (auto simp: is_digit_not_ws)

lemma trim_digits: "list_all is_digit s \<Longrightarrow> trim s = s"
  by (simp add: trim_def dropWhile_ws_digits list_all_iff)

lemma trim_show_nat [simp]: "trim (show_nat n) = show_nat n"
  by (simp add: trim_digits show_nat_digits)

text \<open>
  The error a failed parse reports, digit by digit as the standard library goes: the first
  character that is no digit, or the first digit that leaves the type's range.
\<close>

datatype IntErrorKind = IntEmpty | InvalidDigit | PosOverflow

fun int_error_text :: "IntErrorKind \<Rightarrow> string" where
  "int_error_text IntEmpty = ''cannot parse integer from empty string''"
| "int_error_text InvalidDigit = ''invalid digit found in string''"
| "int_error_text PosOverflow = ''number too large to fit in target type''"

fun parse_digits :: "nat \<Rightarrow> nat \<Rightarrow> string \<Rightarrow> IntErrorKind + nat" where
  "parse_digits w acc [] = Inr acc"
| "parse_digits w acc (c # cs) =
     (if \<not> is_digit c then Inl InvalidDigit
      else let v = 10 * acc + (of_char c - 48) in
        if 2 ^ w \<le> v then Inl PosOverflow else parse_digits w v cs)"

definition parse_int :: "nat \<Rightarrow> string \<Rightarrow> IntErrorKind + nat" where
  "parse_int w s =
     (case s of
        [] \<Rightarrow> Inl IntEmpty
      | c # cs \<Rightarrow> if cs = [] \<and> (c = CHR ''+'' \<or> c = CHR ''-'') then Inl InvalidDigit
                  else parse_digits w 0 (if c = CHR ''+'' then cs else s))"

lemma digits_val_ge: "a \<le> digits_val a s"
proof (induction s arbitrary: a)
  case (Cons c s)
  show ?case using Cons.IH [of "10 * a + (of_char c - 48)"] by simp
qed simp

lemma parse_digits_val:
  "a < 2 ^ w \<Longrightarrow> parse_digits w a s = Inr n \<longleftrightarrow> list_all is_digit s \<and> digits_val a s < 2 ^ w \<and> n = digits_val a s"
proof (induction s arbitrary: a)
  case (Cons c s)
  show ?case
  proof (cases "10 * a + (of_char c - 48) < 2 ^ w")
    case True
    with Cons.IH show ?thesis by (auto simp: Let_def)
  next
    case False
    with digits_val_ge [of "10 * a + (of_char c - 48)" s] show ?thesis by (auto simp: Let_def)
  qed
qed auto

lemma parse_int_parse_uint: "parse_uint w s = Some n \<longleftrightarrow> parse_int w s = Inr n"
  by (cases s) (auto simp: parse_uint_def parse_int_def parse_digits_val is_digit_def Let_def)

section \<open>Splitting\<close>

lemma split_on_ne [simp]: "split_on c s \<noteq> []"
  by (induction s) (auto split: list.splits)

lemma split_on_no_sep: "p \<in> set (split_on c s) \<Longrightarrow> c \<notin> set p"
proof (induction s arbitrary: p)
  case Nil
  then show ?case by simp
next
  case (Cons x xs)
  then show ?case
    by (cases "split_on c xs") (auto split: if_splits)
qed

lemma split_on_id: "c \<notin> set s \<Longrightarrow> split_on c s = [s]"
  by (induction s) auto

lemma split_on_append: "c \<notin> set s \<Longrightarrow> split_on c (s @ c # t) = s # split_on c t"
  by (induction s) auto

lemma split_on_subset: "p \<in> set (split_on c s) \<Longrightarrow> set p \<subseteq> set s"
proof (induction s arbitrary: p)
  case (Cons x xs)
  then show ?case by (cases "split_on c xs") (fastforce split: if_splits)+
qed simp

text \<open>The inverse of splitting: the pieces joined by the separator.\<close>

fun join_on :: "char \<Rightarrow> string list \<Rightarrow> string" where
  "join_on c [] = []"
| "join_on c [p] = p"
| "join_on c (p # q # ps) = p @ c # join_on c (q # ps)"

lemma split_on_join_on: "ps \<noteq> [] \<Longrightarrow> (\<And>p. p \<in> set ps \<Longrightarrow> c \<notin> set p) \<Longrightarrow> split_on c (join_on c ps) = ps"
proof (induction c ps rule: join_on.induct)
  case (3 c p q ps)
  then show ?case by (simp add: split_on_append)
qed (auto simp: split_on_id)

lemma join_on_chars: "set (join_on c ps) \<subseteq> insert c (\<Union> (set ` set ps))"
  by (induction c ps rule: join_on.induct) auto

lemma trim_subset: "set (trim s) \<subseteq> set s"
  unfolding trim_def by (auto dest!: set_dropWhileD)

lemma trim_idem_iff: "s \<noteq> [] \<Longrightarrow> trim s = s \<longleftrightarrow> \<not> is_ws (hd s) \<and> \<not> is_ws (last s)"
proof
  assume ne: "s \<noteq> []" and t: "trim s = s"
  have "length (dropWhile is_ws s) \<ge> length s"
    using arg_cong [OF t, of length] length_dropWhile_le [of is_ws "rev (dropWhile is_ws s)"] by (simp add: trim_def)
  moreover have "length (takeWhile is_ws s) + length (dropWhile is_ws s) = length s"
    by (metis length_append takeWhile_dropWhile_id)
  ultimately have "length (takeWhile is_ws s) = 0" by linarith
  then have "takeWhile is_ws s = []" by (simp only: length_0_conv)
  then have d: "dropWhile is_ws s = s"
    by (metis append_Nil takeWhile_dropWhile_id)
  then have "dropWhile is_ws (rev s) = rev s"
    using t by (simp add: trim_def) (metis rev_rev_ident)
  with d ne show "\<not> is_ws (hd s) \<and> \<not> is_ws (last s)"
    by (simp add: dropWhile_eq_self_iff hd_rev)
next
  assume "s \<noteq> []" and "\<not> is_ws (hd s) \<and> \<not> is_ws (last s)"
  then have "dropWhile is_ws s = s" and "dropWhile is_ws (rev s) = rev s"
    by (simp_all add: dropWhile_eq_self_iff hd_rev)
  then show "trim s = s" by (simp add: trim_def)
qed

section \<open>Environment variables\<close>

text \<open>\<open>std::env::var(k)\<close>: a partial map; \<open>None\<close> is \<open>Err\<close>.\<close>

type_synonym env = "string \<Rightarrow> string option"

end
