(* ===== verification/Config.thy ===== *)
theory Config
  imports Rust_Std
begin

text \<open>
  The configuration of \<open>src/src/config.rs\<close>: the parsers of single environment variables, the
  model, reranker and sparse-model lists, per-model overrides and \<open>Config::from_env\<close>. The
  environment is a partial map. Warnings are not modelled, every fallback they announce is.
\<close>

section \<open>Data\<close>

record ModelDef =
  md_name :: string
  md_dir :: string
  md_onnx_filename :: string
  md_dim :: nat
  md_max_len :: nat
  md_pad_id :: nat
  md_has_token_type_ids :: bool
  md_batch_max_seq :: nat
  md_warmup_seq_len :: "nat option"
  md_memory_pattern :: bool

record RerankerModelDef =
  rd_name :: string
  rd_dir :: string
  rd_max_len :: nat
  rd_padded_model :: bool

record SpladeModelDef =
  sd_name :: string
  sd_dir :: string
  sd_max_len :: nat

record Config =
  cfg_port :: nat
  cfg_models :: "ModelDef list"
  cfg_rerankers :: "RerankerModelDef list"
  cfg_default_model :: string
  cfg_intra_threads :: nat
  cfg_embed_pool_size :: nat
  cfg_reranker_pool_size :: nat
  cfg_reranker_intra_threads :: nat
  cfg_splades :: "SpladeModelDef list"
  cfg_splade_pool_size :: nat
  cfg_splade_intra_threads :: nat
  cfg_batching_enabled :: bool
  cfg_batch_max :: nat
  cfg_reranker_batch_max :: nat
  cfg_batch_max_tokens :: nat
  cfg_batch_max_seq :: nat
  cfg_batch_wait_ms :: nat
  cfg_max_queue_size :: nat
  cfg_drain_timeout_s :: nat
  cfg_auto_truncate :: bool
  cfg_cache_max_entries :: nat
  cfg_token_cache_max_entries :: nat
  cfg_rerank_warmup_batch_sizes :: "nat list"
  cfg_embed_warmup_batch_sizes :: "nat list"
  cfg_splade_warmup_batch_sizes :: "nat list"
  cfg_embed_warmup_seq_len :: "nat option"
  cfg_idle_evict_secs :: nat
  cfg_embed_max_input_array :: nat
  cfg_rerank_max_input_docs :: nat
  cfg_multi_process :: bool
  cfg_worker_bin_path :: string
  cfg_worker_socket_dir :: string
  cfg_ready_probe_timeout_ms :: nat

section \<open>Single variables\<close>

definition parse_cache_max_entries :: "string option \<Rightarrow> nat" where
  "parse_cache_max_entries raw =
     (case raw of None \<Rightarrow> 10000
      | Some s \<Rightarrow> (case parse_usize (trim s) of None \<Rightarrow> 10000 | Some n \<Rightarrow> n))"

definition parse_token_cache_max_entries :: "string option \<Rightarrow> nat" where
  "parse_token_cache_max_entries raw =
     (case raw of None \<Rightarrow> 0
      | Some s \<Rightarrow> (case parse_usize (trim s) of None \<Rightarrow> 0 | Some n \<Rightarrow> n))"

definition parse_batch_max_tokens :: "string option \<Rightarrow> nat" where
  "parse_batch_max_tokens raw =
     (case raw of None \<Rightarrow> 16384
      | Some s \<Rightarrow> (case parse_usize (trim s) of
          Some n \<Rightarrow> if n = 0 then 16384 else n | None \<Rightarrow> 16384))"

definition parse_batch_max_seq :: "string option \<Rightarrow> nat" where
  "parse_batch_max_seq raw =
     (case raw of None \<Rightarrow> 256
      | Some s \<Rightarrow> (case parse_usize (trim s) of
          Some n \<Rightarrow> if n = 0 then 256 else n | None \<Rightarrow> 256))"

definition parse_embed_warmup_seq_len :: "string option \<Rightarrow> nat option" where
  "parse_embed_warmup_seq_len raw =
     (case raw of None \<Rightarrow> Some 128
      | Some s \<Rightarrow>
          let trimmed = trim s in
          if trimmed = [] then Some 128
          else if eq_ignore_ascii_case trimmed ''max'' then None
          else (case parse_usize trimmed of
              Some n \<Rightarrow> if n = 0 then Some 128 else Some n
            | None \<Rightarrow> Some 128))"

definition parse_embed_pool_size :: "string option \<Rightarrow> nat" where
  "parse_embed_pool_size raw =
     (case raw of None \<Rightarrow> 1
      | Some s \<Rightarrow> (case parse_usize (trim s) of
          Some n \<Rightarrow> if n = 0 then 1 else n | None \<Rightarrow> 1))"

definition model_env_key :: "string \<Rightarrow> string" where
  "model_env_key model_key = replace_char CHR ''-'' CHR ''_'' (to_uppercase model_key)"

definition resolve_embed_pool_size_for_model :: "env \<Rightarrow> string \<Rightarrow> string option \<Rightarrow> nat" where
  "resolve_embed_pool_size_for_model e model_key global_raw =
     (let per_model_key = ''EMBED_SESSION_POOL_SIZE_'' @ model_env_key model_key in
      case e per_model_key of
        Some raw \<Rightarrow> if trim raw \<noteq> [] then parse_embed_pool_size (Some (trim raw))
                    else parse_embed_pool_size global_raw
      | None \<Rightarrow> parse_embed_pool_size global_raw)"

definition parse_multi_process_flag :: "string option \<Rightarrow> bool" where
  "parse_multi_process_flag raw =
     (case raw of Some v \<Rightarrow> v = ''1'' \<or> eq_ignore_ascii_case v ''true'' | None \<Rightarrow> False)"

definition parse_memory_pattern :: "string option \<Rightarrow> bool" where
  "parse_memory_pattern raw =
     (case raw of None \<Rightarrow> True
      | Some s \<Rightarrow>
          if s = [] then True
          else if trim s \<in> {''true'', ''1''} then True
          else if trim s \<in> {''false'', ''0''} then False
          else True)"

definition parse_reranker_pool_size :: "string option \<Rightarrow> nat" where
  "parse_reranker_pool_size raw =
     (case raw of None \<Rightarrow> 1
      | Some s \<Rightarrow> (case parse_usize (trim s) of
          Some n \<Rightarrow> if n = 0 then 1 else n | None \<Rightarrow> 1))"

definition parse_splade_pool_size :: "string option \<Rightarrow> nat" where
  "parse_splade_pool_size raw =
     (case raw of None \<Rightarrow> 1
      | Some s \<Rightarrow> (case parse_usize (trim s) of
          Some n \<Rightarrow> if n = 0 then 1 else n | None \<Rightarrow> 1))"

text \<open>
  \<open>parse_warmup_batch_sizes\<close>: the loop over the pieces with its two accumulators, the set of
  sizes already emitted and the list of them (the rejected pieces only feed a warning).
\<close>

fun warmup_sizes_loop :: "string list \<Rightarrow> nat list \<Rightarrow> nat list" where
  "warmup_sizes_loop [] out = out"
| "warmup_sizes_loop (piece # ps) out =
     (if trim piece = [] then warmup_sizes_loop ps out
      else case parse_usize (trim piece) of
        Some n \<Rightarrow> if n = 0 then warmup_sizes_loop ps out
                  else if n \<in> set out then warmup_sizes_loop ps out
                  else warmup_sizes_loop ps (out @ [n])
      | None \<Rightarrow> warmup_sizes_loop ps out)"

definition parse_warmup_batch_sizes :: "string option \<Rightarrow> nat list \<Rightarrow> nat list" where
  "parse_warmup_batch_sizes raw defaults =
     (case raw of None \<Rightarrow> defaults
      | Some s \<Rightarrow> let out = warmup_sizes_loop (split_on CHR '','' s) [] in
                 if out = [] then defaults else out)"

section \<open>Model lists\<close>

definition quoted :: "string \<Rightarrow> string" where
  "quoted s = CHR 0x27 # s @ [CHR 0x27]"

text \<open>A required integer field and a required flag of an entry.\<close>

definition int_field :: "nat \<Rightarrow> string \<Rightarrow> string \<Rightarrow> string + nat" where
  "int_field w what s =
     (case parse_int w s of Inr n \<Rightarrow> Inr n
      | Inl k \<Rightarrow> Inl (''invalid '' @ what @ '' '' @ quoted s @ '': '' @ int_error_text k))"

definition flag_field :: "string \<Rightarrow> string \<Rightarrow> string \<Rightarrow> string + bool" where
  "flag_field what hint s =
     (if s \<in> {''true'', ''1''} then Inr True
      else if s \<in> {''false'', ''0''} then Inr False
      else Inl (''invalid '' @ what @ '' '' @ quoted s @ hint))"

definition model_batch_max_seq :: "env \<Rightarrow> string \<Rightarrow> nat \<Rightarrow> nat" where
  "model_batch_max_seq e key global_batch_max_seq =
     (case e (''BATCH_MAX_SEQ_'' @ key) of None \<Rightarrow> global_batch_max_seq
      | Some v \<Rightarrow> (case parse_usize (trim v) of
          Some n \<Rightarrow> if n = 0 then global_batch_max_seq else n
        | None \<Rightarrow> global_batch_max_seq))"

definition model_warmup_seq_len :: "env \<Rightarrow> string \<Rightarrow> nat option \<Rightarrow> nat \<Rightarrow> nat option" where
  "model_warmup_seq_len e key global_warmup_seq_len max_len =
     (let fallback = (case global_warmup_seq_len of Some g \<Rightarrow> g | None \<Rightarrow> max_len) in
      case e (''EMBED_WARMUP_SEQ_LEN_'' @ key) of
        Some raw \<Rightarrow>
          let trimmed = trim raw in
          if trimmed = [] \<or> eq_ignore_ascii_case trimmed ''max'' then None
          else (case parse_usize trimmed of
              Some n \<Rightarrow> if n = 0 then Some fallback else Some n
            | None \<Rightarrow> Some fallback)
      | None \<Rightarrow> Some fallback)"

text \<open>
  The checks on the optional file name. The last one can only fire on \<open>..\<close> itself: the
  other two traversal forms contain a separator and are refused before.
\<close>

definition onnx_filename_field :: "string \<Rightarrow> string list \<Rightarrow> string + string" where
  "onnx_filename_field nm parts =
     (if length parts = 7 then
        let raw = trim (parts ! 6) in
        if raw = [] then
          Inl (''model '' @ quoted nm @ '': onnx_filename (7th segment) is empty; omit the segment to use the default '' @
               quoted ''model_quantized.onnx'')
        else if CHR ''/'' \<in> set raw \<or> CHR 0x5C \<in> set raw then
          Inl (''model '' @ quoted nm @ '': onnx_filename '' @ quoted raw @ '' must be a plain filename, not a path (no '' @
               quoted ''/'' @ '' or '' @ quoted [CHR 0x5C] @ '')'')
        else if raw = ''..'' \<or> take 3 raw = ''../'' \<or> take 3 raw = ''..'' @ [CHR 0x5C] then
          Inl (''model '' @ quoted nm @ '': onnx_filename '' @ quoted raw @ '' contains a path-traversal component'')
        else Inr raw
      else Inr ''model_quantized.onnx'')"

definition parse_one_model :: "env \<Rightarrow> nat \<Rightarrow> nat option \<Rightarrow> string \<Rightarrow> string + ModelDef" where
  "parse_one_model e global_batch_max_seq global_warmup_seq_len entry =
     (let parts = split_on CHR '':'' (trim entry) in
      if length parts < 6 \<or> 7 < length parts then
        Inl (''model entry must have 6 or 7 colon-separated fields '' @
             ''(name:dir:dim:max_len:pad_id:has_tti[:onnx_filename]), got '' @ show_nat (length parts) @ '': '' @ quoted entry)
      else
        bind_res (int_field 64 ''dim'' (parts ! 2)) (\<lambda>dim.
        bind_res (int_field 64 ''max_len'' (parts ! 3)) (\<lambda>max_len.
        bind_res (int_field 32 ''pad_id'' (parts ! 4)) (\<lambda>pad_id.
        bind_res (flag_field ''has_token_type_ids'' [] (parts ! 5)) (\<lambda>has_tti.
          let nm = parts ! 0;
              key = model_env_key nm;
              bms = model_batch_max_seq e key global_batch_max_seq;
              wsl = model_warmup_seq_len e key global_warmup_seq_len max_len;
              mp = parse_memory_pattern (e (''EMBED_MEMORY_PATTERN_'' @ key))
          in bind_res (onnx_filename_field nm parts) (\<lambda>onnx.
             Inr \<lparr>md_name = nm, md_dir = parts ! 1, md_onnx_filename = onnx, md_dim = dim, md_max_len = max_len,
                  md_pad_id = pad_id, md_has_token_type_ids = has_tti, md_batch_max_seq = bms,
                  md_warmup_seq_len = wsl, md_memory_pattern = mp\<rparr>))))))"

text \<open>\<open>s.split(',').filter(|e| !e.trim().is_empty())\<close>.\<close>

definition list_entries :: "string \<Rightarrow> string list" where
  "list_entries s = filter (\<lambda>x. trim x \<noteq> []) (split_on CHR '','' s)"

definition parse_models_with_globals :: "env \<Rightarrow> nat \<Rightarrow> nat option \<Rightarrow> string \<Rightarrow> string + ModelDef list" where
  "parse_models_with_globals e gb gw s = collect_res (parse_one_model e gb gw) (list_entries s)"

definition parse_models :: "env \<Rightarrow> string \<Rightarrow> string + ModelDef list" where
  "parse_models e s = parse_models_with_globals e (parse_batch_max_seq None) None s"

definition parse_one_reranker :: "string \<Rightarrow> string + RerankerModelDef" where
  "parse_one_reranker entry =
     (let parts = split_on CHR '':'' (trim entry) in
      if length parts \<noteq> 4 then
        Inl (''reranker entry must have 4 colon-separated fields (name:dir:max_len:padded), got '' @
             show_nat (length parts) @ '': '' @ quoted entry)
      else
        bind_res (int_field 64 ''reranker max_len'' (parts ! 2)) (\<lambda>max_len.
        bind_res (flag_field ''reranker padded'' '' (expected true|false|1|0)'' (parts ! 3)) (\<lambda>padded.
          Inr \<lparr>rd_name = parts ! 0, rd_dir = parts ! 1, rd_max_len = max_len, rd_padded_model = padded\<rparr>)))"

definition parse_rerankers :: "string \<Rightarrow> string + RerankerModelDef list" where
  "parse_rerankers s = collect_res parse_one_reranker (list_entries s)"

definition parse_one_splade :: "string \<Rightarrow> string + SpladeModelDef" where
  "parse_one_splade entry =
     (let parts = split_on CHR '':'' (trim entry) in
      if length parts \<noteq> 3 then
        Inl (''splade entry must have 3 colon-separated fields (name:dir:max_len), got '' @
             show_nat (length parts) @ '': '' @ quoted entry)
      else
        bind_res (int_field 64 ''splade max_len'' (parts ! 2)) (\<lambda>max_len.
          Inr \<lparr>sd_name = parts ! 0, sd_dir = parts ! 1, sd_max_len = max_len\<rparr>))"

definition parse_splades :: "string \<Rightarrow> string + SpladeModelDef list" where
  "parse_splades s = collect_res parse_one_splade (list_entries s)"

section \<open>The whole configuration\<close>

definition env_or :: "env \<Rightarrow> string \<Rightarrow> string \<Rightarrow> string" where
  "env_or e k d = (case e k of None \<Rightarrow> d | Some s \<Rightarrow> s)"

text \<open>\<open>env::var(k).ok().and_then(|s| s.parse().ok()).unwrap_or(d)\<close>, untrimmed.\<close>

definition num_or :: "env \<Rightarrow> string \<Rightarrow> nat \<Rightarrow> nat" where
  "num_or e k d = (case e k of None \<Rightarrow> d
     | Some s \<Rightarrow> (case parse_uint 64 s of None \<Rightarrow> d | Some n \<Rightarrow> n))"

definition global_warmup :: "env \<Rightarrow> nat option" where
  "global_warmup e =
     (case e ''EMBED_WARMUP_SEQ_LEN'' of None \<Rightarrow> None
      | Some raw \<Rightarrow>
          if raw = [] then None
          else if eq_ignore_ascii_case (trim raw) ''max'' then None
          else parse_embed_warmup_seq_len (Some (trim raw)))"

definition resolve_models :: "env \<Rightarrow> string + ModelDef list \<times> string" where
  "resolve_models e =
     (case e ''EMBED_MODELS'' of
        None \<Rightarrow> Inl ''EMBED_MODELS env var is required''
      | Some models_str \<Rightarrow>
          bind_res (parse_models_with_globals e (parse_batch_max_seq (e ''BATCH_MAX_SEQ'')) (global_warmup e) models_str)
           (\<lambda>models.
             if models = [] then Inl ''EMBED_MODELS must define at least one model''
             else
               let dm = env_or e ''EMBED_DEFAULT_MODEL'' (md_name (models ! 0)) in
               if \<exists>m \<in> set models. md_name m = dm then Inr (models, dm)
               else Inl (''EMBED_DEFAULT_MODEL '' @ quoted dm @ '' not found in models'')))"

definition resolve_port :: "env \<Rightarrow> string + nat" where
  "resolve_port e =
     (case parse_int 16 (env_or e ''EMBED_PORT'' ''8082'') of
        Inr p \<Rightarrow> Inr p | Inl k \<Rightarrow> Inl (''invalid EMBED_PORT: '' @ int_error_text k))"

definition resolve_intra_threads :: "env \<Rightarrow> string + nat" where
  "resolve_intra_threads e =
     (case parse_int 64 (env_or e ''EMBED_INTRA_THREADS'' ''2'') of
        Inl k \<Rightarrow> Inl (''invalid EMBED_INTRA_THREADS: '' @ int_error_text k)
      | Inr raw \<Rightarrow> Inr (if raw = 0 then 2 else raw))"

definition threads_or :: "env \<Rightarrow> string \<Rightarrow> nat \<Rightarrow> nat" where
  "threads_or e k intra_threads =
     (case e k of None \<Rightarrow> intra_threads
      | Some s \<Rightarrow> (case parse_usize s of None \<Rightarrow> intra_threads
                   | Some n \<Rightarrow> if 0 < n then n else intra_threads))"

definition optional_list :: "(string \<Rightarrow> string + 'a list) \<Rightarrow> string option \<Rightarrow> string + 'a list" where
  "optional_list parse raw = (case raw of None \<Rightarrow> Inr [] | Some s \<Rightarrow> parse s)"

definition resolve_idle_evict_secs :: "string option \<Rightarrow> nat" where
  "resolve_idle_evict_secs raw =
     (case raw of None \<Rightarrow> 0
      | Some s \<Rightarrow> (case parse_u64 (trim s) of None \<Rightarrow> 0 | Some v \<Rightarrow> v))"

definition resolve_embed_max_input_array :: "string option \<Rightarrow> nat" where
  "resolve_embed_max_input_array raw =
     (case raw of None \<Rightarrow> 32
      | Some s \<Rightarrow> (case parse_usize (trim s) of
          Some v \<Rightarrow> if v = 0 then 32 else v | None \<Rightarrow> 32))"

definition resolve_rerank_max_input_docs :: "string option \<Rightarrow> nat" where
  "resolve_rerank_max_input_docs raw =
     (case raw of None \<Rightarrow> 32
      | Some s \<Rightarrow> (case parse_usize (trim s) of
          Some v \<Rightarrow> if v = 0 then 32 else v | None \<Rightarrow> 32))"

definition resolve_ready_probe_timeout_ms :: "string option \<Rightarrow> nat" where
  "resolve_ready_probe_timeout_ms raw =
     (case raw of None \<Rightarrow> 2000
      | Some s \<Rightarrow> (case parse_u64 (trim s) of
          Some v \<Rightarrow> if v = 0 then 2000 else v | None \<Rightarrow> 2000))"

definition from_env :: "env \<Rightarrow> string + Config" where
  "from_env e =
     bind_res (resolve_port e) (\<lambda>port.
     bind_res (resolve_models e) (\<lambda>(models, dm).
     bind_res (resolve_intra_threads e) (\<lambda>intra.
     bind_res (optional_list parse_rerankers (e ''RERANKER_MODELS'')) (\<lambda>rerankers.
     bind_res (optional_list parse_splades (e ''SPLADE_MODELS'')) (\<lambda>splades.
       let bm = num_or e ''BATCH_MAX'' 32 in
       Inr \<lparr>cfg_port = port, cfg_models = models, cfg_rerankers = rerankers, cfg_default_model = dm,
            cfg_intra_threads = intra,
            cfg_embed_pool_size = parse_embed_pool_size (e ''EMBED_SESSION_POOL_SIZE''),
            cfg_reranker_pool_size = parse_reranker_pool_size (e ''RERANKER_SESSION_POOL_SIZE''),
            cfg_reranker_intra_threads = threads_or e ''RERANKER_INTRA_THREADS'' intra,
            cfg_splades = splades,
            cfg_splade_pool_size = parse_splade_pool_size (e ''SPLADE_SESSION_POOL_SIZE''),
            cfg_splade_intra_threads = threads_or e ''SPLADE_INTRA_THREADS'' intra,
            cfg_batching_enabled = (case e ''BATCHING_ENABLED'' of None \<Rightarrow> False
              | Some s \<Rightarrow> eq_ignore_ascii_case s ''true'' \<or> s = ''1''),
            cfg_batch_max = bm,
            cfg_reranker_batch_max = num_or e ''RERANKER_BATCH_MAX'' (sat_mul bm 4),
            cfg_batch_max_tokens = parse_batch_max_tokens (e ''BATCH_MAX_TOKENS''),
            cfg_batch_max_seq = parse_batch_max_seq (e ''BATCH_MAX_SEQ''),
            cfg_batch_wait_ms = num_or e ''BATCH_WAIT_MS'' 10,
            cfg_max_queue_size = num_or e ''MAX_QUEUE_SIZE'' 256,
            cfg_drain_timeout_s = num_or e ''DRAIN_TIMEOUT_S'' 10,
            cfg_auto_truncate = (case e ''AUTO_TRUNCATE'' of None \<Rightarrow> True
              | Some s \<Rightarrow> \<not> eq_ignore_ascii_case s ''false''),
            cfg_cache_max_entries = parse_cache_max_entries (e ''CACHE_MAX_ENTRIES''),
            cfg_token_cache_max_entries = parse_token_cache_max_entries (e ''TOKEN_CACHE_MAX_ENTRIES''),
            cfg_rerank_warmup_batch_sizes = parse_warmup_batch_sizes (e ''RERANK_WARMUP_BATCH_SIZES'') [1, 5],
            cfg_embed_warmup_batch_sizes = parse_warmup_batch_sizes (e ''EMBED_WARMUP_BATCH_SIZES'') [1, 8],
            cfg_splade_warmup_batch_sizes = parse_warmup_batch_sizes (e ''SPLADE_WARMUP_BATCH_SIZES'') [1],
            cfg_embed_warmup_seq_len = parse_embed_warmup_seq_len (e ''EMBED_WARMUP_SEQ_LEN''),
            cfg_idle_evict_secs = resolve_idle_evict_secs (e ''EMBED_IDLE_EVICT_SECS''),
            cfg_embed_max_input_array = resolve_embed_max_input_array (e ''EMBED_MAX_INPUT_ARRAY''),
            cfg_rerank_max_input_docs = resolve_rerank_max_input_docs (e ''RERANK_MAX_INPUT_DOCS''),
            cfg_multi_process = parse_multi_process_flag (e ''EMBED_MULTI_PROCESS''),
            cfg_worker_bin_path = env_or e ''EMBED_WORKER_BIN'' ''/usr/local/bin/embed-worker'',
            cfg_worker_socket_dir = env_or e ''EMBED_WORKER_SOCKET_DIR'' ''/tmp/embed-workers'',
            cfg_ready_probe_timeout_ms = resolve_ready_probe_timeout_ms (e ''EMBED_READY_PROBE_TIMEOUT_MS'')\<rparr>)))))"

section \<open>The contract of a positive knob\<close>

text \<open>
  Eight settings share one contract: a positive default, replaced by a variable that parses
  to a positive number of the given width. What follows from it is proved once.
\<close>

locale positive_knob =
  fixes knob :: "string option \<Rightarrow> nat"
    and dflt :: nat
  assumes dflt_range: "0 < dflt \<and> dflt < 2 ^ 64"
    and knob_unset: "knob None = dflt"
    and knob_set: "knob (Some s) = (case parse_uint 64 (trim s) of Some n \<Rightarrow> if n = 0 then dflt else n | None \<Rightarrow> dflt)"
begin

lemma positive: "0 < knob raw"
  using dflt_range by (cases raw) (auto simp: knob_unset knob_set split: option.splits)

lemma in_range: "knob raw < 2 ^ 64"
  using dflt_range by (cases raw) (auto simp: knob_unset knob_set dest: parse_uint_bound split: option.splits)

lemma honoured: "0 < n \<Longrightarrow> n < 2 ^ 64 \<Longrightarrow> knob (Some (show_nat n)) = n"
  by (simp add: knob_set parse_uint_show_nat)

end

interpretation batch_max_tokens: positive_knob parse_batch_max_tokens 16384
  by unfold_locales (auto simp: parse_batch_max_tokens_def)

interpretation batch_max_seq: positive_knob parse_batch_max_seq 256
  by unfold_locales (auto simp: parse_batch_max_seq_def)

interpretation embed_pool_size: positive_knob parse_embed_pool_size 1
  by unfold_locales (auto simp: parse_embed_pool_size_def)

interpretation reranker_pool_size: positive_knob parse_reranker_pool_size 1
  by unfold_locales (auto simp: parse_reranker_pool_size_def)

interpretation splade_pool_size: positive_knob parse_splade_pool_size 1
  by unfold_locales (auto simp: parse_splade_pool_size_def)

interpretation max_input_array: positive_knob resolve_embed_max_input_array 32
  by unfold_locales (auto simp: resolve_embed_max_input_array_def)

interpretation max_input_docs: positive_knob resolve_rerank_max_input_docs 32
  by unfold_locales (auto simp: resolve_rerank_max_input_docs_def)

interpretation ready_probe_timeout: positive_knob resolve_ready_probe_timeout_ms 2000
  by unfold_locales (auto simp: resolve_ready_probe_timeout_ms_def)

lemma resolve_embed_pool_size_positive: "0 < resolve_embed_pool_size_for_model e m raw"
  by (auto simp: resolve_embed_pool_size_for_model_def Let_def embed_pool_size.positive split: option.splits)

section \<open>Well-formed configurations\<close>

definition filename_ok :: "string \<Rightarrow> bool" where
  "filename_ok f \<longleftrightarrow> f \<noteq> [] \<and> CHR ''/'' \<notin> set f \<and> CHR 0x5C \<notin> set f \<and> f \<noteq> ''..''"

definition plain_field :: "string \<Rightarrow> bool" where
  "plain_field s \<longleftrightarrow> CHR '':'' \<notin> set s \<and> CHR '','' \<notin> set s"

definition model_ok :: "ModelDef \<Rightarrow> bool" where
  "model_ok m \<longleftrightarrow>
     plain_field (md_name m) \<and> plain_field (md_dir m) \<and> plain_field (md_onnx_filename m) \<and>
     filename_ok (md_onnx_filename m) \<and>
     md_dim m < 2 ^ 64 \<and> md_max_len m < 2 ^ 64 \<and> md_pad_id m < 2 ^ 32 \<and>
     0 < md_batch_max_seq m \<and> md_batch_max_seq m < 2 ^ 64 \<and>
     (case md_warmup_seq_len m of None \<Rightarrow> True | Some n \<Rightarrow> n = md_max_len m \<or> 0 < n)"

definition sizes_ok :: "nat list \<Rightarrow> bool" where
  "sizes_ok ns \<longleftrightarrow> ns \<noteq> [] \<and> distinct ns \<and> list_all (\<lambda>n. 0 < n) ns"

definition config_ok :: "Config \<Rightarrow> bool" where
  "config_ok c \<longleftrightarrow>
     cfg_port c < 2 ^ 16 \<and>
     cfg_models c \<noteq> [] \<and> list_all model_ok (cfg_models c) \<and>
     cfg_default_model c \<in> set (map md_name (cfg_models c)) \<and>
     list_all (\<lambda>r. plain_field (rd_name r) \<and> rd_max_len r < 2 ^ 64) (cfg_rerankers c) \<and>
     list_all (\<lambda>r. plain_field (sd_name r) \<and> sd_max_len r < 2 ^ 64) (cfg_splades c) \<and>
     list_all (\<lambda>n. 0 < n) [cfg_intra_threads c, cfg_reranker_intra_threads c, cfg_splade_intra_threads c,
       cfg_embed_pool_size c, cfg_reranker_pool_size c, cfg_splade_pool_size c, cfg_batch_max_tokens c,
       cfg_batch_max_seq c, cfg_embed_max_input_array c, cfg_rerank_max_input_docs c, cfg_ready_probe_timeout_ms c] \<and>
     sizes_ok (cfg_rerank_warmup_batch_sizes c) \<and> sizes_ok (cfg_embed_warmup_batch_sizes c) \<and>
     sizes_ok (cfg_splade_warmup_batch_sizes c)"

lemma int_field_Inr: "int_field w what s = Inr n \<longleftrightarrow> parse_uint w s = Some n"
  by (auto simp: int_field_def parse_int_parse_uint split: sum.splits)

lemma flag_field_Inr: "flag_field what hint s = Inr b \<longleftrightarrow> (if b then s \<in> {''true'', ''1''} else s \<in> {''false'', ''0''})"
  by (auto simp: flag_field_def)

lemma entry_part_plain:
  assumes "x \<in> set (list_entries s)" and "p \<in> set (split_on CHR '':'' (trim x))"
  shows "plain_field p"
proof -
  from assms(1) have "CHR '','' \<notin> set x"
    by (auto simp: list_entries_def dest: split_on_no_sep)
  moreover have "set p \<subseteq> set x"
    using split_on_subset [OF assms(2)] trim_subset [of x] by blast
  ultimately show ?thesis
    using split_on_no_sep [OF assms(2)] by (auto simp: plain_field_def)
qed

lemma plain_field_trim: "plain_field s \<Longrightarrow> plain_field (trim s)"
  using trim_subset [of s] by (auto simp: plain_field_def)

lemma onnx_filename_field_ok:
  assumes "onnx_filename_field nm parts = Inr f" and "\<And>p. p \<in> set parts \<Longrightarrow> plain_field p"
  shows "filename_ok f \<and> plain_field f"
proof (cases "length parts = 7")
  case True
  then have "plain_field (trim (parts ! 6))"
    using assms(2) by (intro plain_field_trim) simp
  with True assms(1) show ?thesis
    by (auto simp: onnx_filename_field_def filename_ok_def Let_def split: if_splits)
next
  case False
  then show ?thesis
    using assms(1) by (auto simp: onnx_filename_field_def filename_ok_def plain_field_def)
qed

lemma model_batch_max_seq_range:
  "0 < g \<Longrightarrow> g < 2 ^ 64 \<Longrightarrow> 0 < model_batch_max_seq e k g \<and> model_batch_max_seq e k g < 2 ^ 64"
  by (auto simp: model_batch_max_seq_def dest: parse_uint_bound split: option.splits)

lemma model_warmup_seq_len_pos:
  "(\<forall>g. gw = Some g \<longrightarrow> 0 < g) \<Longrightarrow> model_warmup_seq_len e k gw ml = Some n \<Longrightarrow> n = ml \<or> 0 < n"
  by (auto simp: model_warmup_seq_len_def Let_def split: option.splits if_splits)

lemma parse_one_model_ok:
  assumes r: "parse_one_model e gb gw x = Inr m" and x: "x \<in> set (list_entries s)"
    and gb: "0 < gb" "gb < 2 ^ 64" and gw: "\<forall>g. gw = Some g \<longrightarrow> 0 < g"
  shows "model_ok m"
proof -
  define parts where "parts = split_on CHR '':'' (trim x)"
  have plain: "plain_field p" if "p \<in> set parts" for p
    using entry_part_plain [OF x] that by (simp add: parts_def)
  have "6 \<le> length parts"
    using r by (auto simp: parse_one_model_def Let_def parts_def [symmetric] split: if_splits)
  then have p: "plain_field (parts ! 0)" "plain_field (parts ! 1)"
    by (auto intro: plain [OF nth_mem])
  obtain dim ml pid tti f where f: "parse_usize (parts ! 2) = Some dim" "parse_usize (parts ! 3) = Some ml"
      "parse_u32 (parts ! 4) = Some pid" "onnx_filename_field (parts ! 0) parts = Inr f"
    and m: "m = \<lparr>md_name = parts ! 0, md_dir = parts ! 1, md_onnx_filename = f, md_dim = dim, md_max_len = ml,
        md_pad_id = pid, md_has_token_type_ids = tti,
        md_batch_max_seq = model_batch_max_seq e (model_env_key (parts ! 0)) gb,
        md_warmup_seq_len = model_warmup_seq_len e (model_env_key (parts ! 0)) gw ml,
        md_memory_pattern = parse_memory_pattern (e (''EMBED_MEMORY_PATTERN_'' @ model_env_key (parts ! 0)))\<rparr>"
    using r by (auto simp: parse_one_model_def Let_def parts_def [symmetric] bind_res_Inr_iff int_field_Inr split: if_splits)
  show ?thesis
    unfolding model_ok_def m
    using p f(1-3) [THEN parse_uint_bound] onnx_filename_field_ok [OF f(4) plain]
      model_batch_max_seq_range [OF gb] model_warmup_seq_len_pos [OF gw]
    by (auto split: option.splits)
qed

lemma warmup_sizes_loop_ok:
  "distinct out \<and> list_all (\<lambda>n. 0 < n) out \<Longrightarrow>
   distinct (warmup_sizes_loop ps out) \<and> list_all (\<lambda>n. 0 < n) (warmup_sizes_loop ps out)"
  by (induction ps out rule: warmup_sizes_loop.induct) (auto split: option.splits)

lemma parse_warmup_batch_sizes_ok: "sizes_ok ds \<Longrightarrow> sizes_ok (parse_warmup_batch_sizes raw ds)"
  using warmup_sizes_loop_ok [of "[]"]
  by (auto simp: parse_warmup_batch_sizes_def sizes_ok_def Let_def split: option.splits)

lemma parse_embed_warmup_seq_len_pos: "parse_embed_warmup_seq_len raw = Some n \<Longrightarrow> 0 < n"
  by (auto simp: parse_embed_warmup_seq_len_def Let_def split: option.splits if_splits)

lemma global_warmup_pos: "global_warmup e = Some g \<Longrightarrow> 0 < g"
  by (auto simp: global_warmup_def dest: parse_embed_warmup_seq_len_pos split: option.splits if_splits)

lemma collect_res_all:
  "collect_res f xs = Inr ys \<Longrightarrow> \<forall>x \<in> set xs. \<forall>y. f x = Inr y \<longrightarrow> P y \<Longrightarrow> list_all P ys"
  by (induction xs arbitrary: ys) (auto split: sum.splits)

lemma resolve_models_ok:
  assumes "resolve_models e = Inr (ms, dm)"
  shows "ms \<noteq> [] \<and> list_all model_ok ms \<and> dm \<in> set (map md_name ms)"
proof -
  obtain str where "parse_models_with_globals e (parse_batch_max_seq (e ''BATCH_MAX_SEQ'')) (global_warmup e) str = Inr ms"
    and "ms \<noteq> []" and "\<exists>m \<in> set ms. md_name m = dm"
    using assms by (auto simp: resolve_models_def bind_res_Inr_iff Let_def split: option.splits if_splits)
  moreover from this(1) have "list_all model_ok ms"
    unfolding parse_models_with_globals_def
    by (rule collect_res_all)
      (auto intro: parse_one_model_ok [OF _ _ batch_max_seq.positive batch_max_seq.in_range] global_warmup_pos)
  ultimately show ?thesis by auto
qed

lemma parse_one_reranker_ok:
  "parse_one_reranker x = Inr r \<Longrightarrow> x \<in> set (list_entries s) \<Longrightarrow> plain_field (rd_name r) \<and> rd_max_len r < 2 ^ 64"
  using entry_part_plain [of x s "split_on CHR '':'' (trim x) ! 0"]
  by (auto simp: parse_one_reranker_def Let_def bind_res_Inr_iff int_field_Inr dest: parse_uint_bound split: if_splits)

lemma parse_one_splade_ok:
  "parse_one_splade x = Inr r \<Longrightarrow> x \<in> set (list_entries s) \<Longrightarrow> plain_field (sd_name r) \<and> sd_max_len r < 2 ^ 64"
  using entry_part_plain [of x s "split_on CHR '':'' (trim x) ! 0"]
  by (auto simp: parse_one_splade_def Let_def bind_res_Inr_iff int_field_Inr dest: parse_uint_bound split: if_splits)

lemma optional_rerankers_ok:
  "optional_list parse_rerankers raw = Inr rs \<Longrightarrow> list_all (\<lambda>r. plain_field (rd_name r) \<and> rd_max_len r < 2 ^ 64) rs"
  by (cases raw) (auto simp: optional_list_def parse_rerankers_def elim!: collect_res_all dest: parse_one_reranker_ok)

lemma optional_splades_ok:
  "optional_list parse_splades raw = Inr rs \<Longrightarrow> list_all (\<lambda>r. plain_field (sd_name r) \<and> sd_max_len r < 2 ^ 64) rs"
  by (cases raw) (auto simp: optional_list_def parse_splades_def elim!: collect_res_all dest: parse_one_splade_ok)

lemma resolve_intra_threads_pos: "resolve_intra_threads e = Inr n \<Longrightarrow> 0 < n"
  by (auto simp: resolve_intra_threads_def split: sum.splits if_splits)

lemma threads_or_pos: "0 < n \<Longrightarrow> 0 < threads_or e k n"
  by (auto simp: threads_or_def split: option.splits)

lemma resolve_port_range: "resolve_port e = Inr p \<Longrightarrow> p < 2 ^ 16"
  by (auto simp: resolve_port_def parse_int_parse_uint [symmetric] dest: parse_uint_bound split: sum.splits)

section \<open>Printing model lists\<close>

definition show_flag :: "bool \<Rightarrow> string" where
  "show_flag b = (if b then ''true'' else ''false'')"

definition model_fields :: "ModelDef \<Rightarrow> string list" where
  "model_fields m = [md_name m, md_dir m, show_nat (md_dim m), show_nat (md_max_len m), show_nat (md_pad_id m),
     show_flag (md_has_token_type_ids m), md_onnx_filename m]"

definition show_model :: "ModelDef \<Rightarrow> string" where
  "show_model m = join_on CHR '':'' (model_fields m)"

text \<open>A definition that an entry can denote in the environment \<open>e\<close> under the global defaults.\<close>

definition model_denotable :: "env \<Rightarrow> nat \<Rightarrow> nat option \<Rightarrow> ModelDef \<Rightarrow> bool" where
  "model_denotable e gb gw m \<longleftrightarrow>
     plain_field (md_name m) \<and> plain_field (md_dir m) \<and> plain_field (md_onnx_filename m) \<and>
     trim (md_name m) = md_name m \<and> trim (md_onnx_filename m) = md_onnx_filename m \<and>
     filename_ok (md_onnx_filename m) \<and>
     md_dim m < 2 ^ 64 \<and> md_max_len m < 2 ^ 64 \<and> md_pad_id m < 2 ^ 32 \<and>
     md_batch_max_seq m = model_batch_max_seq e (model_env_key (md_name m)) gb \<and>
     md_warmup_seq_len m = model_warmup_seq_len e (model_env_key (md_name m)) gw (md_max_len m) \<and>
     md_memory_pattern m = parse_memory_pattern (e (''EMBED_MEMORY_PATTERN_'' @ model_env_key (md_name m)))"

lemma digits_plain: "list_all is_digit s \<Longrightarrow> plain_field s"
  by (induction s) (auto simp: plain_field_def is_digit_def Let_def)

lemma model_fields_plain: "model_denotable e gb gw m \<Longrightarrow> p \<in> set (model_fields m) \<Longrightarrow> plain_field p"
  using show_nat_digits digits_plain
  by (auto simp: model_fields_def model_denotable_def show_flag_def) (auto simp: plain_field_def)

lemma filename_not_traversal: "filename_ok f \<Longrightarrow> take 3 f \<noteq> ''../'' \<and> take 3 f \<noteq> ''..'' @ [CHR 0x5C]"
proof -
  assume f: "filename_ok f"
  have "set (take 3 f) \<subseteq> set f" by (rule set_take_subset)
  with f show ?thesis by (auto simp: filename_ok_def)
qed

lemma trim_show_model:
  assumes "model_denotable e gb gw m"
  shows "trim (show_model m) = show_model m \<and> show_model m \<noteq> []"
proof -
  have ne: "md_onnx_filename m \<noteq> []" using assms by (simp add: model_denotable_def filename_ok_def)
  have "\<not> is_ws (last (md_onnx_filename m))"
    using assms ne trim_idem_iff [OF ne] by (simp add: model_denotable_def)
  moreover have "\<not> is_ws (hd (show_model m))"
    using assms trim_idem_iff [of "md_name m"]
    by (cases "md_name m") (simp_all add: model_denotable_def show_model_def model_fields_def is_ws_def)
  ultimately show ?thesis
    using ne by (subst trim_idem_iff) (simp_all add: show_model_def model_fields_def)
qed

lemma parse_show_model:
  assumes "model_denotable e gb gw m"
  shows "parse_one_model e gb gw (show_model m) = Inr m"
proof -
  have parts: "split_on CHR '':'' (trim (show_model m)) = model_fields m"
    using trim_show_model [OF assms] model_fields_plain [OF assms]
    by (simp add: show_model_def plain_field_def) (subst split_on_join_on, auto simp: model_fields_def)
  show ?thesis
    using assms filename_not_traversal [of "md_onnx_filename m"]
    unfolding parse_one_model_def parts
    by (simp add: model_fields_def Let_def int_field_def parse_int_parse_uint [THEN iffD1, OF parse_uint_show_nat]
        flag_field_def show_flag_def onnx_filename_field_def model_denotable_def filename_ok_def)
qed

lemma list_entries_join:
  assumes "\<And>x. x \<in> set xs \<Longrightarrow> CHR '','' \<notin> set x \<and> trim x \<noteq> []"
  shows "list_entries (join_on CHR '','' xs) = xs"
proof (cases "xs = []")
  case True
  then show ?thesis by (simp add: list_entries_def trim_def)
next
  case False
  then show ?thesis
    using assms by (simp add: list_entries_def split_on_join_on filter_id_conv)
qed

lemma parse_show_models:
  assumes "list_all (model_denotable e gb gw) ms"
  shows "parse_models_with_globals e gb gw (join_on CHR '','' (map show_model ms)) = Inr ms"
proof -
  have "CHR '','' \<notin> set (show_model m) \<and> trim (show_model m) \<noteq> []" if "m \<in> set ms" for m
  proof -
    from that assms have d: "model_denotable e gb gw m" by (simp add: list_all_iff)
    have "CHR '','' \<notin> set (show_model m)"
      using join_on_chars [of "CHR '':''" "model_fields m"] model_fields_plain [OF d]
      by (auto simp: show_model_def plain_field_def)
    with trim_show_model [OF d] show ?thesis by simp
  qed
  then have "list_entries (join_on CHR '','' (map show_model ms)) = map show_model ms"
    by (intro list_entries_join) auto
  then show ?thesis
    using assms by (auto simp: parse_models_with_globals_def collect_res_Inr_iff list_all2_conv_all_nth list_all_length
        parse_show_model)
qed

section \<open>Properties\<close>

lemma from_env_config_ok: "from_env e = Inr c \<Longrightarrow> config_ok c"
proof -
  assume c: "from_env e = Inr c"
  then obtain p ms dm n rs ss where r: "resolve_port e = Inr p" "resolve_models e = Inr (ms, dm)"
      "resolve_intra_threads e = Inr n" "optional_list parse_rerankers (e ''RERANKER_MODELS'') = Inr rs"
      "optional_list parse_splades (e ''SPLADE_MODELS'') = Inr ss"
    by (auto simp: from_env_def bind_res_Inr_iff)
  have sizes: "sizes_ok [1, 5]" "sizes_ok [1, 8]" "sizes_ok [1]"
    by (simp_all add: sizes_ok_def)
  from c r show ?thesis
    using resolve_port_range [OF r(1)] resolve_models_ok [OF r(2)] resolve_intra_threads_pos [OF r(3)]
      optional_rerankers_ok [OF r(4)] optional_splades_ok [OF r(5)] sizes [THEN parse_warmup_batch_sizes_ok]
    by (auto simp: from_env_def config_ok_def Let_def threads_or_pos embed_pool_size.positive reranker_pool_size.positive
        splade_pool_size.positive batch_max_tokens.positive batch_max_seq.positive max_input_array.positive
        max_input_docs.positive ready_probe_timeout.positive)
qed


text \<open>
  C38. Model lists can be written back: the comma-separated entries of any list of definitions
  that entries can denote parse to exactly these definitions, in order, with the per-model
  overrides of the environment applied.
\<close>

theorem parse_models_roundtrip:
  assumes "list_all (model_denotable e gb gw) ms"
  shows "parse_models_with_globals e gb gw (join_on CHR '','' (map show_model ms)) = Inr ms"
  using assms by (rule parse_show_models)

section \<open>Witnesses\<close>

lemmas parse_eval = parse_uint_def parse_int_def is_digit_def trim_def is_ws_def eq_ignore_ascii_case_def
  to_ascii_lowercase_def ascii_lower_def

lemmas model_eval = list_entries_def parse_one_model_def int_field_def flag_field_def onnx_filename_field_def model_env_key_def
  to_uppercase_def ascii_upper_def replace_char_def model_batch_max_seq_def model_warmup_seq_len_def parse_memory_pattern_def
  parse_eval

definition wit_env :: env where
  "wit_env = [''EMBED_MODELS'' \<mapsto> ''a:/m:384:512:1:true:model.onnx,b:/m:384:512:1:true:model.onnx'',
     ''EMBED_DEFAULT_MODEL'' \<mapsto> ''b'', ''EMBED_MAX_INPUT_ARRAY'' \<mapsto> ''0'']"

definition wit_model :: "string \<Rightarrow> ModelDef" where
  "wit_model nm = \<lparr>md_name = nm, md_dir = ''/m'', md_onnx_filename = ''model.onnx'', md_dim = 384, md_max_len = 512,
     md_pad_id = 1, md_has_token_type_ids = True, md_batch_max_seq = 256, md_warmup_seq_len = Some 512, md_memory_pattern = True\<rparr>"

lemma wit_denotable: "nm \<in> {''a'', ''b''} \<Longrightarrow> model_denotable wit_env 256 None (wit_model nm)"
  by (auto simp: model_denotable_def wit_model_def plain_field_def filename_ok_def model_eval wit_env_def)

lemma wit_list: "join_on CHR '','' (map show_model [wit_model ''a'', wit_model ''b'']) =
    ''a:/m:384:512:1:true:model.onnx,b:/m:384:512:1:true:model.onnx''"
  by (simp add: show_model_def model_fields_def wit_model_def show_flag_def show_nat.simps char_of_def bit_0)

theorem parse_models_roundtrip_witness:
  "parse_models_with_globals wit_env 256 None ''a:/m:384:512:1:true:model.onnx,b:/m:384:512:1:true:model.onnx'' =
     Inr [wit_model ''a'', wit_model ''b'']"
  using parse_models_roundtrip [of wit_env 256 None "[wit_model ''a'', wit_model ''b'']"]
  unfolding wit_list by (simp add: wit_denotable)

lemma wit_from_env:
  "\<exists>c. from_env wit_env = Inr c \<and> cfg_default_model c = ''b'' \<and> cfg_embed_max_input_array c = 32 \<and>
     \<not> cfg_multi_process c \<and> cfg_rerankers c = [] \<and> cfg_splades c = [] \<and>
     cfg_max_queue_size c \<noteq> 0 \<and> cfg_reranker_pool_size c = parse_reranker_pool_size None \<and> cfg_reranker_intra_threads c = 2"
proof -
  have "parse_models_with_globals wit_env 256 None ''a:/m:384:512:1:true:model.onnx,b:/m:384:512:1:true:model.onnx'' =
     Inr [wit_model ''a'', wit_model ''b'']"
    unfolding wit_list [symmetric] by (rule parse_show_models) (simp add: wit_denotable)
  then have "resolve_models wit_env = Inr ([wit_model ''a'', wit_model ''b''], ''b'')"
    by (simp add: resolve_models_def wit_env_def parse_batch_max_seq_def global_warmup_def env_or_def wit_model_def Let_def)
  moreover have "resolve_port wit_env = Inr 8082" "resolve_intra_threads wit_env = Inr 2"
    by (simp_all add: resolve_port_def resolve_intra_threads_def wit_env_def env_or_def parse_eval)
  ultimately show ?thesis
    by (simp add: from_env_def optional_list_def resolve_embed_max_input_array_def wit_env_def parse_eval Let_def
        parse_multi_process_flag_def threads_or_def num_or_def env_or_def)
qed


end
