(* ===== verification/Arena.thy ===== *)
theory Arena
  imports Config
begin

text \<open>
  The settings and the registration of the shared CPU arena (\<open>src/src/arena.rs\<close>): sizes with
  binary suffixes, the per-model ceiling, the two checks that stop the process, and the
  registration with the runtime, whose calls are parameters. A panic is a value of \<open>arena_panic\<close>.
\<close>

section \<open>Settings\<close>

definition DEFAULT_MAX_MEM_BYTES :: nat where "DEFAULT_MAX_MEM_BYTES = 6 * 1024 * 1024 * 1024"
definition DEFAULT_INITIAL_CHUNK_BYTES :: nat where "DEFAULT_INITIAL_CHUNK_BYTES = 1024 * 1024"
definition DEFAULT_MAX_DEAD_BYTES :: nat where "DEFAULT_MAX_DEAD_BYTES = 64 * 1024 * 1024"
definition DEFAULT_EXTEND_STRATEGY :: int where "DEFAULT_EXTEND_STRATEGY = 1"

record ArenaCfg =
  ac_max_mem_bytes :: nat
  ac_initial_chunk_bytes :: nat
  ac_max_dead_bytes :: nat
  ac_extend_strategy :: int

text \<open>The panics, with the key and the value their messages quote.\<close>

datatype arena_panic =
    NotANumber string string
  | UnknownSuffix string string
  | SizeOverflow string string
  | NotAnInteger string string
  | BadStrategy int
  | CeilingBelowChunk nat nat

definition size_multiplier :: "string \<Rightarrow> nat option" where
  "size_multiplier suf =
     (if suf \<in> {'''', ''B''} then Some 1
      else if suf \<in> {''K'', ''KIB''} then Some 1024
      else if suf \<in> {''M'', ''MIB''} then Some (1024 * 1024)
      else if suf \<in> {''G'', ''GIB''} then Some (1024 * 1024 * 1024)
      else None)"

definition parse_bytes_with_suffix :: "string \<Rightarrow> string \<Rightarrow> arena_panic + nat" where
  "parse_bytes_with_suffix env_key s =
     (let digits = takeWhile is_digit s;
          suffix_raw = dropWhile is_digit s;
          suf = to_uppercase (trim suffix_raw)
      in case parse_u64 digits of
           None \<Rightarrow> Inl (NotANumber env_key s)
         | Some mantissa \<Rightarrow>
             (case size_multiplier suf of
                None \<Rightarrow> Inl (UnknownSuffix env_key suffix_raw)
              | Some multiplier \<Rightarrow>
                  if mantissa * multiplier < 2 ^ 64 then Inr (mantissa * multiplier)
                  else Inl (SizeOverflow env_key s)))"

definition parse_usize_env :: "env \<Rightarrow> string \<Rightarrow> nat \<Rightarrow> arena_panic + nat" where
  "parse_usize_env e key dflt =
     (case e key of Some v \<Rightarrow> parse_bytes_with_suffix key (trim v) | None \<Rightarrow> Inr dflt)"

text \<open>\<open>str::parse::<i32>()\<close>.\<close>

definition parse_i32 :: "string \<Rightarrow> int option" where
  "parse_i32 s =
     (case s of
        c # ds \<Rightarrow>
          if c = CHR ''-''
          then (if ds \<noteq> [] \<and> list_all is_digit ds \<and> digits_val 0 ds \<le> 2 ^ 31 then Some (- int (digits_val 0 ds)) else None)
          else map_option int (parse_uint 31 s)
      | [] \<Rightarrow> None)"

definition parse_i32_env :: "env \<Rightarrow> string \<Rightarrow> int \<Rightarrow> arena_panic + int" where
  "parse_i32_env e key dflt =
     (case e key of
        Some v \<Rightarrow> (case parse_i32 (trim v) of Some n \<Rightarrow> Inr n | None \<Rightarrow> Inl (NotAnInteger key v))
      | None \<Rightarrow> Inr dflt)"

definition max_mem_for_model :: "env \<Rightarrow> string \<Rightarrow> arena_panic + nat" where
  "max_mem_for_model e model_key =
     (let per_model_key = ''EMBED_ARENA_MAX_MEM_BYTES_'' @ model_env_key model_key in
      if model_key \<noteq> []
      then (case e per_model_key of
              Some raw \<Rightarrow> parse_bytes_with_suffix per_model_key (trim raw)
            | None \<Rightarrow> parse_usize_env e ''EMBED_ARENA_MAX_MEM_BYTES'' DEFAULT_MAX_MEM_BYTES)
      else parse_usize_env e ''EMBED_ARENA_MAX_MEM_BYTES'' DEFAULT_MAX_MEM_BYTES)"

definition init_arena_config_for_model :: "env \<Rightarrow> string \<Rightarrow> arena_panic + ArenaCfg" where
  "init_arena_config_for_model e model_key =
     bind_res (max_mem_for_model e model_key) (\<lambda>max_mem.
     bind_res (parse_usize_env e ''EMBED_ARENA_INITIAL_CHUNK_BYTES'' DEFAULT_INITIAL_CHUNK_BYTES) (\<lambda>chunk.
     bind_res (parse_usize_env e ''EMBED_ARENA_MAX_DEAD_BYTES'' DEFAULT_MAX_DEAD_BYTES) (\<lambda>dead.
     bind_res (parse_i32_env e ''EMBED_ARENA_EXTEND_STRATEGY'' DEFAULT_EXTEND_STRATEGY) (\<lambda>strategy.
       if strategy \<noteq> 0 \<and> strategy \<noteq> 1 then Inl (BadStrategy strategy)
       else if max_mem < chunk then Inl (CeilingBelowChunk max_mem chunk)
       else Inr \<lparr>ac_max_mem_bytes = max_mem, ac_initial_chunk_bytes = chunk,
                 ac_max_dead_bytes = dead, ac_extend_strategy = strategy\<rparr>))))"

definition init_arena_config :: "env \<Rightarrow> arena_panic + ArenaCfg" where
  "init_arena_config e = init_arena_config_for_model e []"

definition parse_intra_op_spinning :: "env \<Rightarrow> bool" where
  "parse_intra_op_spinning e \<longleftrightarrow> e ''ORT_INTRA_OP_SPINNING'' \<in> {Some ''1'', Some ''true'', Some ''yes''}"

section \<open>Registration\<close>

text \<open>
  The outcomes of the runtime's calls: memory info, arena configuration, environment, and
  registration. The last is a function of the allocator the environment already has.
\<close>

record arena_runtime =
  ar_memory_info :: bool
  ar_arena_cfg :: "(string \<times> nat) list \<Rightarrow> bool"
  ar_environment :: "string option"
  ar_register :: "(string \<times> nat) list option \<Rightarrow> bool"

text \<open>
  The state: the allocator of the environment, the flag that sessions check, the published
  gauges, and how often a registration was skipped.
\<close>

record arena_state =
  as_live :: "(string \<times> nat) list option"
  as_registered :: bool
  as_gauges :: "ArenaCfg option"
  as_skipped :: nat

definition arena_keys :: "ArenaCfg \<Rightarrow> (string \<times> nat) list" where
  "arena_keys cfg =
     [(''max_mem'', ac_max_mem_bytes cfg), (''arena_extend_strategy'', nat (ac_extend_strategy cfg)),
      (''initial_chunk_size_bytes'', ac_initial_chunk_bytes cfg), (''max_dead_bytes_per_chunk'', ac_max_dead_bytes cfg)]"

definition register_shared_cpu_arena_with_cfg ::
  "arena_runtime \<Rightarrow> ArenaCfg \<Rightarrow> arena_state \<Rightarrow> (string + unit) \<times> arena_state" where
  "register_shared_cpu_arena_with_cfg rt cfg s =
     (if \<not> ar_memory_info rt then (Inl ''CreateCpuMemoryInfo returned non-null status'', s)
      else if \<not> ar_arena_cfg rt (arena_keys cfg) then (Inl ''CreateArenaCfgV2 returned non-null status'', s)
      else case ar_environment rt of
        Some err \<Rightarrow> (Inl (''Environment::current: '' @ err), s)
      | None \<Rightarrow>
          if ar_register rt (as_live s)
          then (Inr (), s\<lparr>as_live := Some (arena_keys cfg), as_registered := True, as_gauges := Some cfg\<rparr>)
          else (Inr (), s\<lparr>as_registered := True, as_skipped := Suc (as_skipped s)\<rparr>))"

definition register_shared_cpu_arena_for_model ::
  "arena_runtime \<Rightarrow> env \<Rightarrow> string \<Rightarrow> arena_state \<Rightarrow> arena_panic + (string + unit) \<times> arena_state" where
  "register_shared_cpu_arena_for_model rt e model_key s =
     bind_res (init_arena_config_for_model e model_key) (\<lambda>cfg. Inr (register_shared_cpu_arena_with_cfg rt cfg s))"

definition register_shared_cpu_arena :: "arena_runtime \<Rightarrow> env \<Rightarrow> arena_state \<Rightarrow> arena_panic + (string + unit) \<times> arena_state" where
  "register_shared_cpu_arena rt e s = register_shared_cpu_arena_for_model rt e [] s"

text \<open>The check at the top of every function that builds a session: \<open>False\<close> is the panic.\<close>

definition assert_arena_registered_before_session :: "arena_state \<Rightarrow> bool" where
  "assert_arena_registered_before_session s \<longleftrightarrow> as_registered s"

section \<open>Lemmas: sizes\<close>

lemma takeWhile_digits:
  "list_all is_digit ds \<Longrightarrow> (case r of [] \<Rightarrow> True | c # _ \<Rightarrow> \<not> is_digit c) \<Longrightarrow>
   takeWhile is_digit (ds @ r) = ds \<and> dropWhile is_digit (ds @ r) = r"
  by (cases r) (auto simp: list_all_iff takeWhile_append2 dropWhile_append2)

lemma parse_bytes_value:
  "parse_bytes_with_suffix key s = Inr n \<longleftrightarrow>
     (\<exists>mantissa multiplier. parse_u64 (takeWhile is_digit s) = Some mantissa \<and>
        size_multiplier (to_uppercase (trim (dropWhile is_digit s))) = Some multiplier \<and>
        n = mantissa * multiplier \<and> n < 2 ^ 64)"
  by (auto simp: parse_bytes_with_suffix_def Let_def split: option.splits)

lemma parse_bytes_print:
  assumes "n * k < 2 ^ 64" "0 < k" "size_multiplier (to_uppercase (trim suf)) = Some k"
    and "case suf of [] \<Rightarrow> True | c # _ \<Rightarrow> \<not> is_digit c"
  shows "parse_bytes_with_suffix key (show_nat n @ suf) = Inr (n * k)"
proof -
  have "n \<le> n * k" using assms(2) by (cases k) auto
  then have "n < 2 ^ 64" using assms(1) by (rule le_less_trans)
  moreover have "list_all is_digit (show_nat n)" using show_nat_digits by blast
  ultimately show ?thesis
    using assms takeWhile_digits [of "show_nat n" suf] parse_uint_show_nat [of n 64] by (simp add: parse_bytes_with_suffix_def)
qed

lemma parse_usize_env_bound: "dflt < 2 ^ 64 \<Longrightarrow> parse_usize_env e key dflt = Inr n \<Longrightarrow> n < 2 ^ 64"
  by (auto simp: parse_usize_env_def parse_bytes_value split: option.splits)

section \<open>Lemmas: configuration and registration\<close>

lemma default_bounds: "DEFAULT_MAX_MEM_BYTES < 2 ^ 64" "DEFAULT_INITIAL_CHUNK_BYTES < 2 ^ 64" "DEFAULT_MAX_DEAD_BYTES < 2 ^ 64"
  by (simp_all add: DEFAULT_MAX_MEM_BYTES_def DEFAULT_INITIAL_CHUNK_BYTES_def DEFAULT_MAX_DEAD_BYTES_def)

lemma parse_bytes_bound: "parse_bytes_with_suffix key s = Inr n \<Longrightarrow> n < 2 ^ 64"
  unfolding parse_bytes_value by blast

lemma max_mem_for_model_bound: "max_mem_for_model e k = Inr n \<Longrightarrow> n < 2 ^ 64"
  unfolding max_mem_for_model_def Let_def
  by (elim parse_bytes_bound parse_usize_env_bound [OF default_bounds(1)] | split if_splits option.splits)+

lemma init_arena_config_Inr:
  assumes "init_arena_config_for_model e k = Inr cfg"
  obtains mm ch dd st where "max_mem_for_model e k = Inr mm"
    "parse_usize_env e ''EMBED_ARENA_MAX_DEAD_BYTES'' DEFAULT_MAX_DEAD_BYTES = Inr dd"
    "st = 0 \<or> st = 1" "ch \<le> mm"
    "cfg = \<lparr>ac_max_mem_bytes = mm, ac_initial_chunk_bytes = ch, ac_max_dead_bytes = dd, ac_extend_strategy = st\<rparr>"
  using assms unfolding init_arena_config_for_model_def bind_res_Inr_iff
  by (elim exE conjE) (auto split: if_split_asm simp: not_less)

lemma arena_config_sound:
  assumes "init_arena_config_for_model e k = Inr cfg"
  shows "ac_initial_chunk_bytes cfg \<le> ac_max_mem_bytes cfg \<and> ac_max_mem_bytes cfg < 2 ^ 64 \<and>
    ac_max_dead_bytes cfg < 2 ^ 64 \<and> ac_extend_strategy cfg \<in> {0, 1}"
  using assms
proof (rule init_arena_config_Inr)
  fix mm ch dd st
  assume h: "max_mem_for_model e k = Inr mm" "parse_usize_env e ''EMBED_ARENA_MAX_DEAD_BYTES'' DEFAULT_MAX_DEAD_BYTES = Inr dd"
    "st = 0 \<or> st = 1" "ch \<le> mm"
    "cfg = \<lparr>ac_max_mem_bytes = mm, ac_initial_chunk_bytes = ch, ac_max_dead_bytes = dd, ac_extend_strategy = st\<rparr>"
  show ?thesis
    using max_mem_for_model_bound [OF h(1)] parse_usize_env_bound [OF default_bounds(3) h(2)] h(3-5) by simp
qed

text \<open>
  The published gauges describe the allocator the environment has, and the flag is set once
  there is one.
\<close>

definition arena_inv :: "arena_state \<Rightarrow> bool" where
  "arena_inv s \<longleftrightarrow> as_live s = map_option arena_keys (as_gauges s) \<and> (as_live s \<noteq> None \<longrightarrow> as_registered s)"

lemma register_arena_inv:
  assumes "arena_inv s" "\<And>live. \<not> ar_register rt (Some live)"
  shows "arena_inv (snd (register_shared_cpu_arena_with_cfg rt cfg s))"
    and "as_gauges s \<noteq> None \<Longrightarrow> as_gauges (snd (register_shared_cpu_arena_with_cfg rt cfg s)) = as_gauges s"
  using assms by (cases "as_live s"; auto simp: arena_inv_def register_shared_cpu_arena_with_cfg_def split: option.split)+

lemma register_arena_ok:
  "fst (register_shared_cpu_arena_with_cfg rt cfg s) = Inr () \<Longrightarrow>
   assert_arena_registered_before_session (snd (register_shared_cpu_arena_with_cfg rt cfg s))"
  by (auto simp: register_shared_cpu_arena_with_cfg_def assert_arena_registered_before_session_def split: if_splits option.splits)

lemma register_arena_failed:
  "fst (register_shared_cpu_arena_with_cfg rt cfg s) = Inl err \<Longrightarrow> snd (register_shared_cpu_arena_with_cfg rt cfg s) = s"
  by (auto simp: register_shared_cpu_arena_with_cfg_def split: if_splits option.splits)

end
