(* ===== verification/Floats.thy ===== *)
theory Floats
  imports Complex_Main Rust_Std
begin

text \<open>
  Floating point as the program uses it, in two views.
  \<^item> \<open>f32\<close> is a bit pattern. The order-related operations of the standard library are
    exact on it: \<open>total_cmp\<close> (the linear order of the type), the IEEE comparisons,
    \<open>is_nan\<close>, \<open>clamp\<close> and negation.
  \<^item> \<open>fl\<close> is a value: not-a-number, an infinity or a rational. Conversions from
    \<open>usize\<close>, multiplication and division round to nearest, ties to even, in a format
    given by its precision and exponent range, which is exact for \<open>f32\<close> and \<open>f64\<close>
    up to the sign of zero.
  Library functions that are not correctly rounded (\<open>exp\<close>, \<open>ln\<close>) stay parameters of the
  definitions that call them.
\<close>

section \<open>Bit patterns and orders\<close>

datatype f32 = F32 (f32_bits: "32 word")

definition f32_u :: "f32 \<Rightarrow> nat" where
  "f32_u x = unat (f32_bits x)"

lemma f32_u_inj: "f32_u x = f32_u y \<Longrightarrow> x = y"
  by (cases x; cases y) (simp add: f32_u_def word_unat_eq_iff)

text \<open>
  \<open>f32::total_cmp\<close> compares the bit patterns as signed integers after flipping the low 31
  bits of negative ones; \<open>f32_key\<close> is that integer.
\<close>

definition f32_key :: "f32 \<Rightarrow> int" where
  "f32_key x = (let u = int (f32_u x) in if u < 2 ^ 31 then u else 2 ^ 31 - 1 - u)"

lemma f32_key_inj: "f32_key x = f32_key y \<Longrightarrow> x = y"
  by (rule f32_u_inj) (auto simp: f32_key_def Let_def split: if_splits)

instantiation f32 :: linorder
begin

definition less_eq_f32 :: "f32 \<Rightarrow> f32 \<Rightarrow> bool" where
  "less_eq_f32 x y \<longleftrightarrow> f32_key x \<le> f32_key y"

definition less_f32 :: "f32 \<Rightarrow> f32 \<Rightarrow> bool" where
  "less_f32 x y \<longleftrightarrow> f32_key x < f32_key y"

instance
  by standard (auto simp: less_eq_f32_def less_f32_def intro: f32_key_inj)

end

text \<open>Sign-magnitude reading: equal for the two zeros, monotone in the numeric value.\<close>

definition f32_sm :: "f32 \<Rightarrow> int" where
  "f32_sm x = (let u = int (f32_u x) in if u < 2 ^ 31 then u else 2 ^ 31 - u)"

definition f32_is_nan :: "f32 \<Rightarrow> bool" where
  "f32_is_nan x \<longleftrightarrow> \<bar>f32_sm x\<bar> > 0x7F800000"

definition f32_lt :: "f32 \<Rightarrow> f32 \<Rightarrow> bool" where
  "f32_lt x y \<longleftrightarrow> \<not> f32_is_nan x \<and> \<not> f32_is_nan y \<and> f32_sm x < f32_sm y"

definition f32_le :: "f32 \<Rightarrow> f32 \<Rightarrow> bool" where
  "f32_le x y \<longleftrightarrow> \<not> f32_is_nan x \<and> \<not> f32_is_nan y \<and> f32_sm x \<le> f32_sm y"

text \<open>\<open>x.clamp(lo, hi)\<close>: a NaN is returned as it is.\<close>

definition f32_clamp :: "f32 \<Rightarrow> f32 \<Rightarrow> f32 \<Rightarrow> f32" where
  "f32_clamp x lo hi = (if f32_lt x lo then lo else if f32_lt hi x then hi else x)"

definition f32_neg :: "f32 \<Rightarrow> f32" where
  "f32_neg x = F32 (f32_bits x + 2 ^ 31)"

definition f32_zero :: f32 where "f32_zero = F32 0"
definition f32_one :: f32 where "f32_one = F32 0x3F800000"

text \<open>The total order refines the numeric one.\<close>

lemma f32_lt_total: "f32_lt x y \<Longrightarrow> x < y"
  by (auto simp: f32_lt_def less_f32_def f32_key_def f32_sm_def Let_def split: if_splits)

lemma f32_le_total: "f32_sm x < f32_sm y \<Longrightarrow> x \<le> y"
  by (auto simp: less_eq_f32_def f32_key_def f32_sm_def Let_def split: if_splits)

lemma f32_total_sm: "x \<le> y \<Longrightarrow> f32_sm x \<le> f32_sm y"
  by (auto simp: less_eq_f32_def f32_key_def f32_sm_def Let_def split: if_splits)

lemma f32_lt_irrefl [simp]: "\<not> f32_lt x x"
  by (simp add: f32_lt_def)

lemma f32_lt_trans: "f32_lt x y \<Longrightarrow> f32_lt y z \<Longrightarrow> f32_lt x z"
  by (simp add: f32_lt_def)

lemma f32_clamp_range:
  assumes "\<not> f32_is_nan x" and "f32_le lo hi"
  shows "f32_le lo (f32_clamp x lo hi) \<and> f32_le (f32_clamp x lo hi) hi"
  using assms by (auto simp: f32_clamp_def f32_lt_def f32_le_def)

lemma f32_clamp_mono:
  assumes "f32_le x y" and "f32_le lo hi"
  shows "f32_le (f32_clamp x lo hi) (f32_clamp y lo hi)"
  using assms by (auto simp: f32_clamp_def f32_lt_def f32_le_def)

section \<open>Values and rounding\<close>

datatype fl = NaN | FInf bool | Fin rat

text \<open>\<open>FInf True\<close> is negative infinity.\<close>

definition pow2 :: "int \<Rightarrow> rat" where
  "pow2 e = (if 0 \<le> e then 2 ^ nat e else 1 / 2 ^ nat (- e))"

fun blen :: "nat \<Rightarrow> nat" where
  "blen n = (if n = 0 then 0 else Suc (blen (n div 2)))"

declare blen.simps [simp del]

text \<open>The exponent of the leading binary digit of a positive rational.\<close>

definition ilog2 :: "rat \<Rightarrow> int" where
  "ilog2 q = (if 1 \<le> q then int (blen (nat \<lfloor>q\<rfloor>)) - 1 else - int (blen (nat (\<lceil>1 / q\<rceil> - 1))))"

definition round_half_even :: "rat \<Rightarrow> int" where
  "round_half_even q =
     (let f = \<lfloor>q\<rfloor>; d = q - of_int f in
      if d < 1 / 2 then f else if 1 / 2 < d then f + 1 else if even f then f else f + 1)"

record fmt =
  prec :: nat
  emin :: int
  emax :: int

definition fmt32 :: fmt where "fmt32 = \<lparr>prec = 24, emin = - 149, emax = 128\<rparr>"
definition fmt64 :: fmt where "fmt64 = \<lparr>prec = 53, emin = - 1074, emax = 1024\<rparr>"

definition rnd :: "fmt \<Rightarrow> rat \<Rightarrow> rat" where
  "rnd F q =
     (if q = 0 then 0
      else let e = max (ilog2 \<bar>q\<bar> - (int (prec F) - 1)) (emin F) in
        of_int (round_half_even (q / pow2 e)) * pow2 e)"

definition fl_round :: "fmt \<Rightarrow> rat \<Rightarrow> fl" where
  "fl_round F q = (let r = rnd F q in if pow2 (emax F) \<le> \<bar>r\<bar> then FInf (r < 0) else Fin r)"

definition fl_of_nat :: "fmt \<Rightarrow> nat \<Rightarrow> fl" where
  "fl_of_nat F n = fl_round F (of_nat n)"

text \<open>Multiplication: \<open>0 * inf\<close> is NaN.\<close>

fun fl_mul :: "fmt \<Rightarrow> fl \<Rightarrow> fl \<Rightarrow> fl" where
  "fl_mul F NaN _ = NaN"
| "fl_mul F _ NaN = NaN"
| "fl_mul F (FInf s) (FInf t) = FInf (s \<noteq> t)"
| "fl_mul F (FInf s) (Fin q) = (if q = 0 then NaN else FInf (s \<noteq> (q < 0)))"
| "fl_mul F (Fin q) (FInf s) = (if q = 0 then NaN else FInf (s \<noteq> (q < 0)))"
| "fl_mul F (Fin p) (Fin q) = fl_round F (p * q)"

text \<open>Division of finite values by a positive finite one; the program divides no other way.\<close>

fun fl_div_pos :: "fmt \<Rightarrow> fl \<Rightarrow> fl \<Rightarrow> fl" where
  "fl_div_pos F (Fin p) (Fin q) = (if 0 < q then fl_round F (p / q) else NaN)"
| "fl_div_pos F _ _ = NaN"

fun fl_lt :: "fl \<Rightarrow> fl \<Rightarrow> bool" where
  "fl_lt NaN _ = False"
| "fl_lt _ NaN = False"
| "fl_lt (FInf s) (FInf t) = (s \<and> \<not> t)"
| "fl_lt (FInf s) (Fin _) = s"
| "fl_lt (Fin _) (FInf t) = (\<not> t)"
| "fl_lt (Fin p) (Fin q) = (p < q)"

fun fl_le :: "fl \<Rightarrow> fl \<Rightarrow> bool" where
  "fl_le NaN _ = False"
| "fl_le _ NaN = False"
| "fl_le (FInf s) (FInf t) = (s \<or> \<not> t)"
| "fl_le (FInf s) (Fin _) = s"
| "fl_le (Fin _) (FInf t) = (\<not> t)"
| "fl_le (Fin p) (Fin q) = (p \<le> q)"

text \<open>\<open>x.ceil() as u32\<close>: the cast saturates and sends NaN to 0.\<close>

fun fl_ceil_u32 :: "fl \<Rightarrow> nat" where
  "fl_ceil_u32 NaN = 0"
| "fl_ceil_u32 (FInf s) = (if s then 0 else 2 ^ 32 - 1)"
| "fl_ceil_u32 (Fin q) = min (nat \<lceil>q\<rceil>) (2 ^ 32 - 1)"

text \<open>Addition; opposite infinities give NaN.\<close>

fun fl_add :: "fmt \<Rightarrow> fl \<Rightarrow> fl \<Rightarrow> fl" where
  "fl_add F NaN _ = NaN"
| "fl_add F _ NaN = NaN"
| "fl_add F (FInf s) (FInf t) = (if s = t then FInf s else NaN)"
| "fl_add F (FInf s) (Fin _) = FInf s"
| "fl_add F (Fin _) (FInf t) = FInf t"
| "fl_add F (Fin p) (Fin q) = fl_round F (p + q)"

text \<open>\<open>1.0 / x\<close> for the positive \<open>x\<close> the program divides by.\<close>

fun fl_recip_pos :: "fmt \<Rightarrow> fl \<Rightarrow> fl" where
  "fl_recip_pos F (Fin q) = (if 0 < q then fl_round F (1 / q) else NaN)"
| "fl_recip_pos F (FInf s) = (if s then NaN else Fin 0)"
| "fl_recip_pos F NaN = NaN"

text \<open>
  The correctly rounded square root. \<open>isqrt\<close> is the integer square root; a rational is scaled
  to the last digit of the result, and the remainder decides the rounding.
\<close>

fun isqrt :: "nat \<Rightarrow> nat" where
  "isqrt n = (if n = 0 then 0 else let r = 2 * isqrt (n div 4) in if (r + 1) * (r + 1) \<le> n then r + 1 else r)"

declare isqrt.simps [simp del]

definition sqrt_half_even :: "rat \<Rightarrow> int" where
  "sqrt_half_even x =
     (let f = isqrt (nat \<lfloor>x\<rfloor>); h = of_nat f + 1 / 2 in
      if x < h * h then int f else if h * h < x then int f + 1 else if even f then int f else int f + 1)"

fun fl_sqrt :: "fmt \<Rightarrow> fl \<Rightarrow> fl" where
  "fl_sqrt F NaN = NaN"
| "fl_sqrt F (FInf s) = (if s then NaN else FInf False)"
| "fl_sqrt F (Fin q) =
     (if q < 0 then NaN else if q = 0 then Fin 0
      else let e = ilog2 q div 2 - (int (prec F) - 1)
           in Fin (of_int (sqrt_half_even (q / pow2 (2 * e))) * pow2 e))"

section \<open>Bit patterns and values\<close>

text \<open>The value of a bit pattern: sign, eight exponent bits, 23 fraction bits.\<close>

definition f32_negative :: "f32 \<Rightarrow> bool" where
  "f32_negative x \<longleftrightarrow> 2 ^ 31 \<le> f32_u x"

definition f32_val :: "f32 \<Rightarrow> fl" where
  "f32_val x =
     (let u = f32_u x mod 2 ^ 31; e = u div 2 ^ 23; m = u mod 2 ^ 23; sg = (if f32_negative x then - 1 else 1)
      in if e = 255 then (if m = 0 then FInf (f32_negative x) else NaN)
         else if e = 0 then Fin (sg * of_nat m * pow2 (- 149))
         else Fin (sg * of_nat (m + 2 ^ 23) * pow2 (int e - 150)))"

text \<open>
  The bit pattern of a value of the format, with the sign a zero gets; a NaN is the quiet one
  without payload.
\<close>

definition f32_of_fl :: "bool \<Rightarrow> fl \<Rightarrow> f32" where
  "f32_of_fl zero_sign v =
     (case v of
        NaN \<Rightarrow> F32 0x7FC00000
      | FInf s \<Rightarrow> F32 (if s then 0xFF800000 else 0x7F800000)
      | Fin q \<Rightarrow>
          if q = 0 then F32 (if zero_sign then 0x80000000 else 0)
          else let e = max (ilog2 \<bar>q\<bar>) (- 126); m = nat \<lfloor>\<bar>q\<bar> / pow2 (e - 23)\<rfloor>;
                   u = (if m < 2 ^ 23 then m else nat (e + 127) * 2 ^ 23 + (m - 2 ^ 23))
               in F32 (of_nat (u + (if q < 0 then 2 ^ 31 else 0))))"

text \<open>
  Addition and multiplication of \<open>f32\<close>: a zero sum is negative only if both operands are
  negative zeros, a zero product has the product of the signs.
\<close>

definition f32_add :: "f32 \<Rightarrow> f32 \<Rightarrow> f32" where
  "f32_add x y = f32_of_fl (f32_negative x \<and> f32_negative y) (fl_add fmt32 (f32_val x) (f32_val y))"

definition f32_mul :: "f32 \<Rightarrow> f32 \<Rightarrow> f32" where
  "f32_mul x y = f32_of_fl (f32_negative x \<noteq> f32_negative y) (fl_mul fmt32 (f32_val x) (f32_val y))"

text \<open>\<open>x as f32\<close> from \<open>f64\<close> and from an integer.\<close>

fun fl_narrow :: "fl \<Rightarrow> fl" where
  "fl_narrow (Fin q) = fl_round fmt32 q"
| "fl_narrow v = v"

definition f32_of_int :: "int \<Rightarrow> f32" where
  "f32_of_int k = f32_of_fl False (fl_round fmt32 (of_int k))"

section \<open>Exact values\<close>

lemma pow2_pos [simp]: "0 < pow2 e"
  by (simp add: pow2_def)

lemma pow2_add: "pow2 (a + b) = pow2 a * pow2 b"
proof -
  have *: "pow2 e = 2 powi e" for e
    by (auto simp: pow2_def power_int_def divide_simps)
  show ?thesis by (simp add: * power_int_add)
qed

lemma pow2_minus: "pow2 (- e) = 1 / pow2 e"
  using pow2_add [of e "- e"] by (simp add: pow2_def field_simps)

lemma round_half_even_int [simp]: "round_half_even (of_int k) = k"
  by (simp add: round_half_even_def)

lemma pow2_nat: "pow2 (int n) = of_int (2 ^ n)"
  by (simp add: pow2_def)

text \<open>A dyadic rational whose last digit is not below the rounding position is exact.\<close>

lemma rnd_dyadic:
  assumes q: "q = of_int k * pow2 j" and j: "emin F \<le> j" "ilog2 \<bar>q\<bar> - (int (prec F) - 1) \<le> j"
  shows "rnd F q = q"
proof (cases "q = 0")
  case False
  define e where "e = max (ilog2 \<bar>q\<bar> - (int (prec F) - 1)) (emin F)"
  from j have "j = e + int (nat (j - e))" by (simp add: e_def)
  then have "pow2 j = pow2 e * of_int (2 ^ nat (j - e))"
    by (metis pow2_add pow2_nat)
  then have "q / pow2 e = of_int (k * 2 ^ nat (j - e))"
    by (simp add: q less_imp_neq [OF pow2_pos, symmetric])
  then have "rnd F q = of_int (k * 2 ^ nat (j - e)) * pow2 e"
    using False by (simp only: rnd_def e_def [symmetric] Let_def round_half_even_int if_False)
  also have "\<dots> = q"
    using \<open>pow2 j = _\<close> by (simp add: q)
  finally show ?thesis .
qed (simp add: rnd_def)

lemma blen_le: "n < 2 ^ k \<Longrightarrow> blen n \<le> k"
proof (induction k arbitrary: n)
  case 0
  then show ?case by (simp add: blen.simps)
next
  case (Suc k)
  then have "blen (n div 2) \<le> k" by (intro Suc.IH) auto
  then show ?case by (subst blen.simps) auto
qed

lemma ilog2_le: "0 \<le> q \<Longrightarrow> nat \<lfloor>q\<rfloor> < 2 ^ k \<Longrightarrow> 1 \<le> k \<Longrightarrow> ilog2 q \<le> int k - 1"
  using blen_le [of "nat \<lfloor>q\<rfloor>" k] by (auto simp: ilog2_def)

lemma rnd32_nat: "n < 2 ^ 24 \<Longrightarrow> rnd fmt32 (of_nat n) = of_nat n"
  by (rule rnd_dyadic [of _ "int n" 0])
     (use ilog2_le [of "of_nat n" 24] in \<open>auto simp: pow2_def fmt32_def\<close>)

lemma rnd32_nat_quarter:
  assumes "n < 2 ^ 24"
  shows "rnd fmt32 (of_nat n / 4) = of_nat n / 4"
proof (rule rnd_dyadic [of _ "int n" "- 2"])
  have "\<lfloor>of_nat n / 4 :: rat\<rfloor> = int (n div 4)"
    by (metis floor_divide_of_nat_eq of_nat_numeral)
  then have "nat \<lfloor>of_nat n / 4 :: rat\<rfloor> < 2 ^ 22"
    using assms by simp
  then have "ilog2 (of_nat n / 4) \<le> int 22 - 1"
    by (intro ilog2_le) auto
  then show "ilog2 \<bar>of_nat n / 4\<bar> - (int (prec fmt32) - 1) \<le> - 2"
    by (simp add: fmt32_def)
qed (auto simp: pow2_def fmt32_def)

lemma emax_fmt32: "emax fmt32 = 128"
  by (simp add: fmt32_def)

lemma fl_of_nat32: "n < 2 ^ 24 \<Longrightarrow> fl_of_nat fmt32 n = Fin (of_nat n)"
proof -
  assume n: "n < 2 ^ 24"
  have "(of_nat n :: rat) < of_nat (2 ^ 128)"
    unfolding of_nat_less_iff using n by (rule less_trans) simp
  then show ?thesis
    using rnd32_nat [OF n] by (simp add: fl_of_nat_def fl_round_def Let_def pow2_def emax_fmt32)
qed

text \<open>Double precision holds the natural numbers below \<open>2 ^ 53\<close> exactly.\<close>

lemma rnd64_nat: "n < 2 ^ 53 \<Longrightarrow> rnd fmt64 (of_nat n) = of_nat n"
  by (rule rnd_dyadic [of _ "int n" 0])
     (use ilog2_le [of "of_nat n" 53] in \<open>auto simp: pow2_def fmt64_def\<close>)

lemma fl_round64_nat:
  assumes "n < 2 ^ 53"
  shows "fl_round fmt64 (of_nat n) = Fin (of_nat n)"
proof -
  have "(of_nat n :: rat) < of_nat (2 ^ 1024)"
    unfolding of_nat_less_iff using assms by (rule less_trans) simp
  then have "(of_nat n :: rat) < 2 ^ 1024" by simp
  then have "(of_nat n :: rat) < pow2 (emax fmt64)" by (simp add: pow2_def fmt64_def)
  then show ?thesis
    using rnd64_nat [OF assms] by (simp add: fl_round_def Let_def)
qed

lemma fl_of_nat64: "n < 2 ^ 53 \<Longrightarrow> fl_of_nat fmt64 n = Fin (of_nat n)"
  by (simp add: fl_of_nat_def fl_round64_nat)


end
