(* ===== verification/Batcher.thy ===== *)
theory Batcher
  imports Floats
begin

text \<open>
  The dynamic batcher of \<open>src/src/batcher.rs\<close>: requests carrying token sequences are
  queued in a bounded channel, a worker coalesces them into batches under an item cap, a
  padded token budget, a sequence cap and a length-ratio gate, defers the first request that
  does not fit (the carry) to the next batch, and answers every request of a batch with its
  slice of the vectors the model returns. Time enters through the sequence of outcomes of
  the worker's receives; whether a requester has gone away is a pair of predicates, one for
  the check at the receive and one for the check before the dispatch.
\<close>

section \<open>Data\<close>

type_synonym token_seq = "32 word list"
type_synonym fvec = "f32 list"

datatype BatchError = QueueFull string | Inference string | Shutdown

definition round_up_seq_len :: "nat \<Rightarrow> nat \<Rightarrow> nat" where
  "round_up_seq_len n cap = (if n \<le> 1 then 1 else min (next_power_of_two n) cap)"

text \<open>
  \<open>BATCH_LENGTH_RATIO_THRESHOLD\<close>: unset is 0.0; a value that is no float or is negative (or
  NaN) panics, which is \<open>None\<close>. The decimal-to-binary conversion is the parameter.
\<close>

definition parse_length_ratio_threshold :: "(string \<Rightarrow> fl option) \<Rightarrow> env \<Rightarrow> fl option" where
  "parse_length_ratio_threshold parse_f64 e =
     (case e ''BATCH_LENGTH_RATIO_THRESHOLD'' of
        None \<Rightarrow> Some (Fin 0)
      | Some v \<Rightarrow> (case parse_f64 (trim v) of
          None \<Rightarrow> None
        | Some x \<Rightarrow> if fl_le (Fin 0) x then Some x else None))"

record Item =
  token_ids :: "token_seq list"
  reply :: nat
  enqueued_at :: nat

definition n_texts :: "Item \<Rightarrow> nat" where
  "n_texts i = length (token_ids i)"

definition max_seq_len :: "Item \<Rightarrow> nat" where
  "max_seq_len i = fold max (map length (token_ids i)) 0"

definition item_total_tokens :: "Item \<Rightarrow> nat" where
  "item_total_tokens i = sum_list (map length (token_ids i))"

record BatcherConfig =
  max_batch_tokens :: nat
  max_batch_items :: nat
  max_batch_seq :: nat
  padded_model :: bool
  wait :: nat
  model_max_len :: nat
  length_ratio_threshold :: fl

record BatchAccum =
  items :: nat
  max_len :: nat
  total_tokens :: nat

definition accum0 :: BatchAccum where
  "accum0 = \<lparr>items = 0, max_len = 0, total_tokens = 0\<rparr>"

definition push :: "BatchAccum \<Rightarrow> Item \<Rightarrow> BatchAccum" where
  "push a i = \<lparr>items = items a + n_texts i, max_len = max (max_len a) (max_seq_len i),
               total_tokens = total_tokens a + item_total_tokens i\<rparr>"

definition fits :: "BatchAccum \<Rightarrow> Item \<Rightarrow> BatcherConfig \<Rightarrow> bool" where
  "fits a i cfg =
     (let new_items = items a + n_texts i in
      if max_batch_items cfg < new_items then False
      else
        let new_max = max (max_len a) (max_seq_len i);
            total_if_added = (if padded_model cfg then sat_mul new_max new_items
                              else total_tokens a + item_total_tokens i)
        in total_if_added < max_batch_tokens cfg)"

definition seq_capped_by :: "BatchAccum \<Rightarrow> Item \<Rightarrow> BatcherConfig \<Rightarrow> bool" where
  "seq_capped_by a i cfg \<longleftrightarrow> max_batch_seq cfg < max (max_len a) (max_seq_len i)"

definition length_ratio_overflow :: "BatchAccum \<Rightarrow> Item \<Rightarrow> BatcherConfig \<Rightarrow> bool" where
  "length_ratio_overflow a i cfg \<longleftrightarrow>
     padded_model cfg \<and> fl_lt (Fin 0) (length_ratio_threshold cfg) \<and> 0 < items a \<and> 0 < max_len a \<and>
     fl_lt (fl_mul fmt64 (fl_of_nat fmt64 (max_len a)) (length_ratio_threshold cfg))
           (fl_of_nat fmt64 (max_seq_len i))"

section \<open>The worker\<close>

text \<open>Counters and histograms the worker records, in emission order.\<close>

datatype bmetric =
    Cancelled | Carry | SeqCapped | LengthRatioCarry | SoloSeqOverflow
  | FirstItemOversize string | BatchTokens nat | PaddingWaste nat nat
  | BatchDimensions nat nat | MaxEffectiveSeq nat | BatchWait nat | InferenceDone nat
  | QueueDepth nat | QueueRejected | CarryLost

text \<open>
  What the next \<open>rx.recv()\<close> gives: an item, or the end of the coalesce window
  (\<open>tokio::time::timeout\<close> elapsed). The end of the list is the closed and drained channel.
\<close>

datatype recv = Recv Item | Elapsed

definition saturated :: "BatcherConfig \<Rightarrow> BatchAccum \<Rightarrow> bool" where
  "saturated cfg a \<longleftrightarrow>
     max_batch_items cfg \<le> items a \<or>
     (padded_model cfg \<and> max_batch_tokens cfg \<le> sat_mul (max_len a) (items a)) \<or>
     (\<not> padded_model cfg \<and> max_batch_tokens cfg \<le> total_tokens a)"

text \<open>
  The inner loop of \<open>run_worker\<close>: it returns the accumulator, the batch, the carry, the
  receives that are left and the metrics.
\<close>

fun coalesce ::
  "BatcherConfig \<Rightarrow> (Item \<Rightarrow> bool) \<Rightarrow> recv list \<Rightarrow> BatchAccum \<Rightarrow> Item list \<Rightarrow> bmetric list \<Rightarrow>
   BatchAccum \<times> Item list \<times> Item option \<times> recv list \<times> bmetric list" where
  "coalesce cfg gone evs a batch ml =
     (if saturated cfg a then (a, batch, None, evs, ml)
      else (case evs of
        [] \<Rightarrow> (a, batch, None, [], ml)
      | Elapsed # es \<Rightarrow> (a, batch, None, es, ml)
      | Recv it # es \<Rightarrow>
          if gone it then coalesce cfg gone es a batch (ml @ [Cancelled])
          else if 0 < items a \<and> seq_capped_by a it cfg
            then (a, batch, Some it, es, ml @ [Carry, SeqCapped])
          else if length_ratio_overflow a it cfg
            then (a, batch, Some it, es, ml @ [Carry, LengthRatioCarry])
          else if \<not> fits a it cfg
            then (a, batch, Some it, es, ml @ [Carry])
          else coalesce cfg gone es (push a it) (batch @ [it]) ml))"

declare coalesce.simps [simp del]

text \<open>The observability block before the first item is admitted.\<close>

definition first_item_metrics :: "BatcherConfig \<Rightarrow> Item \<Rightarrow> bmetric list" where
  "first_item_metrics cfg first =
     (if \<not> fits accum0 first cfg
      then [FirstItemOversize (if max_batch_items cfg < n_texts first
              then ''exceeds_batch_max_items'' else ''exceeds_max_batch_tokens'')]
      else []) @
     (if max_batch_seq cfg < max_seq_len first then [SoloSeqOverflow] else [])"

text \<open>The observability block of a batch that is dispatched.\<close>

definition dispatch_metrics :: "BatcherConfig \<Rightarrow> BatchAccum \<Rightarrow> Item list \<Rightarrow> bmetric list" where
  "dispatch_metrics cfg a live =
     (let raw_tokens = total_tokens a;
          padded_tokens = (if padded_model cfg then sat_mul (max_len a) (items a) else raw_tokens)
      in [BatchTokens padded_tokens, PaddingWaste padded_tokens raw_tokens,
          BatchDimensions (items a) (max_len a),
          MaxEffectiveSeq (round_up_seq_len (max_len a) (model_max_len cfg))] @
         map (\<lambda>i. BatchWait (reply i)) live)"

text \<open>
  \<open>dispatch_batch\<close>: one call of the model for the concatenated token sequences, then one
  reply per item. \<open>spawn_blocking\<close> makes a panic of the model a join error.
\<close>

type_synonym embed_fn = "token_seq list \<Rightarrow> (string + fvec list) joined"
type_synonym replies = "(nat \<times> (string + fvec list)) list"

definition fan_err :: "Item list \<Rightarrow> string \<Rightarrow> replies" where
  "fan_err its msg = map (\<lambda>i. (reply i, Inl msg)) its"

definition dispatch_batch :: "embed_fn \<Rightarrow> Item list \<Rightarrow> replies \<times> bmetric list" where
  "dispatch_batch embedf its =
     (let counts = map (\<lambda>i. length (token_ids i)) its;
          ids = concat (map token_ids its);
          total = length ids
      in case embedf ids of
           Joined (Inr vecs) \<Rightarrow>
             if length vecs \<noteq> total
             then (fan_err its (''embed_fn returned '' @ show_nat (length vecs) @ '' vectors for '' @
                                show_nat total @ '' texts''), [])
             else (zip (map reply its) (map Inr (slices counts vecs)), [InferenceDone total])
         | Joined (Inl msg) \<Rightarrow> (fan_err its msg, [])
         | JoinPanic e \<Rightarrow> (fan_err its (''embed task panicked: '' @ e), []))"

text \<open>
  One pass of the outer loop after the first item is taken: coalesce, drop the items whose
  requester has gone, dispatch the rest. \<open>carry_pending\<close> is the shared flag the shutdown
  path reads; it is set with the carry.
\<close>

record pass =
  admitted :: "Item list"
  accum :: BatchAccum
  replied :: replies
  plog :: "bmetric list"
  carry :: "Item option"
  carry_pending :: bool
  rest :: "recv list"

definition worker_pass ::
  "BatcherConfig \<Rightarrow> embed_fn \<Rightarrow> (Item \<Rightarrow> bool) \<Rightarrow> (Item \<Rightarrow> bool) \<Rightarrow> Item \<Rightarrow> recv list \<Rightarrow> pass" where
  "worker_pass cfg embedf gone1 gone2 first evs =
     (case coalesce cfg gone1 evs (push accum0 first) [first] (first_item_metrics cfg first) of
        (a, batch, c, es, ml) \<Rightarrow>
          let live = filter (\<lambda>i. \<not> gone2 i) batch;
              ml1 = ml @ replicate (length batch - length live) Cancelled
          in if live = []
             then \<lparr>admitted = batch, accum = a, replied = [], plog = ml1,
                   carry = c, carry_pending = (c \<noteq> None), rest = es\<rparr>
             else (case dispatch_batch embedf live of (rs, dlog) \<Rightarrow>
                   \<lparr>admitted = batch, accum = a, replied = rs,
                    plog = ml1 @ dispatch_metrics cfg a live @ dlog,
                    carry = c, carry_pending = (c \<noteq> None), rest = es\<rparr>))"

text \<open>
  The outer loop: the first item of a batch is the carry if there is one, else the next
  item of the channel, for which the worker waits without a timeout; it ends when the
  channel is closed and drained.
\<close>

fun next_first :: "recv list \<Rightarrow> (Item \<times> recv list) option" where
  "next_first [] = None"
| "next_first (Elapsed # es) = next_first es"
| "next_first (Recv i # es) = Some (i, es)"

definition take_first :: "Item option \<Rightarrow> recv list \<Rightarrow> (Item \<times> recv list) option" where
  "take_first c evs = (case c of Some i \<Rightarrow> Some (i, evs) | None \<Rightarrow> next_first evs)"

text \<open>Each pass takes at least one item out of the carry and the channel.\<close>

lemma coalesce_consumes:
  "coalesce cfg gone evs a batch ml = (a', batch', c, es, ml') \<Longrightarrow>
     length es + (case c of None \<Rightarrow> 0 | Some _ \<Rightarrow> 1) \<le> length evs"
proof (induction cfg gone evs a batch ml rule: coalesce.induct)
  case (1 cfg gone evs a batch ml)
  from "1.prems" show ?case
    by (subst (asm) coalesce.simps)
       (auto dest: "1.IH" simp: Let_def split: if_splits list.splits recv.splits option.splits)
qed

lemma next_first_consumes: "next_first evs = Some (i, es) \<Longrightarrow> length es < length evs"
  by (induction evs rule: next_first.induct) auto

lemma worker_pass_consumes:
  "length (rest (worker_pass cfg embedf gone1 gone2 first evs)) +
     (case carry (worker_pass cfg embedf gone1 gone2 first evs) of None \<Rightarrow> 0 | Some _ \<Rightarrow> 1) \<le> length evs"
  unfolding worker_pass_def
  by (auto simp: Let_def split: prod.splits dest!: coalesce_consumes)

function run_worker ::
  "BatcherConfig \<Rightarrow> embed_fn \<Rightarrow> (Item \<Rightarrow> bool) \<Rightarrow> (Item \<Rightarrow> bool) \<Rightarrow> Item option \<Rightarrow> recv list \<Rightarrow> pass list" where
  "run_worker cfg embedf gone1 gone2 c evs =
     (case take_first c evs of
        None \<Rightarrow> []
      | Some (first, es) \<Rightarrow>
          let p = worker_pass cfg embedf gone1 gone2 first es
          in p # run_worker cfg embedf gone1 gone2 (carry p) (rest p))"
  by pat_completeness auto
termination
proof (relation "measure (\<lambda>(cfg, embedf, g1, g2, c, evs). length evs + (case c of None \<Rightarrow> 0 | Some _ \<Rightarrow> 1))")
  fix cfg embedf g1 g2 c evs x2 first es p
  assume t: "take_first c evs = Some x2" and x: "(first, es) = x2"
    and p: "p = worker_pass cfg embedf g1 g2 first es"
  have "length (rest p) + (case carry p of None \<Rightarrow> 0 | Some _ \<Rightarrow> 1) \<le> length es"
    unfolding p by (rule worker_pass_consumes)
  moreover have "length es < length evs + (case c of None \<Rightarrow> 0 | Some _ \<Rightarrow> 1)"
    using t x by (auto simp: take_first_def dest: next_first_consumes split: option.splits)
  ultimately show "((cfg, embedf, g1, g2, carry p, rest p), (cfg, embedf, g1, g2, c, evs)) \<in>
      measure (\<lambda>(cfg, embedf, g1, g2, c, evs). length evs + (case c of None \<Rightarrow> 0 | Some _ \<Rightarrow> 1))"
    by simp
qed simp

declare run_worker.simps [simp del]

section \<open>The producer side\<close>

text \<open>
  The handle of a batcher: its name, the bounded channel (\<open>max_queue\<close> slots, of which
  \<open>chan\<close> is taken) and whether the worker still holds the receiver.
\<close>

record DynamicBatcher =
  name :: string
  max_queue :: nat
  chan :: "Item list"
  receiver_alive :: bool

definition sender_capacity :: "DynamicBatcher \<Rightarrow> nat" where
  "sender_capacity b = max_queue b - length (chan b)"

text \<open>
  The constructors. A channel of capacity 0 and an invalid ratio threshold panic
  (\<open>None\<close>). The result is the handle, the worker's configuration and whether the
  length-ratio gate is published as enabled.
\<close>

definition with_tokens_and_max_len ::
  "(string \<Rightarrow> fl option) \<Rightarrow> env \<Rightarrow> string \<Rightarrow> nat \<Rightarrow> nat \<Rightarrow> nat \<Rightarrow> bool \<Rightarrow> nat \<Rightarrow> nat \<Rightarrow> nat \<Rightarrow>
   (DynamicBatcher \<times> BatcherConfig \<times> bool) option" where
  "with_tokens_and_max_len parse_f64 e nm mbt mbi mbs padded wait_ms maxq mlen =
     (if maxq = 0 then None
      else case parse_length_ratio_threshold parse_f64 e of
        None \<Rightarrow> None
      | Some thr \<Rightarrow> Some (\<lparr>name = nm, max_queue = maxq, chan = [], receiver_alive = True\<rparr>,
          \<lparr>max_batch_tokens = mbt, max_batch_items = mbi, max_batch_seq = mbs, padded_model = padded,
           wait = wait_ms, model_max_len = mlen, length_ratio_threshold = thr\<rparr>,
          fl_lt (Fin 0) thr))"

definition with_tokens ::
  "(string \<Rightarrow> fl option) \<Rightarrow> env \<Rightarrow> string \<Rightarrow> nat \<Rightarrow> nat \<Rightarrow> nat \<Rightarrow> bool \<Rightarrow> nat \<Rightarrow> nat \<Rightarrow>
   (DynamicBatcher \<times> BatcherConfig \<times> bool) option" where
  "with_tokens parse_f64 e nm mbt mbi mbs padded wait_ms maxq =
     with_tokens_and_max_len parse_f64 e nm mbt mbi mbs padded wait_ms maxq usize_max"

definition try_send :: "DynamicBatcher \<Rightarrow> Item \<Rightarrow> DynamicBatcher option" where
  "try_send b it =
     (if receiver_alive b \<and> 0 < sender_capacity b then Some (b\<lparr>chan := chan b @ [it]\<rparr>) else None)"

text \<open>What the oneshot receiver gives: the worker's answer, or \<open>None\<close> if it was dropped.\<close>

definition await_reply :: "(string + fvec list) option \<Rightarrow> BatchError + fvec list" where
  "await_reply r = (case r of
     Some (Inr v) \<Rightarrow> Inr v | Some (Inl m) \<Rightarrow> Inl (Inference m) | None \<Rightarrow> Inl Shutdown)"

text \<open>
  \<open>embed_tokens\<close>: \<open>b\<close> is the batcher when the depth is read, \<open>b'\<close> when \<open>try_send\<close> runs
  (other producers may come in between), \<open>outcome\<close> what the reply channel of a queued
  request will give. The result is the answer, the batcher after the call and the metrics.
\<close>

definition reject_threshold :: "DynamicBatcher \<Rightarrow> nat" where
  "reject_threshold b = sat_mul (max_queue b) 8 div 10"

definition embed_tokens ::
  "DynamicBatcher \<Rightarrow> DynamicBatcher \<Rightarrow> token_seq list \<Rightarrow> nat \<Rightarrow> nat \<Rightarrow> (string + fvec list) option \<Rightarrow>
   (BatchError + fvec list) \<times> DynamicBatcher \<times> bmetric list" where
  "embed_tokens b b' ids rid now outcome =
     (if ids = [] then (Inr [], b', [])
      else
        let depth = sat_sub (max_queue b) (sender_capacity b) in
        if reject_threshold b \<le> depth then (Inl (QueueFull (name b)), b', [QueueDepth depth, QueueRejected])
        else case try_send b' \<lparr>token_ids = ids, reply = rid, enqueued_at = now\<rparr> of
          None \<Rightarrow> (Inl (QueueFull (name b)), b', [QueueDepth depth, QueueRejected])
        | Some b'' \<Rightarrow> (await_reply outcome, b'', [QueueDepth depth]))"

text \<open>
  \<open>shutdown\<close>: after the sender is dropped the worker has the timeout to drain; if it does
  not finish, a lost carry is counted when the flag is set, and the task is aborted.
\<close>

definition shutdown :: "bool \<Rightarrow> bool \<Rightarrow> bmetric list \<times> bool" where
  "shutdown timed_out pending =
     (if timed_out then (if pending then [CarryLost] else [], True) else ([], False))"

section \<open>Specification\<close>

text \<open>
  What the properties are stated with: the accumulator of a whole batch, the budget a batch
  has to respect, and the items a sequence of receives delivers.
\<close>

definition accum_of :: "Item list \<Rightarrow> BatchAccum" where
  "accum_of its = foldl push accum0 its"

definition within_budget :: "BatcherConfig \<Rightarrow> BatchAccum \<Rightarrow> bool" where
  "within_budget cfg a \<longleftrightarrow>
     items a \<le> max_batch_items cfg \<and> max_len a \<le> max_batch_seq cfg \<and>
     (if padded_model cfg then sat_mul (max_len a) (items a) else total_tokens a) < max_batch_tokens cfg"

fun arrivals :: "recv list \<Rightarrow> Item list" where
  "arrivals [] = []"
| "arrivals (Elapsed # es) = arrivals es"
| "arrivals (Recv i # es) = i # arrivals es"

definition opt_list :: "'a option \<Rightarrow> 'a list" where
  "opt_list x = (case x of None \<Rightarrow> [] | Some y \<Rightarrow> [y])"

text \<open>
  The coalesce loop as an inductive relation, with one rule per way an iteration goes: the
  induction rule of the relation is what the proofs about batches use.
\<close>

inductive coalesced ::
  "BatcherConfig \<Rightarrow> (Item \<Rightarrow> bool) \<Rightarrow> recv list \<Rightarrow> BatchAccum \<Rightarrow> Item list \<Rightarrow> bmetric list \<Rightarrow>
   BatchAccum \<Rightarrow> Item list \<Rightarrow> Item option \<Rightarrow> recv list \<Rightarrow> bmetric list \<Rightarrow> bool"
  for cfg gone where
  co_stop: "saturated cfg a \<or> evs = [] \<Longrightarrow> coalesced cfg gone evs a b ml a b None evs ml"
| co_elapsed: "coalesced cfg gone (Elapsed # es) a b ml a b None es ml"
| co_drop: "gone it \<Longrightarrow> coalesced cfg gone es a b (ml @ [Cancelled]) a' b' c es' ml' \<Longrightarrow>
     coalesced cfg gone (Recv it # es) a b ml a' b' c es' ml'"
| co_defer: "\<not> gone it \<Longrightarrow> (0 < items a \<and> seq_capped_by a it cfg) \<or> length_ratio_overflow a it cfg \<or> \<not> fits a it cfg \<Longrightarrow>
     coalesced cfg gone (Recv it # es) a b ml a b (Some it) es ml'"
| co_admit: "\<not> gone it \<Longrightarrow> \<not> (0 < items a \<and> seq_capped_by a it cfg) \<Longrightarrow> fits a it cfg \<Longrightarrow>
     coalesced cfg gone es (push a it) (b @ [it]) ml a' b' c es' ml' \<Longrightarrow>
     coalesced cfg gone (Recv it # es) a b ml a' b' c es' ml'"

section \<open>Lemmas on the accumulator\<close>

lemma fold_max_ge: "(n::nat) \<le> fold max xs n"
proof (induction xs arbitrary: n)
  case (Cons x xs)
  from Cons [of "max x n"] show ?case by simp
qed simp

lemma fold_max_mem: "x \<in> set xs \<Longrightarrow> (x::nat) \<le> fold max xs n"
proof (induction xs arbitrary: n)
  case (Cons y ys)
  then show ?case using fold_max_ge [of "max y n" ys] by auto
qed simp

lemma max_seq_len_ge: "t \<in> set (token_ids i) \<Longrightarrow> length t \<le> max_seq_len i"
  by (simp add: max_seq_len_def fold_max_mem)

lemma item_tokens_le: "item_total_tokens i \<le> n_texts i * max_seq_len i"
proof -
  have "sum_list (map length (token_ids i)) \<le> sum_list (map (\<lambda>_. max_seq_len i) (token_ids i))"
    by (rule sum_list_mono) (rule max_seq_len_ge)
  then show ?thesis
    by (simp add: item_total_tokens_def n_texts_def sum_list_triv)
qed

lemma accum_of_simps [simp]:
  "accum_of [] = accum0" "accum_of (its @ [i]) = push (accum_of its) i" "accum_of [i] = push accum0 i"
  by (simp_all add: accum_of_def)

lemma accum_of_items: "items (accum_of its) = sum_list (map n_texts its)"
  by (induction its rule: rev_induct) (auto simp: accum0_def push_def)

lemma accum_of_tokens: "total_tokens (accum_of its) = sum_list (map item_total_tokens its)"
  by (induction its rule: rev_induct) (auto simp: accum0_def push_def)

lemma accum_of_max_len: "i \<in> set its \<Longrightarrow> max_seq_len i \<le> max_len (accum_of its)"
  by (induction its rule: rev_induct) (auto simp: push_def)

lemma accum_tokens_le_padded: "total_tokens (accum_of its) \<le> max_len (accum_of its) * items (accum_of its)"
proof -
  have "sum_list (map item_total_tokens its) \<le> sum_list (map (\<lambda>i. max_len (accum_of its) * n_texts i) its)"
  proof (rule sum_list_mono)
    fix i assume "i \<in> set its"
    then show "item_total_tokens i \<le> max_len (accum_of its) * n_texts i"
      using item_tokens_le [of i] accum_of_max_len [of i its]
      by (metis mult.commute mult_le_mono2 order_trans)
  qed
  then show ?thesis
    by (simp add: accum_of_items accum_of_tokens sum_list_const_mult)
qed

section \<open>What a batch satisfies\<close>

lemma push_items_pos: "0 < items a \<Longrightarrow> 0 < items (push a i)"
  by (simp add: push_def)

lemma fits_within:
  "fits a it cfg \<Longrightarrow> \<not> seq_capped_by a it cfg \<Longrightarrow> within_budget cfg (push a it)"
  by (auto simp: fits_def seq_capped_by_def within_budget_def push_def Let_def split: if_splits)

lemma coalesce_coalesced:
  "coalesce cfg gone evs a b ml = (a', b', c, es, ml') \<Longrightarrow> coalesced cfg gone evs a b ml a' b' c es ml'"
proof (induction evs arbitrary: a b ml)
  case Nil
  then show ?case by (subst (asm) coalesce.simps) (auto intro: coalesced.co_stop split: if_splits)
next
  case (Cons ev evs)
  then show ?case
    by (subst (asm) coalesce.simps)
       (auto intro: coalesced.intros split: if_splits recv.splits)
qed

lemma coalesced_budget:
  "coalesced cfg gone evs a b ml a' b' c es ml' \<Longrightarrow> a = accum_of b \<Longrightarrow> 0 < items a \<Longrightarrow>
   length b = 1 \<or> within_budget cfg a \<Longrightarrow>
   a' = accum_of b' \<and> (length b' = 1 \<or> within_budget cfg a')"
proof (induction rule: coalesced.induct)
  case (co_admit it a es b ml a' b' c es' ml')
  then show ?case
    by (intro co_admit.IH) (auto simp: fits_within push_items_pos)
qed auto

lemma opt_list_simps [simp]: "opt_list None = []" "opt_list (Some x) = [x]"
  by (simp_all add: opt_list_def)

lemma coalesced_fifo:
  "coalesced cfg gone evs a b ml a' b' c es ml' \<Longrightarrow>
   filter (\<lambda>i. \<not> gone i) (b' @ opt_list c @ arrivals es) = filter (\<lambda>i. \<not> gone i) (b @ arrivals evs)"
  by (induction rule: coalesced.induct) auto

lemma coalesced_extends:
  "coalesced cfg gone evs a b ml a' b' c es ml' \<Longrightarrow> \<exists>x. b' = b @ x \<and> set (x @ opt_list c @ arrivals es) \<subseteq> set (arrivals evs)"
  by (induction rule: coalesced.induct) auto


section \<open>What a pass of the worker does\<close>

lemma worker_passE:
  obtains c es ml a b where
    "coalesced cfg gone1 evs (push accum0 first) [first] (first_item_metrics cfg first) a b c es ml"
    "admitted (worker_pass cfg embedf gone1 gone2 first evs) = b"
    "accum (worker_pass cfg embedf gone1 gone2 first evs) = a"
    "carry (worker_pass cfg embedf gone1 gone2 first evs) = c"
    "rest (worker_pass cfg embedf gone1 gone2 first evs) = es"
    "carry_pending (worker_pass cfg embedf gone1 gone2 first evs) \<longleftrightarrow> c \<noteq> None"
proof -
  obtain a b c es ml where co:
    "coalesce cfg gone1 evs (push accum0 first) [first] (first_item_metrics cfg first) = (a, b, c, es, ml)"
    by (metis prod_cases5)
  show thesis
    by (rule that [OF coalesce_coalesced [OF co]])
       (simp_all add: worker_pass_def co Let_def split: prod.splits)
qed

text \<open>The replies of a pass, whatever the model answers: one per item that is still there.\<close>

lemma dispatch_batch_reply_ids: "map fst (fst (dispatch_batch embedf its)) = map reply its"
  by (auto simp: dispatch_batch_def Let_def fan_err_def split: joined.splits sum.splits)

lemma dispatch_batch_pointwise:
  assumes "\<And>ids. embedf ids = Joined (Inr (map f ids))"
  shows "fst (dispatch_batch embedf its) = map (\<lambda>i. (reply i, Inr (map f (token_ids i)))) its"
proof -
  have "slices (map (\<lambda>i. length (token_ids i)) its) (map f (concat (map token_ids its))) =
        map (map f) (map token_ids its)"
    using slices_map_concat [of "map token_ids its" f] by (simp add: comp_def)
  then show ?thesis
    by (simp add: dispatch_batch_def assms Let_def zip_map1 zip_map2 zip_same_conv_map)
qed

lemma worker_pass_replied:
  "replied (worker_pass cfg embedf gone1 gone2 first evs) =
     (let live = filter (\<lambda>i. \<not> gone2 i) (admitted (worker_pass cfg embedf gone1 gone2 first evs))
      in if live = [] then [] else fst (dispatch_batch embedf live))"
  by (auto simp: worker_pass_def Let_def split: prod.splits)

section \<open>What the worker does\<close>

lemma next_first_arrivals: "next_first evs = Some (i, es) \<Longrightarrow> arrivals evs = i # arrivals es"
  by (induction evs rule: next_first.induct) auto

lemma next_first_None: "next_first evs = None \<Longrightarrow> arrivals evs = []"
  by (induction evs rule: next_first.induct) auto

lemma take_first_arrivals:
  "take_first c evs = Some (i, es) \<Longrightarrow> opt_list c @ arrivals evs = i # arrivals es"
  by (auto simp: take_first_def dest: next_first_arrivals split: option.splits)

lemma take_first_None: "take_first c evs = None \<Longrightarrow> opt_list c @ arrivals evs = []"
  by (auto simp: take_first_def dest: next_first_None split: option.splits)

text \<open>Induction over the passes of the worker.\<close>

lemma run_worker_induct [case_names finish pass]:
  assumes "\<And>c evs. take_first c evs = None \<Longrightarrow> P c evs []"
    and "\<And>c evs first es p ps. take_first c evs = Some (first, es) \<Longrightarrow>
      p = worker_pass cfg embedf gone1 gone2 first es \<Longrightarrow> P (carry p) (rest p) ps \<Longrightarrow>
      ps = run_worker cfg embedf gone1 gone2 (carry p) (rest p) \<Longrightarrow> P c evs (p # ps)"
  shows "P c evs (run_worker cfg embedf gone1 gone2 c evs)"
  using assms
proof (induction cfg embedf gone1 gone2 c evs rule: run_worker.induct)
  case (1 cfg embedf gone1 gone2 c evs)
  show ?case
  proof (cases "take_first c evs")
    case None
    with "1.prems"(1) show ?thesis by (subst run_worker.simps) simp
  next
    case (Some fe)
    obtain first es where fe: "fe = (first, es)" by (cases fe)
    define p where "p = worker_pass cfg embedf gone1 gone2 first es"
    have "P (carry p) (rest p) (run_worker cfg embedf gone1 gone2 (carry p) (rest p))"
      by (rule "1.IH" [OF Some fe [symmetric] p_def "1.prems"]) assumption+
    with Some fe p_def "1.prems"(2) show ?thesis
      by (subst run_worker.simps) (simp add: Let_def)
  qed
qed

lemma run_worker_fifo:
  "filter (\<lambda>i. \<not> gone1 i) (concat (map admitted (run_worker cfg embedf gone1 gone2 c evs))) =
   filter (\<lambda>i. \<not> gone1 i) (opt_list c @ arrivals evs)"
proof (induction rule: run_worker_induct)
  case (finish c evs)
  then show ?case by (simp add: take_first_None del: filter_append)
next
  case (pass c evs first es p ps)
  obtain a b ml where co: "coalesced cfg gone1 es (push accum0 first) [first] (first_item_metrics cfg first)
      a b (carry p) (rest p) ml" and b: "admitted p = b"
    unfolding pass(2) by (rule worker_passE) auto
  have "filter (\<lambda>i. \<not> gone1 i) (concat (map admitted (p # ps))) =
        filter (\<lambda>i. \<not> gone1 i) (b @ opt_list (carry p) @ arrivals (rest p))"
    using pass.IH b by simp
  also have "\<dots> = filter (\<lambda>i. \<not> gone1 i) (first # arrivals es)"
    using coalesced_fifo [OF co] by simp
  finally show ?case
    using take_first_arrivals [OF pass(1)] by simp
qed

lemma run_worker_items:
  "set (concat (map admitted (run_worker cfg embedf gone1 gone2 c evs))) \<subseteq> set (opt_list c @ arrivals evs)"
proof (induction rule: run_worker_induct)
  case (finish c evs)
  then show ?case by simp
next
  case (pass c evs first es p ps)
  obtain a b ml where co: "coalesced cfg gone1 es (push accum0 first) [first] (first_item_metrics cfg first)
      a b (carry p) (rest p) ml" and b: "admitted p = b"
    unfolding pass(2) by (rule worker_passE) auto
  show ?case
    using coalesced_extends [OF co] pass.IH b take_first_arrivals [OF pass(1)] by auto
qed

lemma run_worker_passes:
  "p \<in> set (run_worker cfg embedf gone1 gone2 c evs) \<Longrightarrow>
   \<exists>first es. p = worker_pass cfg embedf gone1 gone2 first es \<and> first \<in> set (opt_list c @ arrivals evs)"
proof (induction rule: run_worker_induct)
  case (finish c evs)
  then show ?case by simp
next
  case (pass c evs first es q ps)
  obtain a b ml where co: "coalesced cfg gone1 es (push accum0 first) [first] (first_item_metrics cfg first)
      a b (carry q) (rest q) ml"
    unfolding pass(2) by (rule worker_passE) auto
  show ?case
    using coalesced_extends [OF co] pass take_first_arrivals [OF pass(1)] by fastforce
qed

lemma worker_pass_reply_ids:
  assumes "p = worker_pass cfg embedf gone1 gone2 first evs"
  shows "map fst (replied p) = map reply (filter (\<lambda>i. \<not> gone2 i) (admitted p))"
proof (cases "filter (\<lambda>i. \<not> gone2 i) (admitted p) = []")
  case True
  then show ?thesis
    unfolding assms worker_pass_replied Let_def by (simp only: list.map refl if_True)
next
  case False
  then show ?thesis
    unfolding assms worker_pass_replied Let_def by (simp only: if_False dispatch_batch_reply_ids)
qed

lemma worker_pass_reply_values:
  assumes "p = worker_pass cfg embedf gone1 gone2 first evs"
    and "\<And>ids. embedf ids = Joined (Inr (map f ids))"
  shows "replied p = map (\<lambda>i. (reply i, Inr (map f (token_ids i)))) (filter (\<lambda>i. \<not> gone2 i) (admitted p))"
proof (cases "filter (\<lambda>i. \<not> gone2 i) (admitted p) = []")
  case True
  then show ?thesis
    unfolding assms(1) worker_pass_replied Let_def by (simp only: list.map refl if_True)
next
  case False
  then show ?thesis
    unfolding assms(1) worker_pass_replied Let_def
    by (simp only: if_False dispatch_batch_pointwise [OF assms(2)])
qed

lemma run_worker_reply_ids:
  "p \<in> set (run_worker cfg embedf gone1 gone2 c evs) \<Longrightarrow>
   map fst (replied p) = map reply (filter (\<lambda>i. \<not> gone2 i) (admitted p))"
  by (drule run_worker_passes) (blast intro: worker_pass_reply_ids)

lemma run_worker_reply_values:
  "p \<in> set (run_worker cfg embedf gone1 gone2 c evs) \<Longrightarrow>
   (\<And>ids. embedf ids = Joined (Inr (map f ids))) \<Longrightarrow>
   replied p = map (\<lambda>i. (reply i, Inr (map f (token_ids i)))) (filter (\<lambda>i. \<not> gone2 i) (admitted p))"
  by (drule run_worker_passes) (blast intro: worker_pass_reply_values)

lemma run_worker_replies:
  assumes "\<And>ids. embedf ids = Joined (Inr (map f ids))"
  shows "concat (map replied (run_worker cfg embedf gone1 gone2 c evs)) =
     map (\<lambda>i. (reply i, Inr (map f (token_ids i))))
       (filter (\<lambda>i. \<not> gone2 i) (concat (map admitted (run_worker cfg embedf gone1 gone2 c evs))))"
proof -
  have "replied p = map (\<lambda>i. (reply i, Inr (map f (token_ids i)))) (filter (\<lambda>i. \<not> gone2 i) (admitted p))"
    if "p \<in> set (run_worker cfg embedf gone1 gone2 c evs)" for p :: pass
    by (rule run_worker_reply_values [OF that assms])
  then show ?thesis
    by (simp only: map_concat filter_concat map_map) (rule concat_map_eqI, simp)
qed

section \<open>One call of a batcher\<close>

text \<open>
  A requester's call and the run of the worker that serves it: the batcher when the depth is
  read and when the request is sent, the channel of its reply, the clock, and the worker's
  settings, cancelled requests and arrivals. The reply is what the run puts on the channel.
\<close>

record batch_run =
  br_before :: DynamicBatcher
  br_at_send :: DynamicBatcher
  br_reply :: nat
  br_now :: nat
  br_cfg :: BatcherConfig
  br_gone1 :: "Item \<Rightarrow> bool"
  br_gone2 :: "Item \<Rightarrow> bool"
  br_evs :: "recv list"

definition batch_call :: "embed_fn \<Rightarrow> batch_run \<Rightarrow> token_seq list \<Rightarrow> BatchError + fvec list" where
  "batch_call embedf run ids =
     fst (embed_tokens (br_before run) (br_at_send run) ids (br_reply run) (br_now run)
       (map_of (concat (map replied (run_worker (br_cfg run) embedf (br_gone1 run) (br_gone2 run) None (br_evs run))))
         (br_reply run)))"

text \<open>
  The request gets into the queue, reaches the worker, is not cancelled, and no other request
  has its channel.
\<close>

definition queued :: "batch_run \<Rightarrow> token_seq list \<Rightarrow> bool" where
  "queued run ids \<longleftrightarrow>
     sat_sub (max_queue (br_before run)) (sender_capacity (br_before run)) < reject_threshold (br_before run) \<and>
     receiver_alive (br_at_send run) \<and> 0 < sender_capacity (br_at_send run) \<and>
     distinct (map reply (arrivals (br_evs run))) \<and>
     (let item = \<lparr>token_ids = ids, reply = br_reply run, enqueued_at = br_now run\<rparr>
      in item \<in> set (arrivals (br_evs run)) \<and> \<not> br_gone1 run item \<and> \<not> br_gone2 run item)"

text \<open>
  Whatever else is queued, batched with it or cancelled, such a request gets the vectors of its
  own sequences, if the model works sequence by sequence.
\<close>

lemma batch_call_value:
  assumes f: "\<And>ids. embedf ids = Joined (Inr (map f ids))" and q: "queued run ids"
  shows "batch_call embedf run ids = Inr (map f ids)"
proof -
  let ?item = "\<lparr>token_ids = ids, reply = br_reply run, enqueued_at = br_now run\<rparr>"
  let ?ps = "run_worker (br_cfg run) embedf (br_gone1 run) (br_gone2 run) None (br_evs run)"
  let ?its = "filter (\<lambda>i. \<not> br_gone2 run i) (concat (map admitted ?ps))"
  have arr: "?item \<in> set (arrivals (br_evs run))" "\<not> br_gone1 run ?item" "\<not> br_gone2 run ?item"
    and inj: "inj_on reply (set (arrivals (br_evs run)))"
    using q by (simp_all add: queued_def Let_def distinct_map)
  have "?item \<in> set (filter (\<lambda>i. \<not> br_gone1 run i) (opt_list None @ arrivals (br_evs run)))" using arr by simp
  then have "?item \<in> set (filter (\<lambda>i. \<not> br_gone1 run i) (concat (map admitted ?ps)))" unfolding run_worker_fifo .
  then have mem: "?item \<in> set ?its" using arr(3) by simp
  have only: "i = ?item" if "i \<in> set ?its" "reply i = br_reply run" for i
    using inj_onD [OF inj, of i ?item] that arr(1) run_worker_items [of "br_cfg run" embedf "br_gone1 run" "br_gone2 run" None "br_evs run"]
    by (auto simp: subset_iff)
  have "map_of (map (\<lambda>i. (reply i, Inr (map f (token_ids i)))) xs) (br_reply run) = Some (Inr (map f ids) :: string + fvec list)"
    if "set xs \<subseteq> set ?its" "?item \<in> set xs" for xs
    using that
  proof (induction xs)
    case (Cons x xs)
    then show ?case using only [of x] by (cases "reply x = br_reply run") auto
  qed simp
  from this [OF subset_refl mem] have "map_of (concat (map replied ?ps)) (br_reply run) = Some (Inr (map f ids))"
    unfolding run_worker_replies [OF f] .
  then show ?thesis
    using q by (simp add: batch_call_def embed_tokens_def queued_def Let_def try_send_def await_reply_def)
qed

section \<open>Properties\<close>

text \<open>
  C20. Every batch the worker dispatches is a single request or stays within the item cap, the
  sequence cap and the token budget (padded or raw, as the model requires), and the counters
  the worker keeps describe exactly the requests it admitted. Requests carry at least one
  text, which \<open>embed_tokens\<close> guarantees.
\<close>

theorem batch_respects_budget:
  assumes "\<And>i. i \<in> set (opt_list c @ arrivals evs) \<Longrightarrow> 0 < n_texts i"
    and "p \<in> set (run_worker cfg embedf gone1 gone2 c evs)"
  shows "accum p = accum_of (admitted p) \<and> (length (admitted p) = 1 \<or> within_budget cfg (accum p))"
proof -
  obtain first es where p: "p = worker_pass cfg embedf gone1 gone2 first es" and "0 < n_texts first"
    using run_worker_passes [OF assms(2)] assms(1) by blast
  obtain a b cc ees ml where co:
    "coalesced cfg gone1 es (push accum0 first) [first] (first_item_metrics cfg first) a b cc ees ml"
    and ab: "admitted p = b" "accum p = a"
    unfolding p by (rule worker_passE) auto
  have "0 < items (push accum0 first)"
    using \<open>0 < n_texts first\<close> by (simp add: push_def)
  then show ?thesis
    unfolding ab by (intro coalesced_budget [OF co]) simp_all
qed

text \<open>
  C21. No request is lost, duplicated or reordered: the requests whose requester is still there
  are admitted, over all batches, in exactly the order in which they arrived, a deferred
  request included, and each admitted request that is still live when its batch is
  dispatched gets exactly one reply, whatever the model answers.
\<close>

theorem no_request_lost:
  "filter (\<lambda>i. \<not> gone1 i) (concat (map admitted (run_worker cfg embedf gone1 gone2 None evs))) =
     filter (\<lambda>i. \<not> gone1 i) (arrivals evs) \<and>
   map fst (concat (map replied (run_worker cfg embedf gone1 gone2 None evs))) =
     map reply (filter (\<lambda>i. \<not> gone2 i) (concat (map admitted (run_worker cfg embedf gone1 gone2 None evs))))"
proof -
  let ?ps = "run_worker cfg embedf gone1 gone2 None evs"
  have "map fst (replied p) = map reply (filter (\<lambda>i. \<not> gone2 i) (admitted p))" if "p \<in> set ?ps" for p
    by (rule run_worker_reply_ids [OF that])
  then have "map fst (concat (map replied ?ps)) =
      map reply (filter (\<lambda>i. \<not> gone2 i) (concat (map admitted ?ps)))"
    by (simp only: map_concat filter_concat map_map) (rule concat_map_eqI, simp)
  then show ?thesis
    using run_worker_fifo [of gone1 cfg embedf gone2 None evs] by simp
qed

text \<open>
  C22. Batching is invisible: if the model embeds each sequence independently of the others,
  every requester receives exactly the vectors of its own sequences, in their order,
  however the requests were grouped into batches.
\<close>

theorem batching_transparent:
  assumes "\<And>ids. embedf ids = Joined (Inr (map f ids))"
  shows "concat (map replied (run_worker cfg embedf gone1 gone2 None evs)) =
     map (\<lambda>i. (reply i, Inr (map f (token_ids i))))
       (filter (\<lambda>i. \<not> gone2 i) (concat (map admitted (run_worker cfg embedf gone1 gone2 None evs))))"
  by (rule run_worker_replies [OF assms])

section \<open>Witnesses and further properties\<close>

definition wit_item :: "nat \<Rightarrow> nat list \<Rightarrow> Item" where
  "wit_item r ls = \<lparr>token_ids = map (\<lambda>l. replicate l 7) ls, reply = r, enqueued_at = 0\<rparr>"

definition wit_cfg :: BatcherConfig where
  "wit_cfg = \<lparr>max_batch_tokens = 20, max_batch_items = 4, max_batch_seq = 8, padded_model = True,
     wait = 5, model_max_len = 16, length_ratio_threshold = Fin 0\<rparr>"

definition wit_evs :: "recv list" where
  "wit_evs = [Recv (wit_item 0 [3]), Recv (wit_item 1 [4, 2]), Recv (wit_item 2 [9]), Elapsed]"

definition wit_embed :: embed_fn where
  "wit_embed ids = Joined (Inr (map (\<lambda>t. [F32 (of_nat (length t))]) ids))"

lemmas wit_defs = wit_item_def wit_cfg_def wit_evs_def wit_embed_def

lemmas wit_eval = wit_defs run_worker.simps take_first_def worker_pass_def coalesce.simps push_def
  accum0_def n_texts_def max_seq_len_def item_total_tokens_def saturated_def seq_capped_by_def
  length_ratio_overflow_def fits_def sat_mul_def usize_max_def

lemma wit_run:
  "map (map reply \<circ> admitted) (run_worker wit_cfg wit_embed (\<lambda>_. False) (\<lambda>_. False) None wit_evs) =
     [[0, 1], [2]]"
  by (simp add: wit_eval Let_def dispatch_batch_def)

lemma wit_run_hd:
  "hd (run_worker wit_cfg wit_embed (\<lambda>_. False) (\<lambda>_. False) None wit_evs)
     \<in> set (run_worker wit_cfg wit_embed (\<lambda>_. False) (\<lambda>_. False) None wit_evs) \<and>
   map reply (admitted (hd (run_worker wit_cfg wit_embed (\<lambda>_. False) (\<lambda>_. False) None wit_evs))) = [0, 1]"
  using wit_run by (cases "run_worker wit_cfg wit_embed (\<lambda>_. False) (\<lambda>_. False) None wit_evs") auto

theorem batch_respects_budget_witness:
  "within_budget wit_cfg (accum (hd (run_worker wit_cfg wit_embed (\<lambda>_. False) (\<lambda>_. False) None wit_evs)))"
proof -
  have pos: "0 < n_texts i" if "i \<in> set (opt_list None @ arrivals wit_evs)" for i
    using that by (auto simp: wit_defs n_texts_def)
  have "length (admitted (hd (run_worker wit_cfg wit_embed (\<lambda>_. False) (\<lambda>_. False) None wit_evs))) = 2"
    by (metis wit_run_hd length_map length_Cons list.size(3) numeral_2_eq_2)
  then show ?thesis
    using batch_respects_budget [of None wit_evs, OF pos wit_run_hd [THEN conjunct1]] by auto
qed

theorem batching_transparent_witness:
  "concat (map replied (run_worker wit_cfg wit_embed (\<lambda>_. False) (\<lambda>_. False) None wit_evs)) =
     [(0, Inr [[F32 3]]), (1, Inr [[F32 4], [F32 2]]), (2, Inr [[F32 9]])]"
proof -
  have *: "wit_embed ids = Joined (Inr (map (\<lambda>t. [F32 (of_nat (length t))]) ids))" for ids
    by (simp add: wit_embed_def)
  have "concat (map admitted (run_worker wit_cfg wit_embed (\<lambda>_. False) (\<lambda>_. False) None wit_evs)) =
        [wit_item 0 [3], wit_item 1 [4, 2], wit_item 2 [9]]"
    by (simp add: wit_eval Let_def dispatch_batch_def)
  then show ?thesis
    by (simp add: batching_transparent [OF *]) (simp add: wit_item_def)
qed

section \<open>Admission\<close>

lemma await_reply_not_full: "await_reply r \<noteq> Inl (QueueFull n)"
  by (auto simp: await_reply_def split: option.splits sum.splits)

text \<open>
  Admission control. A request is refused as queue-full exactly when it carries a text and
  the queue is at 80% of its capacity (integer arithmetic) when the depth is read, or the
  channel is full or closed when the send happens; a refused request leaves the queue as it
  is, an accepted one is appended at its end, and the queue never exceeds its capacity.
\<close>

lemma embed_tokens_admission:
  assumes "length (chan b) \<le> max_queue b" and "max_queue b * 8 \<le> usize_max"
    and "length (chan b') \<le> max_queue b'"
    and r: "embed_tokens b b' ids rid now outcome = (ans, b'', ml)"
  shows "(ans = Inl (QueueFull (name b)) \<longleftrightarrow>
           ids \<noteq> [] \<and> (max_queue b * 8 div 10 \<le> length (chan b) \<or> \<not> receiver_alive b' \<or>
                        length (chan b') = max_queue b')) \<and>
         chan b'' = (if ids = [] \<or> ans = Inl (QueueFull (name b)) then chan b'
                     else chan b' @ [\<lparr>token_ids = ids, reply = rid, enqueued_at = now\<rparr>]) \<and>
         max_queue b'' = max_queue b' \<and> length (chan b'') \<le> max_queue b''"
proof -
  have "reject_threshold b = max_queue b * 8 div 10"
    using assms(2) by (simp add: reject_threshold_def sat_mul_def)
  moreover have "sat_sub (max_queue b) (sender_capacity b) = length (chan b)"
    using assms(1) by (simp add: sat_sub_def sender_capacity_def)
  ultimately show ?thesis
    using r assms(3)
    by (auto simp: embed_tokens_def Let_def try_send_def sender_capacity_def await_reply_not_full
             split: if_splits option.splits)
qed

text \<open>
  With a queue of one slot the 80% threshold is 0, so every request that carries a text is
  refused even though the queue is empty: the smallest capacity the constructor accepts
  yields a batcher that serves nothing.
\<close>

lemma single_slot_queue_rejects_all:
  assumes "with_tokens parse_f64 e nm mbt mbi mbs padded wait_ms 1 = Some (b, cfg, g)" and "ids \<noteq> []"
  shows "fst (embed_tokens b b' ids rid now outcome) = Inl (QueueFull nm)"
  using assms
  by (auto simp: with_tokens_def with_tokens_and_max_len_def embed_tokens_def Let_def reject_threshold_def
        sat_mul_def usize_max_def split: option.splits if_splits)

end
