(* ===== verification/Session_Pool.thy ===== *)
theory Session_Pool
  imports Rust_Std
begin

text \<open>
  The evictable session pool of \<open>src/src/evictable_pool.rs\<close>. A slot is a mutex around an
  optional session, a busy flag and a time stamp. Every critical section of the code is one
  function on a slot; \<open>acquire\<close>, \<open>evict_idle\<close> and the guard's drop are compositions of
  them, and the concurrent pool is a step relation whose steps are the same sections, each
  atomic because it runs under the slot's mutex, interleaved over any number of threads and
  the eviction task.
\<close>

section \<open>Data\<close>

datatype AcquireError = AllBusy | ReinitFailed string

record 'a EvictableSlot =
  item :: "'a option"
  busy :: bool
  last_used :: nat
  poisoned :: bool

record 'a EvictablePool =
  slots :: "'a EvictableSlot list"
  idle_secs :: nat

datatype pool_metric = MutexPoisoned | ColdStart | ReinitFailure | Eviction

type_synonym 'a EvictableGuard = "nat \<times> 'a option"

definition fresh_slot :: "nat \<Rightarrow> 'a \<Rightarrow> 'a EvictableSlot" where
  "fresh_slot now x = \<lparr>item = Some x, busy = False, last_used = now, poisoned = False\<rparr>"

definition from_items :: "nat \<Rightarrow> 'a list \<Rightarrow> nat \<Rightarrow> 'a EvictablePool" where
  "from_items now xs idle = \<lparr>slots = map (fresh_slot now) xs, idle_secs = idle\<rparr>"

section \<open>Critical sections\<close>

text \<open>A poisoned mutex is recovered by \<open>into_inner\<close>, with a metric.\<close>

definition lock_log :: "'a EvictableSlot \<Rightarrow> pool_metric list" where
  "lock_log s = (if poisoned s then [MutexPoisoned] else [])"

datatype check = CheckBusy | NeedsReinit | HasItem

text \<open>First section of \<open>acquire\<close>: an empty slot is claimed under the lock.\<close>

definition check_section :: "'a EvictableSlot \<Rightarrow> 'a EvictableSlot \<times> check" where
  "check_section s =
     (if busy s then (s, CheckBusy)
      else if item s = None then (s\<lparr>busy := True\<rparr>, NeedsReinit)
      else (s, HasItem))"

text \<open>After a failed factory call: the claim is given back, outside the lock.\<close>

definition reinit_fail :: "'a EvictableSlot \<Rightarrow> 'a EvictableSlot" where
  "reinit_fail s = s\<lparr>busy := False\<rparr>"

text \<open>
  After a successful factory call: the session is stored and taken out again in one
  section, so the slot's \<open>expect\<close> cannot fail.
\<close>

definition store_section :: "nat \<Rightarrow> 'a \<Rightarrow> 'a EvictableSlot \<Rightarrow> 'a EvictableSlot \<times> 'a option" where
  "store_section now x s = (s\<lparr>item := None, last_used := now\<rparr>, Some x)"

datatype 'a claim = ClaimBusy | Took 'a | ClaimPanic

text \<open>
  Second section of \<open>acquire\<close> for a slot that had a session in the first one. The flag and
  the time stamp are written before \<open>take().expect(..)\<close>: if the session is gone by then
  the thread panics with the flag set and the mutex poisoned.
\<close>

definition claim_section :: "nat \<Rightarrow> 'a EvictableSlot \<Rightarrow> 'a EvictableSlot \<times> 'a claim" where
  "claim_section now s =
     (if busy s then (s, ClaimBusy)
      else (case item s of
          Some x \<Rightarrow> (s\<lparr>item := None, busy := True, last_used := now\<rparr>, Took x)
        | None \<Rightarrow> (s\<lparr>busy := True, last_used := now, poisoned := True\<rparr>, ClaimPanic)))"

text \<open>The guard's drop: a guard whose session was already taken does nothing.\<close>

definition drop_section :: "nat \<Rightarrow> 'a option \<Rightarrow> 'a EvictableSlot \<Rightarrow> 'a EvictableSlot" where
  "drop_section now it s =
     (case it of None \<Rightarrow> s | Some x \<Rightarrow> s\<lparr>item := Some x, last_used := now, busy := False\<rparr>)"

text \<open>The eviction task skips poisoned mutexes, empty slots and slots in use.\<close>

definition evict_section :: "'a EvictableSlot \<Rightarrow> 'a EvictableSlot \<times> bool" where
  "evict_section s =
     (if \<not> poisoned s \<and> item s \<noteq> None \<and> \<not> busy s then (s\<lparr>item := None\<rparr>, True) else (s, False))"

definition old_enough :: "nat \<Rightarrow> nat \<Rightarrow> 'a EvictableSlot \<Rightarrow> bool" where
  "old_enough now threshold s \<longleftrightarrow> \<not> busy s \<and> threshold \<le> sat_sub now (last_used s)"

section \<open>The operations, run alone\<close>

text \<open>
  The loop of \<open>acquire\<close> over the slots from index \<open>i\<close> on. \<open>None\<close> as a result is the panic
  of the \<open>expect\<close>.
\<close>

fun acquire_from ::
  "(string + 'a) \<Rightarrow> nat \<Rightarrow> nat \<Rightarrow> 'a EvictableSlot list \<Rightarrow>
   'a EvictableSlot list \<times> (AcquireError + 'a EvictableGuard) option \<times> pool_metric list" where
  "acquire_from factory now i [] = ([], Some (Inl AllBusy), [])"
| "acquire_from factory now i (s # ss) =
     (let skip = (\<lambda>lg. case acquire_from factory now (Suc i) ss of (ss', r, ml) \<Rightarrow> (s # ss', r, lg @ ml)) in
      if busy s then skip []
      else case check_section s of
          (_, CheckBusy) \<Rightarrow> skip (lock_log s)
        | (s1, NeedsReinit) \<Rightarrow>
            (case factory of
               Inl e \<Rightarrow> (reinit_fail s1 # ss, Some (Inl (ReinitFailed e)), lock_log s @ [ColdStart, ReinitFailure])
             | Inr x \<Rightarrow> (case store_section now x s1 of
                 (s2, it) \<Rightarrow> (s2 # ss, Some (Inr (i, it)), lock_log s @ [ColdStart] @ lock_log s1)))
        | (s1, HasItem) \<Rightarrow>
            (case claim_section now s1 of
               (_, ClaimBusy) \<Rightarrow> skip (lock_log s @ lock_log s1)
             | (s2, Took x) \<Rightarrow> (s2 # ss, Some (Inr (i, Some x)), lock_log s @ lock_log s1)
             | (s2, ClaimPanic) \<Rightarrow> (s2 # ss, None, lock_log s @ lock_log s1)))"

definition acquire ::
  "(string + 'a) \<Rightarrow> nat \<Rightarrow> 'a EvictablePool \<Rightarrow>
   'a EvictablePool \<times> (AcquireError + 'a EvictableGuard) option \<times> pool_metric list" where
  "acquire factory now p =
     (case acquire_from factory now 0 (slots p) of (ss, r, ml) \<Rightarrow> (p\<lparr>slots := ss\<rparr>, r, ml))"

definition drop_guard :: "nat \<Rightarrow> 'a EvictableGuard \<Rightarrow> 'a EvictablePool \<Rightarrow> 'a EvictablePool" where
  "drop_guard now g p =
     (case g of (i, it) \<Rightarrow> p\<lparr>slots := (slots p)[i := drop_section now it (slots p ! i)]\<rparr>)"

definition evict_slot :: "nat \<Rightarrow> nat \<Rightarrow> 'a EvictableSlot \<Rightarrow> 'a EvictableSlot \<times> bool" where
  "evict_slot now threshold s = (if old_enough now threshold s then evict_section s else (s, False))"

definition evict_idle :: "nat \<Rightarrow> nat \<Rightarrow> 'a EvictablePool \<Rightarrow> 'a EvictablePool \<times> nat" where
  "evict_idle now threshold p =
     (if idle_secs p = 0 then (p, 0)
      else (p\<lparr>slots := map (fst \<circ> evict_slot now threshold) (slots p)\<rparr>,
            length (filter (snd \<circ> evict_slot now threshold) (slots p))))"

text \<open>The eviction task: the clock readings of its ticks after the skipped first one.\<close>

definition eviction_loop :: "nat list \<Rightarrow> 'a EvictablePool \<Rightarrow> 'a EvictablePool" where
  "eviction_loop ticks p = fold (\<lambda>now q. fst (evict_idle now (idle_secs q) q)) ticks p"

section \<open>The concurrent pool\<close>

text \<open>
  Where a thread is in \<open>acquire\<close>: before the first busy test of slot \<open>i\<close>, before the first
  section, in the factory call, before the store, before the claim; or what it has: a guard,
  a refusal, a panic. The eviction task is between two slots or has found slot \<open>i\<close> old
  enough and is about to lock it.
\<close>

datatype 'a thread =
    Idle
  | Scan nat
  | Check nat
  | Reinit nat
  | Store nat 'a
  | Claim nat
  | Holding nat 'a
  | Refused AcquireError
  | Panicked nat

datatype evictor = EvIdle | EvLock nat

record 'a cpool =
  pool :: "'a EvictableSlot list"
  threads :: "'a thread list"
  evictor :: evictor

text \<open>One step of a thread: the slots and its program point before and after.\<close>

inductive thread_step :: "'a EvictableSlot list \<Rightarrow> 'a thread \<Rightarrow> 'a EvictableSlot list \<Rightarrow> 'a thread \<Rightarrow> bool" where
  ts_call: "thread_step p Idle p (Scan 0)"
| ts_retry: "thread_step p (Refused e) p Idle"
| ts_all_busy: "length p \<le> i \<Longrightarrow> thread_step p (Scan i) p (Refused AllBusy)"
| ts_skip: "i < length p \<Longrightarrow> busy (p ! i) \<Longrightarrow> thread_step p (Scan i) p (Scan (Suc i))"
| ts_look: "i < length p \<Longrightarrow> \<not> busy (p ! i) \<Longrightarrow> thread_step p (Scan i) p (Check i)"
| ts_check_busy: "check_section (p ! i) = (sl, CheckBusy) \<Longrightarrow> thread_step p (Check i) p (Scan (Suc i))"
| ts_check_none: "check_section (p ! i) = (sl, NeedsReinit) \<Longrightarrow> thread_step p (Check i) (p[i := sl]) (Reinit i)"
| ts_check_some: "check_section (p ! i) = (sl, HasItem) \<Longrightarrow> thread_step p (Check i) p (Claim i)"
| ts_reinit_ok: "thread_step p (Reinit i) p (Store i x)"
| ts_reinit_err: "thread_step p (Reinit i) (p[i := reinit_fail (p ! i)]) (Refused (ReinitFailed e))"
| ts_store: "store_section now x (p ! i) = (sl, Some y) \<Longrightarrow> thread_step p (Store i x) (p[i := sl]) (Holding i y)"
| ts_claim_busy: "claim_section now (p ! i) = (sl, ClaimBusy) \<Longrightarrow> thread_step p (Claim i) p (Scan (Suc i))"
| ts_claim_take: "claim_section now (p ! i) = (sl, Took x) \<Longrightarrow> thread_step p (Claim i) (p[i := sl]) (Holding i x)"
| ts_claim_panic: "claim_section now (p ! i) = (sl, ClaimPanic) \<Longrightarrow> thread_step p (Claim i) (p[i := sl]) (Panicked i)"
| ts_drop: "thread_step p (Holding i x) (p[i := drop_section now (Some x) (p ! i)]) Idle"

inductive pool_step :: "nat \<Rightarrow> 'a cpool \<Rightarrow> 'a cpool \<Rightarrow> bool" for idle where
  ps_thread: "t < length (threads s) \<Longrightarrow> thread_step (pool s) (threads s ! t) p pc \<Longrightarrow>
     pool_step idle s (s\<lparr>pool := p, threads := (threads s)[t := pc]\<rparr>)"
| ps_ev_pick: "0 < idle \<Longrightarrow> evictor s = EvIdle \<Longrightarrow> i < length (pool s) \<Longrightarrow> old_enough now idle (pool s ! i) \<Longrightarrow>
     pool_step idle s (s\<lparr>evictor := EvLock i\<rparr>)"
| ps_ev_lock: "evictor s = EvLock i \<Longrightarrow> evict_section (pool s ! i) = (sl, b) \<Longrightarrow>
     pool_step idle s (s\<lparr>pool := (pool s)[i := sl], evictor := EvIdle\<rparr>)"

definition pool_init :: "nat \<Rightarrow> nat \<Rightarrow> 'a list \<Rightarrow> nat \<Rightarrow> 'a cpool \<Rightarrow> bool" where
  "pool_init idle now xs n s \<longleftrightarrow>
     s = \<lparr>pool = slots (from_items now xs idle), threads = replicate n Idle, evictor = EvIdle\<rparr>"

inductive_cases thread_stepE: "thread_step p pc p' pc'"
inductive_simps thread_step_simps [simp]:
  "thread_step p Idle p' pc'" "thread_step p (Refused e) p' pc'" "thread_step p (Scan i) p' pc'"
  "thread_step p (Check i) p' pc'" "thread_step p (Reinit i) p' pc'" "thread_step p (Store i x) p' pc'"
  "thread_step p (Claim i) p' pc'" "thread_step p (Holding i x) p' pc'" "thread_step p (Panicked i) p' pc'"

section \<open>Ownership\<close>

text \<open>
  The slot a thread has claimed, the index bounds of its program point, and the invariant:
  a slot is marked busy exactly when one thread owns it, and a busy slot is empty, so the
  fourth combination of the slot's state machine never arises.
\<close>

fun owns :: "'a thread \<Rightarrow> nat option" where
  "owns (Reinit i) = Some i"
| "owns (Store i x) = Some i"
| "owns (Holding i x) = Some i"
| "owns (Panicked i) = Some i"
| "owns _ = None"

fun pc_ok :: "nat \<Rightarrow> 'a thread \<Rightarrow> bool" where
  "pc_ok n (Check i) = (i < n)"
| "pc_ok n (Claim i) = (i < n)"
| "pc_ok n (Reinit i) = (i < n)"
| "pc_ok n (Store i x) = (i < n)"
| "pc_ok n (Holding i x) = (i < n)"
| "pc_ok n (Panicked i) = (i < n)"
| "pc_ok n _ = True"

definition owners :: "nat \<Rightarrow> 'a thread list \<Rightarrow> nat" where
  "owners i ts = length (filter (\<lambda>pc. owns pc = Some i) ts)"

definition pool_inv :: "'a cpool \<Rightarrow> bool" where
  "pool_inv s \<longleftrightarrow>
     (\<forall>pc \<in> set (threads s). pc_ok (length (pool s)) pc) \<and>
     (\<forall>i < length (pool s). owners i (threads s) = of_bool (busy (pool s ! i)) \<and>
        (busy (pool s ! i) \<longrightarrow> item (pool s ! i) = None))"

lemmas section_defs = check_section_def reinit_fail_def store_section_def claim_section_def
  drop_section_def evict_section_def

lemma owners_update:
  "t < length ts \<Longrightarrow>
   owners i (ts[t := pc]) + of_bool (owns (ts ! t) = Some i) = owners i ts + of_bool (owns pc = Some i)"
  unfolding owners_def by (rule length_filter_update)

lemma thread_step_balance:
  assumes "thread_step p pc p' pc'" and "pc_ok (length p) pc"
    and "\<forall>i. owns pc = Some i \<longrightarrow> busy (p ! i)"
    and "\<forall>i < length p. busy (p ! i) \<longrightarrow> item (p ! i) = None"
  shows "length p' = length p" and "pc_ok (length p) pc'"
    and "i < length p \<Longrightarrow> of_bool (busy (p' ! i)) + of_bool (owns pc = Some i) =
           (of_bool (busy (p ! i)) + of_bool (owns pc' = Some i) :: nat)"
    and "i < length p \<Longrightarrow> busy (p' ! i) \<Longrightarrow> item (p' ! i) = None"
  using assms
  by (cases pc; auto simp: section_defs nth_list_update split: if_splits option.splits)+

lemma owners_pos: "t < length ts \<Longrightarrow> owns (ts ! t) = Some i \<Longrightarrow> 0 < owners i ts"
  unfolding owners_def by (auto simp: filter_empty_conv)

lemma owners_ex: "0 < owners i ts \<Longrightarrow> \<exists>t < length ts. owns (ts ! t) = Some i"
  unfolding owners_def by (auto simp: filter_empty_conv in_set_conv_nth)

lemma owners_le_one_unique:
  assumes "owners i ts \<le> 1" and "t < length ts" and "t' < length ts"
    and "owns (ts ! t) = Some i" and "owns (ts ! t') = Some i"
  shows "t = t'"
proof (rule ccontr)
  assume "t \<noteq> t'"
  then have "owners i (ts[t := Idle]) + 1 = owners i ts" and "0 < owners i (ts[t := Idle])"
    using owners_update [of t ts i Idle] owners_pos [of t' "ts[t := Idle]" i] assms by auto
  with assms(1) show False by simp
qed

lemma pool_inv_owner_busy:
  assumes "pool_inv s" and "t < length (threads s)" and "owns (threads s ! t) = Some i"
  shows "i < length (pool s) \<and> busy (pool s ! i)"
proof -
  have "pc_ok (length (pool s)) (threads s ! t)"
    using assms(1,2) by (simp add: pool_inv_def)
  then have "i < length (pool s)"
    using assms(3) by (cases "threads s ! t") auto
  moreover have "0 < owners i (threads s)"
    using assms(2,3) by (rule owners_pos)
  ultimately show ?thesis
    using assms(1) by (auto simp: pool_inv_def of_bool_def split: if_splits)
qed

lemma pool_inv_thread:
  assumes "pool_inv s" and t: "t < length (threads s)" and st: "thread_step (pool s) (threads s ! t) p pc"
  shows "pool_inv (s\<lparr>pool := p, threads := (threads s)[t := pc]\<rparr>)"
proof -
  have ok: "pc_ok (length (pool s)) (threads s ! t)"
    and emp: "\<forall>i < length (pool s). busy (pool s ! i) \<longrightarrow> item (pool s ! i) = None"
    and own: "\<And>i. i < length (pool s) \<Longrightarrow> owners i (threads s) = of_bool (busy (pool s ! i))"
    using assms(1) t by (auto simp: pool_inv_def)
  have "\<forall>i. owns (threads s ! t) = Some i \<longrightarrow> busy (pool s ! i)"
    using pool_inv_owner_busy [OF assms(1) t] by blast
  note bal = thread_step_balance [OF st ok this emp]
  have "owners i ((threads s)[t := pc]) = of_bool (busy (p ! i))" if "i < length (pool s)" for i
    using owners_update [OF t, of i pc] bal(3) [OF that] own [OF that] by simp
  moreover have "\<forall>pc' \<in> set ((threads s)[t := pc]). pc_ok (length (pool s)) pc'"
    using assms(1) bal(2) set_update_subset_insert [of "threads s" t pc] by (auto simp: pool_inv_def)
  ultimately show ?thesis
    using bal(1,4) by (auto simp: pool_inv_def)
qed

lemma pool_inv_evict:
  assumes "pool_inv s" and "evict_section (pool s ! i) = (sl, b)"
  shows "pool_inv (s\<lparr>pool := (pool s)[i := sl], evictor := e\<rparr>)"
  using assms
  by (cases "i < length (pool s)") (auto simp: pool_inv_def evict_section_def nth_list_update split: if_splits)

lemma pool_inv_init: "pool_init idle now xs n s \<Longrightarrow> pool_inv s"
  by (auto simp: pool_init_def pool_inv_def from_items_def fresh_slot_def owners_def)

interpretation pool_ownership: invariant_system "pool_init idle now xs n" "pool_step idle" pool_inv
proof
  fix s :: "'a cpool"
  assume "pool_init idle now xs n s"
  then show "pool_inv s" by (rule pool_inv_init)
next
  fix s s' :: "'a cpool"
  assume "pool_step idle s s'" and "pool_inv s"
  then show "pool_inv s'"
  proof (cases rule: pool_step.cases)
    case ps_ev_pick
    with \<open>pool_inv s\<close> show ?thesis by (simp add: pool_inv_def)
  qed (use \<open>pool_inv s\<close> in \<open>auto intro: pool_inv_thread pool_inv_evict\<close>)
qed

section \<open>A pool without eviction\<close>

fun held :: "'a thread \<Rightarrow> 'a list" where
  "held (Holding i x) = [x]"
| "held (Store i x) = [x]"
| "held _ = []"

definition slot_items :: "'a EvictableSlot \<Rightarrow> 'a list" where
  "slot_items s = (case item s of None \<Rightarrow> [] | Some x \<Rightarrow> [x])"

text \<open>All sessions there are: those in the slots and those the threads hold.\<close>

definition contents :: "'a EvictableSlot list \<Rightarrow> 'a thread list \<Rightarrow> 'a multiset" where
  "contents p ts = mset (concat (map slot_items p)) + mset (concat (map held ts))"

fun reinits :: "'a thread \<Rightarrow> bool" where
  "reinits (Reinit i) = True"
| "reinits (Store i x) = True"
| "reinits (Panicked i) = True"
| "reinits _ = False"

definition no_evict_inv :: "'a multiset \<Rightarrow> 'a cpool \<Rightarrow> bool" where
  "no_evict_inv M s \<longleftrightarrow> pool_inv s \<and> evictor s = EvIdle \<and>
     (\<forall>i < length (pool s). \<not> busy (pool s ! i) \<longrightarrow> item (pool s ! i) \<noteq> None) \<and>
     (\<forall>pc \<in> set (threads s). \<not> reinits pc) \<and> contents (pool s) (threads s) = M"

lemma thread_step_no_evict:
  assumes "thread_step p pc p' pc'" and "pc_ok (length p) pc" and "\<not> reinits pc"
    and "\<forall>i. owns pc = Some i \<longrightarrow> busy (p ! i)"
    and "\<forall>i < length p. busy (p ! i) \<longrightarrow> item (p ! i) = None"
    and "\<forall>i < length p. \<not> busy (p ! i) \<longrightarrow> item (p ! i) \<noteq> None"
  shows "\<not> reinits pc'" and "i < length p \<Longrightarrow> \<not> busy (p' ! i) \<Longrightarrow> item (p' ! i) \<noteq> None"
    and "mset (concat (map slot_items p')) + mset (held pc') = mset (concat (map slot_items p)) + mset (held pc)"
proof -
  show "\<not> reinits pc'" and "i < length p \<Longrightarrow> \<not> busy (p' ! i) \<Longrightarrow> item (p' ! i) \<noteq> None"
    using assms by (cases pc; auto simp: section_defs nth_list_update split: if_splits option.splits)+
  have upd: "mset (concat (map slot_items (p[i := sl]))) + mset (slot_items (p ! i)) =
      mset (concat (map slot_items p)) + mset (slot_items sl)" if "i < length p" for i sl
    using that by (rule mset_concat_update)
  show "mset (concat (map slot_items p')) + mset (held pc') = mset (concat (map slot_items p)) + mset (held pc)"
    using assms(1)
  proof (cases rule: thread_step.cases)
    case (ts_claim_take now i sl x)
    then show ?thesis
      using assms(2) upd [of i sl] by (auto simp: section_defs slot_items_def split: if_splits option.splits)
  next
    case (ts_drop i x now)
    then show ?thesis
      using assms(2,4,5) upd [of i "drop_section now (Some x) (p ! i)"]
      by (auto simp: section_defs slot_items_def)
  next
    case (ts_check_none i sl)
    then show ?thesis
      using assms(2,6) by (auto simp: section_defs split: if_splits)
  next
    case (ts_claim_panic now i sl)
    then show ?thesis
      using assms(2,6) by (auto simp: section_defs split: if_splits option.splits)
  qed (use assms(3) in auto)
qed

lemma contents_update:
  assumes "t < length ts"
    and "mset (concat (map slot_items p')) + mset (held pc) = mset (concat (map slot_items p)) + mset (held (ts ! t))"
  shows "contents p' (ts[t := pc]) = contents p ts"
proof -
  have "contents p' (ts[t := pc]) + mset (held (ts ! t)) =
        mset (concat (map slot_items p')) + (mset (concat (map held ts)) + mset (held pc))"
    unfolding contents_def by (simp only: add.assoc mset_concat_update [OF assms(1)])
  also have "\<dots> = contents p ts + mset (held (ts ! t))"
    unfolding contents_def using assms(2) by (metis add.assoc add.commute)
  finally show ?thesis by simp
qed

interpretation pool_no_eviction:
  invariant_system "pool_init 0 now xs n" "pool_step 0" "no_evict_inv (mset xs)"
proof
  fix s :: "'a cpool"
  assume "pool_init 0 now xs n s"
  moreover from this have "pool_inv s" by (rule pool_inv_init)
  ultimately show "no_evict_inv (mset xs) s"
    by (auto simp: no_evict_inv_def pool_init_def from_items_def fresh_slot_def contents_def slot_items_def comp_def)
next
  fix s s' :: "'a cpool"
  assume st: "pool_step 0 s s'" and inv: "no_evict_inv (mset xs) s"
  then have "pool_inv s'"
    by (auto simp: no_evict_inv_def intro: pool_ownership.inv_step)
  from st show "no_evict_inv (mset xs) s'"
  proof (cases rule: pool_step.cases)
    case (ps_thread t p pc)
    have "\<forall>i. owns (threads s ! t) = Some i \<longrightarrow> busy (pool s ! i)"
      using pool_inv_owner_busy [of s t] inv ps_thread(2) by (auto simp: no_evict_inv_def)
    note ev = thread_step_no_evict [OF ps_thread(3) _ _ this]
    have len: "length p = length (pool s)"
      using thread_step_balance(1) [OF ps_thread(3)] inv ps_thread(2) \<open>\<forall>i. owns (threads s ! t) = Some i \<longrightarrow> _\<close>
      by (auto simp: no_evict_inv_def pool_inv_def)
    have "contents p ((threads s)[t := pc]) = contents (pool s) (threads s)"
      using inv ps_thread(2) by (intro contents_update ev) (auto simp: no_evict_inv_def pool_inv_def)
    moreover have "\<forall>pc' \<in> set ((threads s)[t := pc]). \<not> reinits pc'"
      using inv ps_thread(2) ev(1) set_update_subset_insert [of "threads s" t pc]
      by (auto simp: no_evict_inv_def pool_inv_def)
    moreover have "\<forall>i < length (pool s). \<not> busy (p ! i) \<longrightarrow> item (p ! i) \<noteq> None"
      using inv ps_thread(2) ev(2) by (auto simp: no_evict_inv_def pool_inv_def)
    ultimately show ?thesis
      using inv \<open>pool_inv s'\<close> ps_thread(1) len by (simp add: no_evict_inv_def)
  qed (use inv in \<open>auto simp: no_evict_inv_def\<close>)
qed

section \<open>The sequential operations\<close>

lemma acquire_from_Cons:
  "acquire_from factory now i (s # ss) =
     (if busy s then (case acquire_from factory now (Suc i) ss of (ss', r, ml) \<Rightarrow> (s # ss', r, ml))
      else case item s of
          Some x \<Rightarrow> (s\<lparr>item := None, busy := True, last_used := now\<rparr> # ss, Some (Inr (i, Some x)),
                     lock_log s @ lock_log s)
        | None \<Rightarrow> (case factory of
            Inl e \<Rightarrow> (s # ss, Some (Inl (ReinitFailed e)), lock_log s @ [ColdStart, ReinitFailure])
          | Inr x \<Rightarrow> (s\<lparr>busy := True, last_used := now\<rparr> # ss, Some (Inr (i, Some x)),
                      lock_log s @ ColdStart # lock_log s)))"
proof -
  have "s\<lparr>busy := False\<rparr> = s" if "\<not> busy s"
    using that by simp
  moreover have "s\<lparr>item := None\<rparr> = s" if "item s = None"
    using that by simp
  ultimately show ?thesis
    by (auto simp: section_defs Let_def lock_log_def split: option.splits sum.splits)
qed

declare acquire_from.simps(2) [simp del]

text \<open>Slots in use are passed over.\<close>

lemma acquire_from_busy:
  "list_all busy pre \<Longrightarrow>
   acquire_from factory now i (pre @ ss) =
     (case acquire_from factory now (i + length pre) ss of (ss', r, ml) \<Rightarrow> (pre @ ss', r, ml))"
  by (induction pre arbitrary: i) (simp_all add: acquire_from_Cons split: prod.splits)

fun outcome :: "AcquireError + 'a EvictableGuard \<Rightarrow> 'a thread" where
  "outcome (Inl e) = Refused e"
| "outcome (Inr (i, Some x)) = Holding i x"
| "outcome (Inr (i, None)) = Idle"

abbreviation solo :: "'a EvictableSlot list \<times> 'a thread \<Rightarrow> 'a EvictableSlot list \<times> 'a thread \<Rightarrow> bool" where
  "solo c d \<equiv> thread_step (fst c) (snd c) (fst d) (snd d)"

lemma acquire_from_simulated:
  "acquire_from factory now (length pre) ss = (ss', Some r, ml) \<Longrightarrow>
   solo\<^sup>*\<^sup>* (pre @ ss, Scan (length pre)) (pre @ ss', outcome r)"
proof (induction ss arbitrary: pre ss' ml)
  case Nil
  then have "solo (pre @ [], Scan (length pre)) (pre @ ss', outcome r)" by auto
  then show ?case by (rule r_into_rtranclp)
next
  case (Cons s ss)
  let ?i = "length pre" and ?p = "pre @ s # ss"
  show ?case
  proof (cases "busy s")
    case True
    with Cons.prems obtain ss1 ml1 where
      a: "acquire_from factory now (length (pre @ [s])) ss = (ss1, Some r, ml1)" and "ss' = s # ss1"
      by (auto simp: acquire_from_Cons split: prod.splits)
    moreover have st: "solo (?p, Scan ?i) (?p, Scan (Suc ?i))" using True by simp
    ultimately show ?thesis
      using Cons.IH [OF a] converse_rtranclp_into_rtranclp [of solo, OF st] by simp
  next
    case False
    then have "solo (?p, Scan ?i) (?p, Check ?i)" by simp
    moreover have "solo\<^sup>*\<^sup>* (?p, Check ?i) (pre @ ss', outcome r)"
    proof (cases "item s")
      case (Some x)
      have "solo (?p, Check ?i) (?p, Claim ?i)"
        using False Some by (simp add: check_section_def)
      moreover have "solo (?p, Claim ?i) (pre @ ss', outcome r)"
        using False Some Cons.prems by (auto simp: acquire_from_Cons claim_section_def)
      ultimately show ?thesis by (blast intro: rtranclp.intros)
    next
      case None
      let ?q = "pre @ s\<lparr>busy := True\<rparr> # ss"
      have c: "solo (?p, Check ?i) (?q, Reinit ?i)"
        using False None by (simp add: check_section_def)
      show ?thesis
      proof (cases factory)
        case (Inl e)
        have "solo (?q, Reinit ?i) (pre @ ss', outcome r)"
          using False None Inl Cons.prems by (auto simp: acquire_from_Cons reinit_fail_def)
        with c show ?thesis by (blast intro: rtranclp.intros)
      next
        case (Inr x)
        have "solo (?q, Reinit ?i) (?q, Store ?i x)" by simp
        moreover have "s\<lparr>busy := True, last_used := now\<rparr> = s\<lparr>busy := True, item := None, last_used := now\<rparr>"
          using None by (cases s) simp
        then have "solo (?q, Store ?i x) (pre @ ss', outcome r)"
          using False None Inr Cons.prems by (auto simp: acquire_from_Cons store_section_def intro!: exI [of _ now])
        ultimately show ?thesis using c by (blast intro: rtranclp.intros)
      qed
    qed
    ultimately show ?thesis by (blast intro: converse_rtranclp_into_rtranclp)
  qed
qed

lemma solo_pool_steps:
  assumes "solo\<^sup>*\<^sup>* (p, pc) (p', pc')" and t: "t < length (threads s)"
  shows "(pool_step idle)\<^sup>*\<^sup>* (s\<lparr>pool := p, threads := (threads s)[t := pc]\<rparr>)
           (s\<lparr>pool := p', threads := (threads s)[t := pc']\<rparr>)"
  using assms(1)
proof (induction rule: rtranclp_induct2)
  case (step p1 pc1 p2 pc2)
  let ?s1 = "s\<lparr>pool := p1, threads := (threads s)[t := pc1]\<rparr>"
  have "pool_step idle ?s1 (?s1\<lparr>pool := p2, threads := (threads ?s1)[t := pc2]\<rparr>)"
    using step(2) t by (intro ps_thread) simp_all
  with step.IH show ?case by (simp add: rtranclp.rtrancl_into_rtrancl)
qed simp

lemma acquire_all_busy:
  assumes "list_all busy pre"
  shows "acquire factory now \<lparr>slots = pre, idle_secs = idle\<rparr> =
           (\<lparr>slots = pre, idle_secs = idle\<rparr>, Some (Inl AllBusy), [])"
  using acquire_from_busy [OF assms, of factory now 0 "[]"] by (simp add: acquire_def)

lemma acquire_free_slot:
  assumes pre: "list_all busy pre" and "\<not> busy s"
    and x: "(case item s of Some y \<Rightarrow> Inr y | None \<Rightarrow> factory) = Inr x"
  shows "\<exists>ml. acquire factory now \<lparr>slots = pre @ s # post, idle_secs = idle\<rparr> =
           (\<lparr>slots = pre @ s\<lparr>item := None, busy := True, last_used := now\<rparr> # post, idle_secs = idle\<rparr>,
            Some (Inr (length pre, Some x)), ml)"
proof (cases "item s")
  case None
  then have "s\<lparr>busy := True, last_used := now\<rparr> = s\<lparr>item := None, busy := True, last_used := now\<rparr>"
    by (cases s) simp
  with assms None show ?thesis
    by (simp add: acquire_def acquire_from_busy [OF pre] acquire_from_Cons)
next
  case (Some y)
  with assms show ?thesis
    by (simp add: acquire_def acquire_from_busy [OF pre] acquire_from_Cons)
qed

lemma acquire_reinit_fails:
  assumes "list_all busy pre" and "\<not> busy s" and "item s = None"
  shows "\<exists>ml. acquire (Inl e) now \<lparr>slots = pre @ s # post, idle_secs = idle\<rparr> =
           (\<lparr>slots = pre @ s # post, idle_secs = idle\<rparr>, Some (Inl (ReinitFailed e)), ml)"
  using assms by (simp add: acquire_def acquire_from_busy [OF assms(1)] acquire_from_Cons)

lemma split_at_free_slot:
  "list_all busy ss \<or> (\<exists>pre s post. ss = pre @ s # post \<and> list_all busy pre \<and> \<not> busy s)"
  using split_list_first_prop [of ss "\<lambda>s. \<not> busy s"] by (auto simp: list_all_iff)

section \<open>Properties\<close>

text \<open>
  C29. Mutual exclusion. In every reachable state of the concurrent pool, with any number of
  threads and the eviction task running, a slot is claimed by at most one thread, so no
  session is used by two threads; the busy flag is set exactly for claimed slots, and a
  claimed slot is empty.
\<close>

theorem pool_mutual_exclusion:
  assumes "reach (pool_init idle now xs n) (pool_step idle) s" and "i < length (pool s)"
  shows "(busy (pool s ! i) \<longleftrightarrow> (\<exists>t < length (threads s). owns (threads s ! t) = Some i)) \<and>
         (busy (pool s ! i) \<longrightarrow> item (pool s ! i) = None) \<and>
         (\<forall>t t'. t < length (threads s) \<and> t' < length (threads s) \<and>
            owns (threads s ! t) = Some i \<and> owns (threads s ! t') = Some i \<longrightarrow> t = t')"
proof -
  have inv: "pool_inv s"
    using assms(1) by (rule pool_ownership.reach_inv)
  then have o: "owners i (threads s) = of_bool (busy (pool s ! i))"
    using assms(2) by (simp add: pool_inv_def)
  have "\<exists>t < length (threads s). owns (threads s ! t) = Some i" if "busy (pool s ! i)"
    using o that by (intro owners_ex) simp
  moreover have "owners i (threads s) \<le> 1"
    using o by simp
  ultimately show ?thesis
    using inv assms(2) pool_inv_owner_busy [OF inv] owners_le_one_unique [of i "threads s"]
    by (auto simp: pool_inv_def)
qed

text \<open>
  C30. With eviction disabled (\<open>idle_secs = 0\<close>) sessions are neither lost nor duplicated nor
  created: in every reachable state the sessions in the slots together with those held by
  guards are exactly the initial ones, and no thread is panicking or re-initialising.
\<close>

theorem pool_conserves_sessions:
  assumes "reach (pool_init 0 now xs n) (pool_step 0) s"
  shows "contents (pool s) (threads s) = mset xs \<and> (\<forall>pc \<in> set (threads s). \<not> reinits pc)"
  using pool_no_eviction.reach_inv [OF assms] by (simp add: no_evict_inv_def)


text \<open>
  C39. The eviction race. When eviction is enabled, a pool with one slot and one thread can
  reach a state in which the thread panics in \<open>acquire\<close>: between the thread's first look at
  the slot and its claim the eviction task empties it. From then on the slot is marked busy
  for ever, and every later \<open>acquire\<close> is refused.
\<close>

theorem acquire_eviction_race:
  assumes "0 < idle"
  shows "\<exists>s. reach (pool_init idle 0 [x] 1) (pool_step idle) s \<and> threads s ! 0 = Panicked 0 \<and>
           (\<forall>s' factory now. (pool_step idle)\<^sup>*\<^sup>* s s' \<longrightarrow>
              acquire factory now \<lparr>slots = pool s', idle_secs = idle\<rparr> =
                (\<lparr>slots = pool s', idle_secs = idle\<rparr>, Some (Inl AllBusy), []))"
proof -
  let ?sl = "fresh_slot 0 x"
  let ?st = "\<lambda>sl pc ev. \<lparr>pool = [sl], threads = [pc], evictor = ev\<rparr>"
  let ?dead = "?sl\<lparr>item := None, busy := True, last_used := 0, poisoned := True\<rparr>"
  have th: "pool_step idle (?st sl pc ev) (?st sl' pc' ev)" if "thread_step [sl] pc [sl'] pc'"
    for sl sl' pc pc' ev
    using ps_thread [of 0 "?st sl pc ev" "[sl']" pc' idle] that by simp
  have ev1: "pool_step idle (?st ?sl (Claim 0) EvIdle) (?st ?sl (Claim 0) (EvLock 0))"
    using ps_ev_pick [of idle "?st ?sl (Claim 0) EvIdle" 0 idle] assms
    by (simp add: old_enough_def fresh_slot_def sat_sub_def)
  have ev2: "pool_step idle (?st ?sl (Claim 0) (EvLock 0)) (?st (?sl\<lparr>item := None\<rparr>) (Claim 0) EvIdle)"
    using ps_ev_lock [of "?st ?sl (Claim 0) (EvLock 0)" 0 "?sl\<lparr>item := None\<rparr>" True idle]
    by (simp add: evict_section_def fresh_slot_def)
  have "reach (pool_init idle 0 [x] 1) (pool_step idle) (?st ?sl Idle EvIdle)"
    by (rule reach_init) (simp add: pool_init_def from_items_def)
  then have "reach (pool_init idle 0 [x] 1) (pool_step idle) (?st ?sl (Scan 0) EvIdle)"
    by (rule reach_step) (simp add: th)
  then have "reach (pool_init idle 0 [x] 1) (pool_step idle) (?st ?sl (Check 0) EvIdle)"
    by (rule reach_step) (simp add: th fresh_slot_def)
  then have "reach (pool_init idle 0 [x] 1) (pool_step idle) (?st ?sl (Claim 0) EvIdle)"
    by (rule reach_step) (simp add: th fresh_slot_def check_section_def)
  then have "reach (pool_init idle 0 [x] 1) (pool_step idle) (?st (?sl\<lparr>item := None\<rparr>) (Claim 0) EvIdle)"
    using ev1 ev2 by (blast intro: reach_step)
  then have r: "reach (pool_init idle 0 [x] 1) (pool_step idle) (?st ?dead (Panicked 0) EvIdle)"
    by (rule reach_step) (auto intro!: th exI [of _ 0] simp: fresh_slot_def claim_section_def)
  have stuck: "threads s' = [Panicked 0] \<and> length (pool s') = 1"
    if "(pool_step idle)\<^sup>*\<^sup>* (?st ?dead (Panicked 0) EvIdle) s'" for s'
    using that by (induction rule: rtranclp_induct) (auto elim!: pool_step.cases)
  have "acquire factory now \<lparr>slots = pool s', idle_secs = idle\<rparr> =
      (\<lparr>slots = pool s', idle_secs = idle\<rparr>, Some (Inl AllBusy), [])"
    if "(pool_step idle)\<^sup>*\<^sup>* (?st ?dead (Panicked 0) EvIdle) s'" for s' factory now
  proof -
    have "pool_inv s'"
      by (rule pool_ownership.steps_inv [OF that]) (rule pool_ownership.reach_inv [OF r])
    with stuck [OF that] have "list_all busy (pool s')"
      using pool_inv_owner_busy [of s' 0 0] by (auto simp: length_Suc_conv)
    from acquire_from_busy [OF this, of factory now 0 "[]"] show ?thesis by (simp add: acquire_def)
  qed
  with r show ?thesis by (intro exI [of _ "?st ?dead (Panicked 0) EvIdle"]) simp
qed

text \<open>
  What \<open>acquire\<close> does, run alone, and that the guard's drop undoes it. It never panics.
  It answers \<open>AllBusy\<close> exactly when every slot is in use; a failing factory leaves the pool
  as it was; a guard is for the first slot that is not in use, carries that slot's session
  (or the factory's new one if the slot was evicted), no other slot changes, and dropping it
  puts the session back and frees the slot.
\<close>

lemma acquire_drop_spec:
  assumes "acquire factory now p = (p', r, ml)"
  shows "case r of
      None \<Rightarrow> False
    | Some (Inl AllBusy) \<Rightarrow> list_all busy (slots p) \<and> p' = p
    | Some (Inl (ReinitFailed e)) \<Rightarrow> factory = Inl e \<and> p' = p
    | Some (Inr (i, it)) \<Rightarrow>
        i < length (slots p) \<and> \<not> busy (slots p ! i) \<and> list_all busy (take i (slots p)) \<and>
        (\<exists>x. it = Some x \<and> (item (slots p ! i) = Some x \<or> item (slots p ! i) = None \<and> factory = Inr x) \<and>
             slots (drop_guard later (i, it) p') =
               (slots p)[i := (slots p ! i)\<lparr>item := Some x, last_used := later\<rparr>])"
proof (cases "list_all busy (slots p)")
  case True
  then show ?thesis
    using acquire_all_busy [of "slots p" factory now "idle_secs p"] assms by (cases p) auto
next
  case False
  then obtain pre s post where sp: "slots p = pre @ s # post" and pre: "list_all busy pre" and s: "\<not> busy s"
    using split_at_free_slot by blast
  then have p: "p = \<lparr>slots = pre @ s # post, idle_secs = idle_secs p\<rparr>" by simp
  show ?thesis
  proof (cases "case item s of Some y \<Rightarrow> Inr y | None \<Rightarrow> factory")
    case (Inl e)
    then have "item s = None" and f: "factory = Inl e" by (auto split: option.splits)
    with acquire_reinit_fails [OF pre s, of e now post "idle_secs p"] show ?thesis
      using assms p by auto
  next
    case (Inr x)
    have "s\<lparr>item := Some x, busy := False, last_used := later\<rparr> = s\<lparr>item := Some x, last_used := later\<rparr>"
      using s by (cases s) simp
    moreover have "item s = Some x \<or> item s = None \<and> factory = Inr x"
      using Inr by (auto split: option.splits)
    ultimately show ?thesis
      using acquire_free_slot [OF pre s Inr, of now post "idle_secs p"] assms p sp s pre
      by (auto simp: drop_guard_def drop_section_def)
  qed
qed

text \<open>
  \<open>evict_idle\<close> empties exactly the slots that are not in use, whose mutex is not poisoned
  and which were last used at least the threshold ago, keeps everything else of the pool,
  counts the sessions it drops, and does nothing when eviction is disabled.
\<close>

lemma evict_idle_spec:
  "evict_idle now threshold p =
     (let evictable = (\<lambda>s. idle_secs p \<noteq> 0 \<and> \<not> busy s \<and> \<not> poisoned s \<and> item s \<noteq> None \<and> threshold \<le> now - last_used s)
      in (p\<lparr>slots := map (\<lambda>s. if evictable s then s\<lparr>item := None\<rparr> else s) (slots p)\<rparr>,
          length (filter evictable (slots p))))"
proof (cases "idle_secs p = 0")
  case False
  have e: "fst \<circ> evict_slot now threshold =
      (\<lambda>s. if \<not> busy s \<and> \<not> poisoned s \<and> item s \<noteq> None \<and> threshold \<le> now - last_used s then s\<lparr>item := None\<rparr> else s)"
    and e2: "snd \<circ> evict_slot now threshold =
      (\<lambda>s. \<not> busy s \<and> \<not> poisoned s \<and> item s \<noteq> None \<and> threshold \<le> now - last_used s)"
    by (auto simp: fun_eq_iff evict_slot_def evict_section_def old_enough_def sat_sub_def)
  from False show ?thesis
    unfolding evict_idle_def e e2 Let_def by simp
qed (simp add: evict_idle_def Let_def)

section \<open>Witnesses\<close>

lemma wit_reach: "reach (pool_init 60 0 ''ab'' 2) (pool_step 60)
    \<lparr>pool = map (fresh_slot 0) ''ab'', threads = [Idle, Idle], evictor = EvIdle\<rparr>"
  by (rule reach_init) (simp add: pool_init_def from_items_def numeral_2_eq_2)


lemma wit_steps:
  "(pool_step idle)\<^sup>*\<^sup>* \<lparr>pool = map (fresh_slot 0) ''ab'', threads = [Idle, Idle], evictor = EvIdle\<rparr>
     \<lparr>pool = [(fresh_slot 0 CHR ''a'')\<lparr>item := None, busy := True, last_used := 5\<rparr>, fresh_slot 0 CHR ''b''],
      threads = [Holding 0 CHR ''a'', Idle], evictor = EvIdle\<rparr>"
proof -
  let ?s = "\<lparr>pool = map (fresh_slot 0) ''ab'', threads = [Idle, Idle], evictor = EvIdle\<rparr>"
  have "acquire_from (Inl ''no factory'') 5 (length ([] :: char EvictableSlot list)) (pool ?s) =
     ([(fresh_slot 0 CHR ''a'')\<lparr>item := None, busy := True, last_used := 5\<rparr>, fresh_slot 0 CHR ''b''],
      Some (Inr (0, Some CHR ''a'')), [])"
    by (simp add: acquire_from_Cons fresh_slot_def lock_log_def)
  from solo_pool_steps [OF acquire_from_simulated [OF this], of 0 ?s idle]
  have "(pool_step idle)\<^sup>*\<^sup>* (?s\<lparr>threads := [Scan 0, Idle]\<rparr>)
     \<lparr>pool = [(fresh_slot 0 CHR ''a'')\<lparr>item := None, busy := True, last_used := 5\<rparr>, fresh_slot 0 CHR ''b''],
      threads = [Holding 0 CHR ''a'', Idle], evictor = EvIdle\<rparr>" by simp
  moreover have "pool_step idle ?s (?s\<lparr>threads := [Scan 0, Idle]\<rparr>)"
    using ps_thread [of 0 ?s "pool ?s" "Scan 0" idle] by simp
  ultimately show ?thesis by (rule converse_rtranclp_into_rtranclp [rotated])
qed

theorem pool_mutual_exclusion_witness:
  "busy (pool \<lparr>pool = [(fresh_slot 0 CHR ''a'')\<lparr>item := None, busy := True, last_used := 5\<rparr>, fresh_slot 0 CHR ''b''],
      threads = [Holding 0 CHR ''a'', Idle], evictor = EvIdle\<rparr> ! 0)"
  using pool_mutual_exclusion [OF reach_rtranclp [OF wit_reach wit_steps], of 0] by auto

theorem pool_conserves_sessions_witness:
  "contents [(fresh_slot 0 CHR ''a'')\<lparr>item := None, busy := True, last_used := 5\<rparr>, fresh_slot 0 CHR ''b'']
      [Holding 0 CHR ''a'', Idle] = {#CHR ''a'', CHR ''b''#}"
proof -
  have "reach (pool_init 0 0 ''ab'' 2) (pool_step 0)
      \<lparr>pool = map (fresh_slot 0) ''ab'', threads = [Idle, Idle], evictor = EvIdle\<rparr>"
    by (rule reach_init) (simp add: pool_init_def from_items_def numeral_2_eq_2)
  from pool_conserves_sessions [OF reach_rtranclp [OF this wit_steps]] show ?thesis by simp
qed

theorem acquire_eviction_race_witness:
  "\<exists>s. reach (pool_init 300 0 [True] 1) (pool_step 300) s \<and> threads s ! 0 = Panicked 0"
  using acquire_eviction_race [of 300 True] by auto

end
