(* ===== verification/Embed_Model.thy ===== *)
theory Embed_Model
  imports Batcher Session_Pool Config "HOL-Library.Product_Lexorder"
begin

text \<open>
  The embedding model of \<open>src/src/model.rs\<close> and the tensor helpers of \<open>src/src/pool.rs\<close>:
  settings resolved at load, tokenisation with its clip, the split of a request into
  length-homogeneous sub-batches, one forward pass with padding, mean pooling and
  normalisation, and the reassembly. The tokenizer and the ONNX session are parameters;
  \<open>None\<close> is a panic (an index out of range).
\<close>

section \<open>Settings\<close>

datatype GraphOptimizationLevel = Disable | Level1 | Level2 | Level3

definition parse_opt_level :: "env \<Rightarrow> GraphOptimizationLevel" where
  "parse_opt_level e =
     (case (case e ''ORT_OPT_LEVEL'' of None \<Rightarrow> 3
            | Some s \<Rightarrow> (case parse_uint 8 s of None \<Rightarrow> 3 | Some n \<Rightarrow> n)) of
        n \<Rightarrow> if n = 0 then Disable else if n = 1 then Level1 else if n = 2 then Level2 else Level3)"

text \<open>
  What \<open>configure_truncation\<close> sets on the tokenizer: the truncation length, and no padding.
  \<open>tc_padding\<close> is the pad id of the padding parameters, if any; \<open>with_truncation\<close> is the
  tokenizer's check of the parameters.
\<close>

record tokenizer_cfg =
  tc_truncation :: "nat option"
  tc_padding :: "32 word option"

definition configure_truncation ::
  "(nat option \<Rightarrow> string + unit) \<Rightarrow> bool \<Rightarrow> nat \<Rightarrow> 'a tokenizer_cfg_scheme \<Rightarrow> string + 'a tokenizer_cfg_scheme" where
  "configure_truncation with_truncation auto_truncate ml t =
     (let params = (if auto_truncate then Some ml else None) in
      case with_truncation params of
        Inl e \<Rightarrow> Inl (''with_truncation: '' @ e)
      | Inr _ \<Rightarrow> Inr (t\<lparr>tc_truncation := params, tc_padding := None\<rparr>))"

definition arena_shrink_enabled_for_model :: "env \<Rightarrow> string \<Rightarrow> bool \<Rightarrow> bool" where
  "arena_shrink_enabled_for_model e model_name memory_pattern =
     (case e (''EMBED_ARENA_SHRINK_'' @ model_env_key model_name) of
        None \<Rightarrow> \<not> memory_pattern
      | Some v \<Rightarrow> if v \<in> {''true'', ''1''} then True
                  else if v \<in> {''false'', ''0''} then False
                  else \<not> memory_pattern)"

definition DEFAULT_SUBBATCH_RATIO :: fl where
  "DEFAULT_SUBBATCH_RATIO = Fin 2"

definition parse_subbatch_ratio :: "(string \<Rightarrow> fl option) \<Rightarrow> string option \<Rightarrow> fl" where
  "parse_subbatch_ratio parse_f32 raw =
     (case raw of None \<Rightarrow> DEFAULT_SUBBATCH_RATIO
      | Some s \<Rightarrow> if s = [] then DEFAULT_SUBBATCH_RATIO
                  else (case parse_f32 (trim s) of
                      Some (Fin q) \<Rightarrow> if 0 \<le> q then Fin q else DEFAULT_SUBBATCH_RATIO
                    | _ \<Rightarrow> DEFAULT_SUBBATCH_RATIO))"

definition resolve_subbatch_ratio :: "(string \<Rightarrow> fl option) \<Rightarrow> env \<Rightarrow> string \<Rightarrow> fl" where
  "resolve_subbatch_ratio parse_f32 e model_key =
     parse_subbatch_ratio parse_f32
       (case e (''EMBED_SUBBATCH_RATIO_'' @ model_env_key model_key) of
          Some s \<Rightarrow> Some s | None \<Rightarrow> e ''EMBED_SUBBATCH_RATIO'')"

definition pad_seq_len :: "nat \<Rightarrow> nat \<Rightarrow> nat" where
  "pad_seq_len n cap = (if n \<le> 1 then 1 else min (next_power_of_two n) cap)"

definition classify_ort_error :: "string \<Rightarrow> string \<times> nat" where
  "classify_ort_error msg =
     (if str_contains msg ''Available memory of'' \<and> str_contains msg ''smaller than requested''
      then (''arena_oom'', 0) else (''other'', 0))"

section \<open>Sub-batches\<close>

text \<open>\<open>widest as f32 / len as f32 <= ratio\<close>, in \<open>f32\<close> arithmetic.\<close>

definition ratio_ok :: "fl \<Rightarrow> nat \<Rightarrow> nat \<Rightarrow> bool" where
  "ratio_ok ratio widest len = fl_le (fl_div_pos fmt32 (fl_of_nat fmt32 widest) (fl_of_nat fmt32 len)) ratio"

fun plan_loop :: "nat list \<Rightarrow> fl \<Rightarrow> nat list \<Rightarrow> nat list list \<Rightarrow> nat list \<Rightarrow> nat \<Rightarrow> nat list list" where
  "plan_loop lens ratio [] groups current widest = (if current \<noteq> [] then groups @ [current] else groups)"
| "plan_loop lens ratio (i # order) groups current widest =
     (let len = max (lens ! i) 1 in
      if current = [] then plan_loop lens ratio order groups [i] len
      else if ratio_ok ratio widest len then plan_loop lens ratio order groups (current @ [i]) widest
      else plan_loop lens ratio order (groups @ [current]) [i] len)"

definition plan_subbatches :: "nat list \<Rightarrow> fl \<Rightarrow> nat list list" where
  "plan_subbatches lens ratio =
     (if lens = [] then []
      else if ratio = NaN \<or> fl_le ratio (Fin 1) then [[0..<length lens]]
      else plan_loop lens ratio (sort_key (\<lambda>i. (- int (lens ! i), i)) [0..<length lens]) [] [] 0)"

section \<open>Tensors\<close>

type_synonym tensors = "int list \<times> int list \<times> int list option"

text \<open>The inner loop writes one sequence and its msk into the flat buffers.\<close>

definition fill_row :: "nat \<Rightarrow> nat \<Rightarrow> token_seq \<Rightarrow> int list \<times> int list \<Rightarrow> int list \<times> int list" where
  "fill_row offset len sq bufs =
     fold (\<lambda>j (ids, msk). (ids[offset + j := uint (sq ! j)], msk[offset + j := 1])) [0..<len] bufs"

definition build_tensors_from_ids :: "token_seq list \<Rightarrow> nat \<Rightarrow> nat \<Rightarrow> 32 word \<Rightarrow> bool \<Rightarrow> tensors option" where
  "build_tensors_from_ids seqs batch max_seq pad_id with_tti =
     (let total = batch * max_seq;
          tti = (if with_tti then Some (replicate total 0) else None);
          (ids, msk) = fold (\<lambda>(i, sq). fill_row (i * max_seq) (min (length sq) max_seq) sq) (enumerate 0 seqs)
                          (replicate total (uint pad_id), replicate total 0)
      in if list_all (\<lambda>sq. min (length sq) max_seq = 0) (drop batch seqs) then Some (ids, msk, tti) else None)"

definition mask_i64_to_f32 :: "int list \<Rightarrow> f32 list" where
  "mask_i64_to_f32 = map f32_of_int"

section \<open>Pooling\<close>

text \<open>The output of a session, \<open>[batch, seq, dim]\<close>: its shape and its rows of token vectors.\<close>

record raw_output =
  ro_shape :: "nat list"
  ro_rows :: "f32 list list list"

definition scale :: "fl \<Rightarrow> f32 list \<Rightarrow> f32 list" where
  "scale factor acc = (let inv = f32_of_fl False (fl_narrow factor) in map (\<lambda>v. f32_mul v inv) acc)"

text \<open>Sum, average and normalisation of the token vectors of one sequence.\<close>

definition pool_row :: "nat \<Rightarrow> f32 list list \<Rightarrow> f32 list" where
  "pool_row dm toks =
     (let acc = fold (\<lambda>tv acc. map2 f32_add acc tv) toks (replicate dm f32_zero);
          count = fl_of_nat fmt64 (length toks);
          acc' = (if fl_lt (Fin 0) count then scale (fl_recip_pos fmt64 count) acc else acc);
          sum_sq = fold (\<lambda>x s. fl_add fmt64 s (fl_mul fmt64 (f32_val x) (f32_val x))) acc' (Fin 0);
          norm = fl_sqrt fmt64 sum_sq
      in if fl_lt (Fin 0) norm then scale (fl_recip_pos fmt64 norm) acc' else acc')"

definition real_tokens :: "nat \<Rightarrow> f32 list \<Rightarrow> nat" where
  "real_tokens max_seq mask_row =
     (case List.find (\<lambda>j. f32_sm (mask_row ! j) = 0) [0..<length mask_row] of None \<Rightarrow> max_seq | Some j \<Rightarrow> j)"

fun pool_rows :: "nat \<Rightarrow> nat \<Rightarrow> f32 list list list \<Rightarrow> f32 list list \<Rightarrow> f32 list list option" where
  "pool_rows max_seq dm (row # rows) (m # ms) =
     (let k = real_tokens max_seq m in
      if length row < k then None
      else map_option (Cons (pool_row dm (take k row))) (pool_rows max_seq dm rows ms))"
| "pool_rows max_seq dm _ _ = Some []"

definition show_shape :: "nat list \<Rightarrow> string" where
  "show_shape ns = ''['' @ (case ns of [] \<Rightarrow> [] | n # r \<Rightarrow> show_nat n @ concat (map (\<lambda>k. '', '' @ show_nat k) r)) @ '']''"

definition mean_pool_normalize ::
  "raw_output \<Rightarrow> f32 list list \<Rightarrow> nat \<Rightarrow> nat \<Rightarrow> nat \<Rightarrow> (string + f32 list list) option" where
  "mean_pool_normalize raw msk batch max_seq dm =
     (let shape = ro_shape raw in
      if length shape \<noteq> 3 \<or> shape ! 0 \<noteq> batch \<or> shape ! 2 \<noteq> dm
      then Some (Inl (''unexpected output shape: '' @ show_shape shape @ '', expected '' @ show_shape [batch, max_seq, dm]))
      else map_option Inr (pool_rows max_seq dm (ro_rows raw) msk))"

section \<open>The model\<close>

record EmbedModel =
  em_name :: string
  em_pool_size :: nat
  em_dim :: nat
  em_max_len :: nat
  em_pad_id :: "32 word"
  em_has_token_type_ids :: bool
  em_num_heads :: nat
  em_subbatch_ratio :: fl
  em_arena_shrink :: bool
  em_evict_tick :: "nat option"

text \<open>
  The settings \<open>EmbedModel::load\<close> derives from a definition: the clamped pool size, the number
  of heads by name, the period of the eviction loop, shrinking and the sub-batch ratio.
\<close>

definition load_settings :: "(string \<Rightarrow> fl option) \<Rightarrow> env \<Rightarrow> ModelDef \<Rightarrow> nat \<Rightarrow> nat \<Rightarrow> EmbedModel" where
  "load_settings parse_f32 e d pool_size idle_evict_secs =
     \<lparr>em_name = md_name d, em_pool_size = max pool_size 1, em_dim = md_dim d, em_max_len = md_max_len d,
      em_pad_id = of_nat (md_pad_id d), em_has_token_type_ids = md_has_token_type_ids d,
      em_num_heads = (if str_contains (md_name d) ''e5-large'' then 16 else 12),
      em_subbatch_ratio = resolve_subbatch_ratio parse_f32 e (md_name d),
      em_arena_shrink = arena_shrink_enabled_for_model e (md_name d) (md_memory_pattern d),
      em_evict_tick = (if 0 < idle_evict_secs then Some (max (idle_evict_secs div 4) 5) else None)\<rparr>"

text \<open>
  \<open>tokenize\<close>: \<open>encode\<close> is the tokenizer's \<open>encode_batch\<close>. The number is how often the hard clip
  was recorded.
\<close>

definition tokenize ::
  "(string list \<Rightarrow> string + token_seq list) \<Rightarrow> EmbedModel \<Rightarrow> string list \<Rightarrow> string + token_seq list \<times> nat" where
  "tokenize encode m texts =
     (if texts = [] then Inr ([], 0)
      else case encode texts of
        Inl e \<Rightarrow> Inl (''tokenize: '' @ e)
      | Inr encs \<Rightarrow> Inr (map (\<lambda>ids. take (min (length ids) (em_max_len m)) ids) encs,
                         length (filter (\<lambda>ids. em_max_len m < length ids) encs)))"

text \<open>What a session answers to a run: an error of the run, of the extraction, or a tensor.\<close>

datatype run_outcome = RunErr string | ExtractErr string | RunOk raw_output

text \<open>A session: whether shrinking options are passed, the tensors and their two dimensions.\<close>

type_synonym session_fn = "bool \<Rightarrow> tensors \<Rightarrow> nat \<Rightarrow> nat \<Rightarrow> run_outcome"

fun chunk_rows :: "nat \<Rightarrow> nat \<Rightarrow> 'a list \<Rightarrow> 'a list list" where
  "chunk_rows 0 n xs = []"
| "chunk_rows (Suc b) n xs = take n xs # chunk_rows b n (drop n xs)"

definition pass_width :: "EmbedModel \<Rightarrow> token_seq list \<Rightarrow> nat" where
  "pass_width m seqs = pad_seq_len (min (fold max (map length seqs) 0) (em_max_len m)) (em_max_len m)"

text \<open>\<open>acq\<close> is the answer of the session pool: a session or the reason there is none.\<close>

definition embed_tokens_one_pass ::
  "EmbedModel \<Rightarrow> AcquireError + session_fn \<Rightarrow> token_seq list \<Rightarrow> (string + f32 list list) option" where
  "embed_tokens_one_pass m acq seqs =
     (if seqs = [] then Some (Inr [])
      else
        let max_seq = pass_width m seqs; batch = length seqs in
        case build_tensors_from_ids seqs batch max_seq (em_pad_id m) (em_has_token_type_ids m) of
          None \<Rightarrow> None
        | Some (ids, msk, tti) \<Rightarrow>
            (case acq of
               Inl AllBusy \<Rightarrow> Some (Inl ''embed session pool: all slots busy'')
             | Inl (ReinitFailed s) \<Rightarrow> Some (Inl (''embed session pool: reinit failed: '' @ s))
             | Inr session \<Rightarrow>
                 (case session (em_arena_shrink m) (ids, msk, tti) batch max_seq of
                    RunErr e \<Rightarrow> Some (Inl (''inference: '' @ e))
                  | ExtractErr e \<Rightarrow> Some (Inl (''extract: '' @ e))
                  | RunOk raw \<Rightarrow>
                      mean_pool_normalize raw (chunk_rows batch max_seq (mask_i64_to_f32 msk)) batch max_seq (em_dim m))))"

text \<open>The reassembly: the \<open>k\<close>-th pass gets the pool's answer \<open>acq k\<close>.\<close>

fun subbatch_loop ::
  "EmbedModel \<Rightarrow> (nat \<Rightarrow> AcquireError + session_fn) \<Rightarrow> token_seq list \<Rightarrow> nat \<Rightarrow> nat list list \<Rightarrow> f32 list list \<Rightarrow>
   (string + f32 list list) option" where
  "subbatch_loop m acq seqs k [] out = Some (Inr out)"
| "subbatch_loop m acq seqs k (g # gs) out =
     (case embed_tokens_one_pass m (acq k) (map (\<lambda>i. seqs ! i) g) of
        None \<Rightarrow> None
      | Some (Inl e) \<Rightarrow> Some (Inl e)
      | Some (Inr vs) \<Rightarrow>
          if length vs \<noteq> length g
          then Some (Inl (''sub-batch cardinality: expected '' @ show_nat (length g) @ '', got '' @ show_nat (length vs)))
          else subbatch_loop m acq seqs (Suc k) gs (fold (\<lambda>(i, v) out. out[i := v]) (zip g vs) out))"

definition capped_lens :: "EmbedModel \<Rightarrow> token_seq list \<Rightarrow> nat list" where
  "capped_lens m seqs = map (\<lambda>v. min (length v) (em_max_len m)) seqs"

text \<open>The two numbers of the padding-waste metric: padded positions and real tokens.\<close>

definition padded_positions :: "EmbedModel \<Rightarrow> nat list \<Rightarrow> nat list list \<Rightarrow> nat" where
  "padded_positions m lens groups =
     sum_list (map (\<lambda>g. length g * pad_seq_len (fold max (map (\<lambda>i. lens ! i) g) 0) (em_max_len m)) groups)"

definition model_embed_tokens ::
  "EmbedModel \<Rightarrow> (nat \<Rightarrow> AcquireError + session_fn) \<Rightarrow> token_seq list \<Rightarrow> (string + f32 list list) option" where
  "model_embed_tokens m acq seqs =
     (if seqs = [] then Some (Inr [])
      else let groups = plan_subbatches (capped_lens m seqs) (em_subbatch_ratio m) in
        if length groups \<le> 1 then embed_tokens_one_pass m (acq 0) seqs
        else subbatch_loop m acq seqs 0 groups (replicate (length seqs) []))"

text \<open>\<open>StandaloneEmbedder::infer\<close>: the sequence length of the request is not used.\<close>

definition standalone_infer ::
  "(string list \<Rightarrow> string + token_seq list) \<Rightarrow> EmbedModel \<Rightarrow> (nat \<Rightarrow> AcquireError + session_fn) \<Rightarrow> string list \<Rightarrow> 32 word \<Rightarrow>
   (string + f32 list list \<times> 32 word) option" where
  "standalone_infer encode m acq texts msl =
     (case tokenize encode m texts of
        Inl e \<Rightarrow> Some (Inl e)
      | Inr (ids, _) \<Rightarrow> map_option (\<lambda>r. case r of Inl e \<Rightarrow> Inl e | Inr vecs \<Rightarrow> Inr (vecs, of_nat (em_dim m)))
                          (model_embed_tokens m acq ids))"

section \<open>Lemmas: the plan\<close>

lemma concat_plan_loop: "concat (plan_loop lens ratio order groups current widest) = concat groups @ current @ order"
  by (induction lens ratio order groups current widest rule: plan_loop.induct) (auto simp: Let_def)

lemma plan_loop_nonempty:
  "[] \<notin> set groups \<Longrightarrow> [] \<notin> set (plan_loop lens ratio order groups current widest)"
  by (induction lens ratio order groups current widest rule: plan_loop.induct) (auto simp: Let_def)

lemma plan_subbatches_perm: "mset (concat (plan_subbatches lens ratio)) = mset [0..<length lens]"
  by (simp add: plan_subbatches_def concat_plan_loop)

lemma plan_subbatches_nonempty: "[] \<notin> set (plan_subbatches lens ratio)"
  using plan_loop_nonempty [of "[]"] by (auto simp: plan_subbatches_def eq_commute [of "[]"])

text \<open>Within a group every later item is admitted by the ratio test against the first.\<close>

definition group_ok :: "nat list \<Rightarrow> fl \<Rightarrow> nat list \<Rightarrow> bool" where
  "group_ok lens ratio g \<longleftrightarrow> list_all (\<lambda>i. ratio_ok ratio (max (lens ! hd g) 1) (max (lens ! i) 1)) (tl g)"

lemma plan_loop_group_ok:
  "list_all (group_ok lens ratio) groups \<Longrightarrow> group_ok lens ratio current \<Longrightarrow>
   (current \<noteq> [] \<Longrightarrow> widest = max (lens ! hd current) 1) \<Longrightarrow>
   list_all (group_ok lens ratio) (plan_loop lens ratio order groups current widest)"
proof (induction lens ratio order groups current widest rule: plan_loop.induct)
  case (2 lens ratio i order groups current widest)
  show ?case
  proof (cases "current = []")
    case True
    then show ?thesis
      using 2 by (simp add: Let_def group_ok_def)
  next
    case ne: False
    then have w: "widest = max (lens ! hd current) 1" using 2 by simp
    show ?thesis
    proof (cases "ratio_ok ratio widest (max (lens ! i) 1)")
      case True
      then have "group_ok lens ratio (current @ [i])"
        using 2(5) ne w by (simp add: group_ok_def)
      then show ?thesis using 2 ne True w by (simp add: Let_def)
    next
      case False
      have "group_ok lens ratio [i]" by (simp add: group_ok_def)
      then show ?thesis
        using 2(3) [OF refl ne False] 2(4,5) ne False by (simp add: Let_def)
    qed
  qed
qed simp

section \<open>Lemmas: tensors and pooling\<close>

lemma fill_row_eq:
  assumes "off + len \<le> length ids" "length msk = length ids" "len \<le> length sq"
  shows "fill_row off len sq (ids, msk) =
    (take off ids @ map uint (take len sq) @ drop (off + len) ids, take off msk @ replicate len 1 @ drop (off + len) msk)"
  using assms
proof (induction len)
  case 0
  show ?case by (simp add: fill_row_def)
next
  case (Suc len)
  have step: "fill_row off (Suc len) sq b =
      (case fill_row off len sq b of (x, y) \<Rightarrow> (x[off + len := uint (sq ! len)], y[off + len := 1]))" for b
    by (simp add: fill_row_def)
  have d: "drop (off + len) xs = xs ! (off + len) # drop (Suc (off + len)) xs" if "off + len < length xs" for xs :: "int list"
    using that by (simp add: Cons_nth_drop_Suc)
  show ?case
    using Suc by (simp add: step list_update_append d take_Suc_conv_app_nth replicate_append_same [symmetric])
qed

definition ids_row :: "nat \<Rightarrow> int \<Rightarrow> token_seq \<Rightarrow> int list" where
  "ids_row w p sq = map uint (take w sq) @ replicate (w - length sq) p"

definition mask_row :: "nat \<Rightarrow> token_seq \<Rightarrow> int list" where
  "mask_row w sq = replicate (min (length sq) w) 1 @ replicate (w - length sq) 0"

lemma row_lengths [simp]: "length (ids_row w p sq) = w" "length (mask_row w sq) = w"
  by (auto simp: ids_row_def mask_row_def)

lemma fill_rows:
  "length A = n * w \<Longrightarrow> length B = n * w \<Longrightarrow>
   fold (\<lambda>(i, sq). fill_row (i * w) (min (length sq) w) sq) (enumerate n seqs)
     (A @ replicate (length seqs * w) p, B @ replicate (length seqs * w) 0) =
   (A @ concat (map (ids_row w p) seqs), B @ concat (map (mask_row w) seqs))"
proof (induction seqs arbitrary: n A B)
  case (Cons sq seqs)
  have r: "replicate (w + l) x = replicate k x @ replicate (w - k) x @ replicate l x" if "k \<le> w" for k l and x :: int
    using that by (simp add: replicate_add [symmetric])
  have "fill_row (n * w) (min (length sq) w) sq (A @ replicate (w + length seqs * w) p, B @ replicate (w + length seqs * w) 0) =
      ((A @ ids_row w p sq) @ replicate (length seqs * w) p, (B @ mask_row w sq) @ replicate (length seqs * w) 0)"
    using Cons.prems by (subst fill_row_eq) (auto simp: ids_row_def mask_row_def r [of "min (length sq) w"] min_def)
  then show ?case
    using Cons.IH [of "A @ ids_row w p sq" "Suc n" "B @ mask_row w sq"] Cons.prems by simp
qed simp

lemma build_tensors_rows:
  "build_tensors_from_ids seqs (length seqs) w pad with_tti =
     Some (concat (map (ids_row w (uint pad)) seqs), concat (map (mask_row w) seqs),
           if with_tti then Some (replicate (length seqs * w) 0) else None)"
  using fill_rows [of "[]" 0 w "[]" seqs "uint pad"] by (simp add: build_tensors_from_ids_def Let_def)

lemma chunk_rows_concat: "(\<And>r. r \<in> set rows \<Longrightarrow> length r = w) \<Longrightarrow> chunk_rows (length rows) w (concat rows) = rows"
  by (induction rows) auto

lemma chunk_mask:
  "chunk_rows (length seqs) w (mask_i64_to_f32 (concat (map (mask_row w) seqs))) =
     map (\<lambda>sq. mask_i64_to_f32 (mask_row w sq)) seqs"
proof -
  let ?rows = "map (\<lambda>sq. mask_i64_to_f32 (mask_row w sq)) seqs"
  have "mask_i64_to_f32 (concat (map (mask_row w) seqs)) = concat ?rows"
    by (simp add: mask_i64_to_f32_def map_concat comp_def)
  moreover have "chunk_rows (length ?rows) w (concat ?rows) = ?rows"
    by (rule chunk_rows_concat) (auto simp: mask_i64_to_f32_def)
  ultimately show ?thesis by simp
qed

lemma mask_bits: "f32_sm (f32_of_int 0) = 0" "f32_sm (f32_of_int 1) \<noteq> 0"
  by (simp_all add: f32_of_int_def fl_round_def rnd_def Let_def fmt32_def ilog2_def blen.simps pow2_def round_half_even_def
      f32_of_fl_def f32_sm_def f32_u_def)

lemma real_tokens_mask: "real_tokens w (mask_i64_to_f32 (mask_row w sq)) = min (length sq) w"
proof -
  have nth: "f32_sm (mask_i64_to_f32 (mask_row w sq) ! j) = 0 \<longleftrightarrow> length sq \<le> j" if "j < w" for j
    using that mask_bits by (auto simp: mask_i64_to_f32_def mask_row_def nth_append)
  let ?P = "\<lambda>j. f32_sm (mask_i64_to_f32 (mask_row w sq) ! j) = 0"
  have len: "length (mask_i64_to_f32 (mask_row w sq)) = w" by (simp add: mask_i64_to_f32_def)
  show ?thesis
  proof (cases "w \<le> length sq")
    case True
    then have "List.find ?P [0..<w] = None"
      using nth by (auto simp: find_None_iff)
    with True show ?thesis by (simp add: real_tokens_def len)
  next
    case False
    then have "List.find ?P [0..<w] = Some (length sq)"
      using nth by (auto simp: find_Some_iff intro!: exI [of _ "length sq"])
    with False show ?thesis by (simp add: real_tokens_def len)
  qed
qed

lemma pool_rows_masked:
  "list_all2 (\<lambda>row sq. length row = w \<and> take (min (length sq) w) row = h sq) rows seqs \<Longrightarrow>
   pool_rows w dm rows (map (\<lambda>sq. mask_i64_to_f32 (mask_row w sq)) seqs) = Some (map (\<lambda>sq. pool_row dm (h sq)) seqs)"
  by (induction rule: list_all2_induct) (auto simp: real_tokens_mask Let_def)

section \<open>Lemmas: padding and passes\<close>

text \<open>
  What the code relies on of an ONNX session: on tensors built with a prefix mask it returns
  an output of the expected shape in which the vectors at the real positions of a row depend
  on the tokens of that row alone, \<open>hid\<close> being the model's function of one sequence.
\<close>

definition row_local :: "EmbedModel \<Rightarrow> (token_seq \<Rightarrow> f32 list list) \<Rightarrow> session_fn \<Rightarrow> bool" where
  "row_local m hid session \<longleftrightarrow>
     (\<forall>seqs w t. seqs \<noteq> [] \<longrightarrow> 0 < w \<longrightarrow>
        build_tensors_from_ids seqs (length seqs) w (em_pad_id m) (em_has_token_type_ids m) = Some t \<longrightarrow>
        (\<exists>rows. session (em_arena_shrink m) t (length seqs) w =
             RunOk \<lparr>ro_shape = [length seqs, w, em_dim m], ro_rows = rows\<rparr> \<and>
           list_all2 (\<lambda>row sq. length row = w \<and> take (min (length sq) w) row = hid (take w sq)) rows seqs))"

lemma fold_max_le_iff: "fold max xs (a::nat) \<le> b \<longleftrightarrow> a \<le> b \<and> (\<forall>x \<in> set xs. x \<le> b)"
  by (induction xs arbitrary: a) auto

lemma pad_seq_len_pos: "0 < cap \<Longrightarrow> cap \<le> 2 ^ 63 \<Longrightarrow> n \<le> cap \<Longrightarrow> 0 < pad_seq_len n cap"
  using next_power_of_two_bounds(1) [of n] by (auto simp: pad_seq_len_def)

lemma pad_seq_len_range: "0 < cap \<Longrightarrow> cap \<le> 2 ^ 63 \<Longrightarrow> n \<le> cap \<Longrightarrow> n \<le> pad_seq_len n cap \<and> pad_seq_len n cap \<le> cap"
  using next_power_of_two_bounds(1) [of n] by (auto simp: pad_seq_len_def)

lemma pass_width_take:
  assumes "0 < em_max_len m" "em_max_len m \<le> 2 ^ 63" "sq \<in> set seqs"
  shows "take (pass_width m seqs) sq = take (em_max_len m) sq"
proof -
  let ?n = "min (fold max (map length seqs) 0) (em_max_len m)"
  have r: "?n \<le> pass_width m seqs \<and> pass_width m seqs \<le> em_max_len m"
    unfolding pass_width_def using assms by (intro pad_seq_len_range) auto
  have "length sq \<le> fold max (map length seqs) 0"
    using fold_max_le_iff [of "map length seqs" 0 "fold max (map length seqs) 0"] assms(3) by auto
  then show ?thesis
    using r by (cases "length sq \<le> em_max_len m") auto
qed

lemma one_pass_eq:
  assumes "row_local m hid session" "0 < em_max_len m" "em_max_len m \<le> 2 ^ 63"
  shows "embed_tokens_one_pass m (Inr session) seqs =
    Some (Inr (map (\<lambda>sq. pool_row (em_dim m) (hid (take (em_max_len m) sq))) seqs))"
proof (cases "seqs = []")
  case False
  let ?w = "pass_width m seqs"
  have w: "0 < ?w"
    unfolding pass_width_def using assms by (intro pad_seq_len_pos) auto
  obtain ids msk tti where b: "build_tensors_from_ids seqs (length seqs) ?w (em_pad_id m) (em_has_token_type_ids m) =
      Some (ids, msk, tti)" and msk: "msk = concat (map (mask_row ?w) seqs)"
    by (simp add: build_tensors_rows)
  obtain rows where rows: "session (em_arena_shrink m) (ids, msk, tti) (length seqs) ?w =
      RunOk \<lparr>ro_shape = [length seqs, ?w, em_dim m], ro_rows = rows\<rparr>"
    and l: "list_all2 (\<lambda>row sq. length row = ?w \<and> take (min (length sq) ?w) row = hid (take ?w sq)) rows seqs"
    using assms(1) False w b unfolding row_local_def by blast
  have "map (\<lambda>sq. pool_row (em_dim m) (hid (take ?w sq))) seqs =
      map (\<lambda>sq. pool_row (em_dim m) (hid (take (em_max_len m) sq))) seqs"
    using pass_width_take [OF assms(2,3)] by simp
  then show ?thesis
    using False rows pool_rows_masked [OF l, of "em_dim m"]
    by (simp add: embed_tokens_one_pass_def Let_def b mean_pool_normalize_def msk chunk_mask)
qed (simp add: embed_tokens_one_pass_def)

lemma fold_zip_map: "fold (\<lambda>(i, v) out. out[i := v]) (zip g (map f g)) out = fold (\<lambda>i out. out[i := f i]) g out"
  by (induction g arbitrary: out) auto

lemma fold_update:
  "length (fold (\<lambda>i out. out[i := f i]) is out) = length out \<and>
   (\<forall>j < length out. fold (\<lambda>i out. out[i := f i]) is out ! j = (if j \<in> set is then f j else out ! j))"
  by (induction "is" arbitrary: out) (auto simp: nth_list_update)

lemma subbatch_loop_eq:
  assumes "\<And>k. \<exists>session. acq k = Inr session \<and> row_local m hid session" "0 < em_max_len m" "em_max_len m \<le> 2 ^ 63"
  shows "subbatch_loop m acq seqs k gs out =
    Some (Inr (fold (\<lambda>i out. out[i := pool_row (em_dim m) (hid (take (em_max_len m) (seqs ! i)))]) (concat gs) out))"
proof (induction gs arbitrary: k out)
  case (Cons g gs)
  obtain session where "acq k = Inr session" "row_local m hid session" using assms(1) by blast
  then have "embed_tokens_one_pass m (acq k) (map (\<lambda>i. seqs ! i) g) =
      Some (Inr (map (\<lambda>i. pool_row (em_dim m) (hid (take (em_max_len m) (seqs ! i)))) g))"
    using one_pass_eq [of m hid session] assms(2,3) by (simp add: comp_def)
  with Cons.IH show ?case by (simp add: fold_zip_map)
qed simp

lemma model_embed_tokens_map:
  assumes "\<And>k. \<exists>session. acq k = Inr session \<and> row_local m hid session" "0 < em_max_len m" "em_max_len m \<le> 2 ^ 63"
  shows "model_embed_tokens m acq seqs =
    Some (Inr (map (\<lambda>sq. pool_row (em_dim m) (hid (take (em_max_len m) sq))) seqs))"
proof -
  obtain session where "acq 0 = Inr session" "row_local m hid session" using assms(1) by blast
  note one = one_pass_eq [OF this(2) assms(2,3), folded this(1)]
  let ?groups = "plan_subbatches (capped_lens m seqs) (em_subbatch_ratio m)"
  let ?f = "\<lambda>i. pool_row (em_dim m) (hid (take (em_max_len m) (seqs ! i)))"
  have "set (concat ?groups) = {0..<length seqs}"
    using arg_cong [OF plan_subbatches_perm, of set_mset] by (simp add: capped_lens_def)
  then have "fold (\<lambda>i out. out[i := ?f i]) (concat ?groups) (replicate (length seqs) []) =
      map (\<lambda>sq. pool_row (em_dim m) (hid (take (em_max_len m) sq))) seqs"
    using fold_update [of ?f "concat ?groups" "replicate (length seqs) []"] by (intro nth_equalityI) auto
  then show ?thesis
    using subbatch_loop_eq [OF assms] one by (simp add: model_embed_tokens_def Let_def)
qed

lemma next_power_of_two_mono:
  assumes "0 < n" "n \<le> n'" "n' \<le> 2 ^ 63"
  shows "next_power_of_two n \<le> next_power_of_two n'"
proof (rule ccontr)
  obtain a b where ab: "next_power_of_two n = 2 ^ a" "next_power_of_two n' = 2 ^ b"
    using assms next_power_of_two_bounds(3) by (meson le_trans less_le_trans)
  assume "\<not> ?thesis"
  then have "Suc b \<le> a" using ab by simp
  then have "(2::nat) ^ Suc b \<le> 2 ^ a" by (rule power_increasing) simp
  moreover have "n' \<le> 2 ^ b" "2 ^ a < 2 * n"
    using assms next_power_of_two_bounds(1) [of n'] next_power_of_two_bounds(2) [of n] ab by simp_all
  ultimately show False using assms(2) by simp
qed

lemma pad_seq_len_mono:
  assumes "0 < cap" "cap \<le> 2 ^ 63" "n \<le> n'" "n' \<le> cap"
  shows "pad_seq_len n cap \<le> pad_seq_len n' cap"
proof (cases "n \<le> 1")
  case True
  then show ?thesis
    using pad_seq_len_pos [of cap n'] assms by (simp add: pad_seq_len_def)
next
  case False
  then have "next_power_of_two n \<le> next_power_of_two n'"
    using assms by (intro next_power_of_two_mono) auto
  with False assms show ?thesis by (auto simp: pad_seq_len_def)
qed

lemma padded_positions_le:
  assumes "0 < em_max_len m" "em_max_len m \<le> 2 ^ 63" "list_all (\<lambda>l. l \<le> em_max_len m) lens"
    and "set (concat groups) \<subseteq> {0..<length lens}"
  shows "padded_positions m lens groups \<le> length (concat groups) * pad_seq_len (fold max lens 0) (em_max_len m)"
  using assms(4)
proof (induction groups)
  case (Cons g groups)
  have "fold max lens 0 \<le> em_max_len m"
    using assms(3) by (simp add: fold_max_le_iff list_all_iff)
  moreover have "fold max (map (\<lambda>i. lens ! i) g) 0 \<le> fold max lens 0"
    using Cons.prems fold_max_le_iff [of lens 0 "fold max lens 0"] by (subst fold_max_le_iff) (auto simp: subset_iff)
  ultimately have "pad_seq_len (fold max (map (\<lambda>i. lens ! i) g) 0) (em_max_len m) \<le> pad_seq_len (fold max lens 0) (em_max_len m)"
    using assms(1,2) by (intro pad_seq_len_mono)
  then show ?case
    using Cons by (simp add: padded_positions_def add_mult_distrib add_mono)
qed (simp add: padded_positions_def)

lemma sorted_plan_order:
  "sorted_wrt (\<lambda>i j. (- int (lens ! i), i) \<le> (- int (lens ! j), j)) (sort_key (\<lambda>i. (- int (lens ! i), i)) xs)"
  using sorted_sort_key [of "\<lambda>i. (- int (lens ! i), i)" xs] by (simp add: sorted_map)

section \<open>Properties\<close>

text \<open>
  C17. Padding and sub-batching are transparent. If every pass gets a session, and the sessions
  compute the vectors of a row's real positions from that row's tokens alone, then embedding
  a request of any size returns, for each token sequence in the order of the request, the
  pooled and normalised vector of that sequence alone cut to the model's length: neither the
  other sequences, nor the padding, nor the split into groups can be observed.
\<close>

theorem embed_tokens_transparent:
  assumes "\<And>k. \<exists>session. acq k = Inr session \<and> row_local m hid session"
    and "0 < em_max_len m" and "em_max_len m \<le> 2 ^ 63"
  shows "model_embed_tokens m acq seqs =
    Some (Inr (map (\<lambda>sq. pool_row (em_dim m) (hid (take (em_max_len m) sq))) seqs))"
  using assms by (rule model_embed_tokens_map)

text \<open>
  C25. The plan of sub-batches puts every sequence into exactly one group and no group is
  empty; a ratio that is not above one, or is no number, gives a single group; otherwise the
  groups go from longest to shortest, ties by position, and every member of a group passes
  the ratio test against the group's longest. A split request never pads to more positions
  than one pass over all of it would.
\<close>

theorem plan_subbatches_spec:
  "mset (concat (plan_subbatches lens ratio)) = mset [0..<length lens] \<and> [] \<notin> set (plan_subbatches lens ratio) \<and>
   (if ratio = NaN \<or> fl_le ratio (Fin 1) then length (plan_subbatches lens ratio) \<le> 1
    else list_all (group_ok lens ratio) (plan_subbatches lens ratio) \<and>
      sorted_wrt (\<lambda>i j. (- int (lens ! i), i) \<le> (- int (lens ! j), j)) (concat (plan_subbatches lens ratio))) \<and>
   (0 < em_max_len m \<longrightarrow> em_max_len m \<le> 2 ^ 63 \<longrightarrow> list_all (\<lambda>l. l \<le> em_max_len m) lens \<longrightarrow>
      padded_positions m lens (plan_subbatches lens ratio) \<le> length lens * pad_seq_len (fold max lens 0) (em_max_len m))"
proof -
  let ?p = "plan_subbatches lens ratio"
  have perm: "mset (concat ?p) = mset [0..<length lens]" by (rule plan_subbatches_perm)
  have "set (concat ?p) \<subseteq> {0..<length lens}" and len: "length (concat ?p) = length lens"
    using arg_cong [OF perm, of set_mset] arg_cong [OF perm, of size] by simp_all
  then have "padded_positions m lens ?p \<le> length lens * pad_seq_len (fold max lens 0) (em_max_len m)"
    if "0 < em_max_len m" "em_max_len m \<le> 2 ^ 63" "list_all (\<lambda>l. l \<le> em_max_len m) lens"
    using padded_positions_le [OF that, of ?p] by simp
  moreover have "list_all (group_ok lens ratio) (plan_loop lens ratio order [] [] 0)" for order
    by (rule plan_loop_group_ok) (simp_all add: group_ok_def)
  ultimately show ?thesis
    using perm plan_subbatches_nonempty [of lens ratio] sorted_plan_order [of lens "[0..<length lens]"]
    by (auto simp: plan_subbatches_def concat_plan_loop)
qed

section \<open>Witnesses\<close>

definition wit_embed_model :: EmbedModel where
  "wit_embed_model = \<lparr>em_name = ''m'', em_pool_size = 1, em_dim = 1, em_max_len = 4, em_pad_id = 0,
     em_has_token_type_ids = False, em_num_heads = 12, em_subbatch_ratio = Fin 2, em_arena_shrink = False, em_evict_tick = None\<rparr>"

definition wit_hidden :: "token_seq \<Rightarrow> f32 list list" where
  "wit_hidden sq = map (\<lambda>t. [f32_of_int (uint t)]) sq"

definition wit_session_fn :: session_fn where
  "wit_session_fn shrink t b w =
     RunOk \<lparr>ro_shape = [b, w, 1], ro_rows = chunk_rows b w (map (\<lambda>i. [f32_of_int i]) (fst t))\<rparr>"

lemma wit_row_local: "row_local wit_embed_model wit_hidden wit_session_fn"
proof -
  have "list_all2 (\<lambda>row sq. length row = w \<and> take (min (length sq) w) row = wit_hidden (take w sq))
      (chunk_rows (length seqs) w (map (\<lambda>i. [f32_of_int i]) (concat (map (ids_row w 0) seqs)))) seqs" for w seqs
    by (induction seqs) (auto simp: ids_row_def wit_hidden_def min_def)
  then show ?thesis
    by (auto simp: row_local_def build_tensors_rows wit_session_fn_def wit_embed_model_def)
qed

theorem embed_tokens_transparent_witness:
  "model_embed_tokens wit_embed_model (\<lambda>k. Inr wit_session_fn) [[5], [6, 7, 8], [1, 2, 3, 4, 5]] =
     Some (Inr [pool_row 1 (wit_hidden [5]), pool_row 1 (wit_hidden [6, 7, 8]), pool_row 1 (wit_hidden [1, 2, 3, 4])])"
proof -
  have "\<exists>session. (Inr wit_session_fn :: AcquireError + session_fn) = Inr session \<and> row_local wit_embed_model wit_hidden session"
    using wit_row_local by blast
  then show ?thesis
    using embed_tokens_transparent [where acq = "\<lambda>k. Inr wit_session_fn" and m = wit_embed_model and hid = wit_hidden
        and seqs = "[[5], [6, 7, 8], [1, 2, 3, 4, 5]]"]
    by (simp add: wit_embed_model_def)
qed

theorem plan_subbatches_spec_witness:
  "padded_positions wit_embed_model [3, 1, 2] (plan_subbatches [3, 1, 2] (Fin 2)) \<le> 12 \<and>
   length (plan_subbatches [3, 1, 2] (Fin 1)) \<le> 1"
  using plan_subbatches_spec [of "[3, 1, 2]" "Fin 2" wit_embed_model] plan_subbatches_spec [of "[3, 1, 2]" "Fin 1" wit_embed_model]
  by (simp add: wit_embed_model_def pad_seq_len_def next_power_of_two_def pow2_from.simps)

end
