(* ===== verification/Ipc.thy ===== *)
theory Ipc
  imports Floats
begin

text \<open>
  The wire between the supervisor and a worker process: the messages of
  \<open>src/src/ipc/protocol.rs\<close>, the length-prefixed frames of \<open>src/src/ipc/frame.rs\<close> and the
  client of \<open>src/src/ipc/client.rs\<close>. The serialiser (postcard) is a pair of functions, the
  peer of a connection a function from the bytes written to the bytes that can be read. The
  client waits without a limit for a permit and for the answer, so its calls may not return:
  their results are options, with \<open>None\<close> for a call that never returns.
\<close>

section \<open>Messages\<close>

record EmbedRequest =
  em_request_id :: "64 word"
  em_model :: string
  em_texts :: "string list"
  em_max_seq_len :: "32 word"

record RerankRequest =
  rr_request_id :: "64 word"
  rr_model :: string
  rr_query :: string
  rr_documents :: "string list"
  rr_max_seq_len :: "32 word"

record SpladeRequest =
  sp_request_id :: "64 word"
  sp_model :: string
  sp_texts :: "string list"
  sp_max_seq_len :: "32 word"
  sp_top_k :: "32 word"
  sp_min_weight :: f32

datatype WorkerRequest = ReqEmbed EmbedRequest | ReqRerank RerankRequest | ReqSplade SpladeRequest

fun req_request_id :: "WorkerRequest \<Rightarrow> 64 word" where
  "req_request_id (ReqEmbed r) = em_request_id r"
| "req_request_id (ReqRerank r) = rr_request_id r"
| "req_request_id (ReqSplade r) = sp_request_id r"

fun req_kind :: "WorkerRequest \<Rightarrow> string" where
  "req_kind (ReqEmbed _) = ''embed''"
| "req_kind (ReqRerank _) = ''rerank''"
| "req_kind (ReqSplade _) = ''splade''"

record EmbedResponseOk =
  eo_request_id :: "64 word"
  eo_vectors :: "f32 list list"
  eo_dims :: "32 word"

record RerankResponseOk =
  ro_request_id :: "64 word"
  ro_scores :: "f32 list"

record SpladeResponseOk =
  so_request_id :: "64 word"
  so_sparse :: "(32 word \<times> f32) list list"

datatype WorkerResponse =
    RespEmbed EmbedResponseOk
  | RespRerank RerankResponseOk
  | RespSplade SpladeResponseOk
  | RespErr "64 word" string

fun resp_request_id :: "WorkerResponse \<Rightarrow> 64 word" where
  "resp_request_id (RespEmbed r) = eo_request_id r"
| "resp_request_id (RespRerank r) = ro_request_id r"
| "resp_request_id (RespSplade r) = so_request_id r"
| "resp_request_id (RespErr i _) = i"

fun resp_kind :: "WorkerResponse \<Rightarrow> string" where
  "resp_kind (RespEmbed _) = ''embed''"
| "resp_kind (RespRerank _) = ''rerank''"
| "resp_kind (RespSplade _) = ''splade''"
| "resp_kind (RespErr _ _) = ''err''"

section \<open>Frames\<close>

type_synonym bytes = "8 word list"

datatype io_error = InvalidData string | InvalidInput string | UnexpectedEof | OsError string

definition MAX_FRAME_BYTES :: nat where
  "MAX_FRAME_BYTES = 64 * 1024 * 1024"

text \<open>\<open>write_u32_le\<close> and \<open>read_u32_le\<close>.\<close>

definition u32_le :: "nat \<Rightarrow> bytes" where
  "u32_le n = map of_nat [n mod 256, n div 256 mod 256, n div 65536 mod 256, n div 16777216 mod 256]"

fun read_u32_le :: "bytes \<Rightarrow> io_error + nat \<times> bytes" where
  "read_u32_le (a # b # c # d # rest) =
     Inr (unat a + 256 * unat b + 65536 * unat c + 16777216 * unat d, rest)"
| "read_u32_le _ = Inl UnexpectedEof"

definition read_exact :: "nat \<Rightarrow> bytes \<Rightarrow> io_error + bytes \<times> bytes" where
  "read_exact n bs = (if length bs < n then Inl UnexpectedEof else Inr (take n bs, drop n bs))"

definition write_frame :: "('a \<Rightarrow> string + bytes) \<Rightarrow> 'a \<Rightarrow> io_error + bytes" where
  "write_frame enc v =
     (case enc v of
        Inl e \<Rightarrow> Inl (InvalidData e)
      | Inr bs \<Rightarrow> if MAX_FRAME_BYTES < length bs then Inl (InvalidData ''frame too large'')
                  else Inr (u32_le (length bs) @ bs))"

definition read_frame :: "(bytes \<Rightarrow> string + 'a) \<Rightarrow> bytes \<Rightarrow> io_error + 'a \<times> bytes" where
  "read_frame dec s =
     (case read_u32_le s of
        Inl e \<Rightarrow> Inl e
      | Inr (len, s1) \<Rightarrow>
          if MAX_FRAME_BYTES < len then Inl (InvalidData ''frame too large'')
          else (case read_exact len s1 of
              Inl e \<Rightarrow> Inl e
            | Inr (buf, s2) \<Rightarrow> (case dec buf of Inl e \<Rightarrow> Inl (InvalidData e) | Inr v \<Rightarrow> Inr (v, s2))))"

section \<open>The client\<close>

record WorkerClient =
  socket_path :: string
  permits :: nat
  request_counter :: "64 word"

text \<open>\<open>probe\<close> is the outcome of the throw-away connection.\<close>

definition connect :: "io_error option \<Rightarrow> string \<Rightarrow> nat \<Rightarrow> io_error + WorkerClient" where
  "connect probe path conns =
     (if conns = 0 then Inl (InvalidInput ''WorkerClient concurrency must be >= 1'')
      else case probe of Some e \<Rightarrow> Inl e
        | None \<Rightarrow> Inr \<lparr>socket_path = path, permits = conns, request_counter = 0\<rparr>)"

text \<open>
  The serialiser and the other end of a fresh connection: \<open>peer bs\<close> is what can be read back
  after \<open>bs\<close> was written, or the error of connecting. It is \<open>None\<close> if no permit of the
  semaphore becomes free, or if the worker takes the request and neither completes an answer
  nor closes the connection: nothing in the client limits these waits.
\<close>

record wire =
  enc_req :: "WorkerRequest \<Rightarrow> string + bytes"
  dec_resp :: "bytes \<Rightarrow> string + WorkerResponse"
  peer :: "bytes \<Rightarrow> (io_error + bytes) option"

definition accept_response :: "wire \<Rightarrow> WorkerRequest \<Rightarrow> bytes \<Rightarrow> io_error + WorkerResponse" where
  "accept_response w req back =
     bind_res (read_frame (dec_resp w) back) (\<lambda>(resp, _).
       if resp_request_id resp \<noteq> req_request_id req
       then Inl (InvalidData (''response id '' @ show_nat (unat (resp_request_id resp)) @
                              '' != request id '' @ show_nat (unat (req_request_id req))))
       else Inr resp)"

definition send_request :: "wire \<Rightarrow> WorkerRequest \<Rightarrow> (io_error + WorkerResponse) option" where
  "send_request w req =
     (case write_frame (enc_req w) req of
        Inl e \<Rightarrow> Some (Inl e)
      | Inr out \<Rightarrow> map_option (\<lambda>answer. bind_res answer (accept_response w req)) (peer w out))"

text \<open>\<open>fetch_add(1)\<close>: the old value, and the counter one further, wrapping at 64 bits.\<close>

definition fetch_id :: "WorkerClient \<Rightarrow> 64 word \<times> WorkerClient" where
  "fetch_id c = (request_counter c, c\<lparr>request_counter := request_counter c + 1\<rparr>)"

text \<open>The checks of the number of results.\<close>

definition check_embed :: "nat \<Rightarrow> WorkerResponse \<Rightarrow> io_error + WorkerResponse" where
  "check_embed n resp = (case resp of
     RespEmbed ok \<Rightarrow>
       if length (eo_vectors ok) \<noteq> n
       then Inl (InvalidData (''worker returned '' @ show_nat (length (eo_vectors ok)) @ '' vectors for '' @ show_nat n @ '' input texts''))
       else Inr resp
   | _ \<Rightarrow> Inr resp)"

definition check_rerank :: "nat \<Rightarrow> WorkerResponse \<Rightarrow> io_error + WorkerResponse" where
  "check_rerank n resp = (case resp of
     RespRerank ok \<Rightarrow>
       if length (ro_scores ok) \<noteq> n
       then Inl (InvalidData (''worker returned '' @ show_nat (length (ro_scores ok)) @ '' scores for '' @ show_nat n @ '' documents''))
       else Inr resp
   | _ \<Rightarrow> Inr resp)"

definition check_splade :: "nat \<Rightarrow> WorkerResponse \<Rightarrow> io_error + WorkerResponse" where
  "check_splade n resp = (case resp of
     RespSplade ok \<Rightarrow>
       if length (so_sparse ok) \<noteq> n
       then Inl (InvalidData (''worker returned '' @ show_nat (length (so_sparse ok)) @ '' sparse vectors for '' @ show_nat n @ '' texts''))
       else Inr resp
   | _ \<Rightarrow> Inr resp)"

definition client_dispatch_embed ::
  "wire \<Rightarrow> string \<Rightarrow> string list \<Rightarrow> 32 word \<Rightarrow> WorkerClient \<Rightarrow> (io_error + WorkerResponse) option \<times> WorkerClient" where
  "client_dispatch_embed w m texts msl c =
     (case fetch_id c of (i, c') \<Rightarrow>
       (map_option (\<lambda>answer. bind_res answer (check_embed (length texts)))
          (send_request w (ReqEmbed \<lparr>em_request_id = i, em_model = m, em_texts = texts, em_max_seq_len = msl\<rparr>)), c'))"

definition client_dispatch_rerank ::
  "wire \<Rightarrow> string \<Rightarrow> string \<Rightarrow> string list \<Rightarrow> 32 word \<Rightarrow> WorkerClient \<Rightarrow>
   (io_error + WorkerResponse) option \<times> WorkerClient" where
  "client_dispatch_rerank w m q docs msl c =
     (case fetch_id c of (i, c') \<Rightarrow>
       (map_option (\<lambda>answer. bind_res answer (check_rerank (length docs)))
          (send_request w (ReqRerank \<lparr>rr_request_id = i, rr_model = m, rr_query = q, rr_documents = docs, rr_max_seq_len = msl\<rparr>)), c'))"

definition client_dispatch_splade ::
  "wire \<Rightarrow> string \<Rightarrow> string list \<Rightarrow> 32 word \<Rightarrow> 32 word \<Rightarrow> f32 \<Rightarrow> WorkerClient \<Rightarrow>
   (io_error + WorkerResponse) option \<times> WorkerClient" where
  "client_dispatch_splade w m texts msl k mw c =
     (case fetch_id c of (i, c') \<Rightarrow>
       (map_option (\<lambda>answer. bind_res answer (check_splade (length texts)))
          (send_request w (ReqSplade \<lparr>sp_request_id = i, sp_model = m, sp_texts = texts, sp_max_seq_len = msl,
                                        sp_top_k = k, sp_min_weight = mw\<rparr>)), c'))"

section \<open>Lemmas\<close>

lemma le_digits:
  assumes "n < 4294967296"
  shows "n mod 256 + 256 * (n div 256 mod 256) + 65536 * (n div 65536 mod 256) +
    16777216 * (n div 16777216 mod 256) = (n::nat)"
proof -
  have q: "n div 65536 = n div 256 div 256" "n div 16777216 = n div 256 div 256 div 256"
    by (simp_all add: div_mult2_eq [symmetric])
  have "n div 256 div 256 div 256 < 256"
    using assms by (simp add: div_mult2_eq [symmetric] less_mult_imp_div_less)
  then have "n div 256 div 256 div 256 mod 256 = n div 256 div 256 div 256"
    by (rule mod_less)
  then show ?thesis
    unfolding q
    using mult_div_mod_eq [of 256 n] mult_div_mod_eq [of 256 "n div 256"] mult_div_mod_eq [of 256 "n div 256 div 256"]
    by linarith
qed

lemma unat_byte [simp]: "unat (of_nat (n mod 256) :: 8 word) = n mod 256"
  by (simp add: unat_of_nat)

lemma read_u32_le_u32_le:
  assumes "n < 4294967296"
  shows "read_u32_le (u32_le n @ rest) = Inr (n, rest)"
  by (simp only: u32_le_def list.map append_Cons append_Nil read_u32_le.simps unat_byte le_digits [OF assms])

lemma read_write_frame:
  assumes "write_frame enc v = Inr out" and "\<And>bs. enc v = Inr bs \<Longrightarrow> dec bs = Inr v"
  shows "read_frame dec (out @ rest) = Inr (v, rest)"
proof -
  obtain bs where bs: "enc v = Inr bs" and len: "length bs \<le> MAX_FRAME_BYTES" and out: "out = u32_le (length bs) @ bs"
    using assms(1) by (auto simp: write_frame_def split: sum.splits if_splits)
  from len have "length bs < 4294967296" by (simp add: MAX_FRAME_BYTES_def)
  then show ?thesis
    using assms(2) [OF bs] len by (simp add: read_frame_def out read_u32_le_u32_le read_exact_def)
qed

text \<open>Reading several frames off one stream.\<close>

fun read_frames :: "(bytes \<Rightarrow> string + 'a) \<Rightarrow> nat \<Rightarrow> bytes \<Rightarrow> io_error + 'a list \<times> bytes" where
  "read_frames dec 0 s = Inr ([], s)"
| "read_frames dec (Suc n) s =
     bind_res (read_frame dec s) (\<lambda>(v, s1). bind_res (read_frames dec n s1) (\<lambda>(vs, s2). Inr (v # vs, s2)))"

lemma u32_le_digits:
  assumes "x0 < 256" "x1 < 256" "x2 < 256" "x3 < 256"
  shows "u32_le (x0 + 256 * x1 + 65536 * x2 + 16777216 * x3) = map of_nat [x0, x1, x2, x3]"
proof -
  define n where "n = x0 + 256 * x1 + 65536 * x2 + 16777216 * x3"
  have n: "n = x0 + 256 * (x1 + 256 * (x2 + 256 * x3))" by (simp add: n_def)
  have q: "n div 65536 = n div 256 div 256" "n div 16777216 = n div 256 div 256 div 256"
    by (simp_all add: div_mult2_eq [symmetric])
  have d: "(x + 256 * y) mod 256 = x" "(x + 256 * y) div 256 = y" if "x < 256" for x y :: nat
    using that by auto
  show ?thesis
    unfolding u32_le_def n_def [symmetric] q unfolding n by (simp only: d assms mod_less)
qed

lemma read_u32_le_inverse: "read_u32_le s = Inr (n, rest) \<Longrightarrow> s = u32_le n @ rest"
proof (induction s rule: read_u32_le.induct)
  case (1 a b c d r)
  have lt: "unat x < 256" for x :: "8 word"
    using unsigned_less [where 'a = nat, of x] by simp
  have "u32_le n = map of_nat [unat a, unat b, unat c, unat d]"
    using 1 by (auto simp only: read_u32_le.simps sum.inject prod.inject intro!: u32_le_digits lt)
  then show ?case using 1 by simp
qed auto

lemma read_u32_le_bound: "read_u32_le s = Inr (n, rest) \<Longrightarrow> n < 2 ^ 32"
proof (induction s rule: read_u32_le.induct)
  case (1 a b c d r)
  have "unat x \<le> 255" for x :: "8 word"
    using unsigned_less [where 'a = nat, of x] by simp
  from this [of a] this [of b] this [of c] this [of d] 1 show ?case by auto
qed auto

text \<open>What passes the checks of the three dispatches.\<close>

lemma cardinality_check_Inr:
  "check_embed n resp = Inr r \<longleftrightarrow> r = resp \<and> (\<forall>ok. resp = RespEmbed ok \<longrightarrow> length (eo_vectors ok) = n)"
  "check_rerank n resp = Inr r \<longleftrightarrow> r = resp \<and> (\<forall>ok. resp = RespRerank ok \<longrightarrow> length (ro_scores ok) = n)"
  "check_splade n resp = Inr r \<longleftrightarrow> r = resp \<and> (\<forall>ok. resp = RespSplade ok \<longrightarrow> length (so_sparse ok) = n)"
  by (cases resp; auto simp: check_embed_def check_rerank_def check_splade_def)+

lemma send_request_id: "send_request w req = Some (Inr resp) \<Longrightarrow> resp_request_id resp = req_request_id req"
  by (auto simp: send_request_def accept_response_def bind_res_Inr_iff split: sum.splits if_splits)

text \<open>A response the client hands on has passed its checks.\<close>

lemma client_dispatch_Inr:
  "fst (client_dispatch_embed w m texts msl c) = Some (Inr resp) \<Longrightarrow>
     resp_request_id resp = request_counter c \<and> (\<forall>ok. resp = RespEmbed ok \<longrightarrow> length (eo_vectors ok) = length texts)"
  "fst (client_dispatch_rerank w m q docs msl c) = Some (Inr resp) \<Longrightarrow>
     resp_request_id resp = request_counter c \<and> (\<forall>ok. resp = RespRerank ok \<longrightarrow> length (ro_scores ok) = length docs)"
  "fst (client_dispatch_splade w m texts msl k mw c) = Some (Inr resp) \<Longrightarrow>
     resp_request_id resp = request_counter c \<and> (\<forall>ok. resp = RespSplade ok \<longrightarrow> length (so_sparse ok) = length texts)"
  by (auto simp: client_dispatch_embed_def client_dispatch_rerank_def client_dispatch_splade_def fetch_id_def
      bind_res_Inr_iff cardinality_check_Inr dest!: send_request_id)

section \<open>Properties\<close>

text \<open>
  C36. A stream of frames can be read back: if the serialiser inverts itself on the messages
  written, reading as many frames off the concatenation gives exactly these messages and
  leaves what follows.
\<close>

theorem frames_roundtrip:
  assumes "list_all2 (\<lambda>v out. write_frame enc v = Inr out) vs outs"
    and "\<And>v bs. v \<in> set vs \<Longrightarrow> enc v = Inr bs \<Longrightarrow> dec bs = Inr v"
  shows "read_frames dec (length vs) (concat outs @ rest) = Inr (vs, rest)"
  using assms
proof (induction vs outs rule: list_all2_induct)
  case (Cons v vs out outs)
  have "read_frame dec (out @ concat outs @ rest) = Inr (v, concat outs @ rest)"
    using Cons by (intro read_write_frame [of enc]) auto
  with Cons show ?case by simp
qed simp

text \<open>
  The reader takes exactly one frame: a message is returned only if the stream starts with
  a length prefix of at most 64 MiB followed by that many bytes that decode to it, and the
  rest of the stream is untouched; a longer announced length, a truncated stream and an
  undecodable body are errors.
\<close>

lemma read_frame_spec:
  "read_frame dec s = Inr (v, rest) \<longleftrightarrow>
     (\<exists>buf. s = u32_le (length buf) @ buf @ rest \<and> length buf \<le> MAX_FRAME_BYTES \<and> dec buf = Inr v)"
proof
  assume "read_frame dec s = Inr (v, rest)"
  then obtain len s1 where "read_u32_le s = Inr (len, s1)" and "len \<le> MAX_FRAME_BYTES"
    and "len \<le> length s1" and "dec (take len s1) = Inr v" and "rest = drop len s1"
    by (auto simp: read_frame_def read_exact_def split: sum.splits if_splits)
  then show "\<exists>buf. s = u32_le (length buf) @ buf @ rest \<and> length buf \<le> MAX_FRAME_BYTES \<and> dec buf = Inr v"
    by (intro exI [of _ "take len s1"]) (auto dest: read_u32_le_inverse)
next
  assume "\<exists>buf. s = u32_le (length buf) @ buf @ rest \<and> length buf \<le> MAX_FRAME_BYTES \<and> dec buf = Inr v"
  then show "read_frame dec s = Inr (v, rest)"
    by (auto simp: read_frame_def read_u32_le_u32_le read_exact_def MAX_FRAME_BYTES_def)
qed

text \<open>
  C0. What the client accepts. Whatever the peer sends, a response the client returns carries
  the id of the request it sent, an embedding response has one vector per text, a rerank
  response one score per document and a sparse response one vector per text; every dispatch
  advances the request counter by one (modulo \<open>2 ^ 64\<close>), whether it succeeds, fails or never
  returns; and it returns exactly if the request cannot be written or the peer answers.
\<close>

theorem client_checks_response:
  "(case client_dispatch_embed w m texts msl c of (r, c') \<Rightarrow>
      request_counter c' = request_counter c + 1 \<and>
      (\<forall>resp. r = Some (Inr resp) \<longrightarrow> resp_request_id resp = request_counter c \<and>
         (\<forall>ok. resp = RespEmbed ok \<longrightarrow> length (eo_vectors ok) = length texts)) \<and>
      (r = None \<longleftrightarrow> (\<exists>out. write_frame (enc_req w) (ReqEmbed \<lparr>em_request_id = request_counter c, em_model = m, em_texts = texts,
         em_max_seq_len = msl\<rparr>) = Inr out \<and> peer w out = None))) \<and>
   (case client_dispatch_rerank w m q docs msl c of (r, c') \<Rightarrow>
      request_counter c' = request_counter c + 1 \<and>
      (\<forall>resp. r = Some (Inr resp) \<longrightarrow> resp_request_id resp = request_counter c \<and>
         (\<forall>ok. resp = RespRerank ok \<longrightarrow> length (ro_scores ok) = length docs)) \<and>
      (r = None \<longleftrightarrow> (\<exists>out. write_frame (enc_req w) (ReqRerank \<lparr>rr_request_id = request_counter c, rr_model = m, rr_query = q,
         rr_documents = docs, rr_max_seq_len = msl\<rparr>) = Inr out \<and> peer w out = None))) \<and>
   (case client_dispatch_splade w m texts msl k mw c of (r, c') \<Rightarrow>
      request_counter c' = request_counter c + 1 \<and>
      (\<forall>resp. r = Some (Inr resp) \<longrightarrow> resp_request_id resp = request_counter c \<and>
         (\<forall>ok. resp = RespSplade ok \<longrightarrow> length (so_sparse ok) = length texts)) \<and>
      (r = None \<longleftrightarrow> (\<exists>out. write_frame (enc_req w) (ReqSplade \<lparr>sp_request_id = request_counter c, sp_model = m, sp_texts = texts,
         sp_max_seq_len = msl, sp_top_k = k, sp_min_weight = mw\<rparr>) = Inr out \<and> peer w out = None)))"
  using client_dispatch_Inr [where w = w and m = m and msl = msl and c = c]
  by (auto simp: client_dispatch_embed_def client_dispatch_rerank_def client_dispatch_splade_def fetch_id_def send_request_def
      split: sum.splits)

section \<open>Witnesses\<close>

definition wit_short_wire :: wire where
  "wit_short_wire = \<lparr>enc_req = \<lambda>_. Inr [], dec_resp = \<lambda>_. Inr (RespRerank \<lparr>ro_request_id = 7, ro_scores = []\<rparr>),
     peer = \<lambda>_. Some (Inr [0, 0, 0, 0])\<rparr>"

theorem client_checks_response_witness:
  "fst (client_dispatch_rerank wit_short_wire ''m'' ''q'' [''d''] 0 \<lparr>socket_path = ''s'', permits = 1, request_counter = 7\<rparr>) \<noteq>
     Some (Inr (RespRerank \<lparr>ro_request_id = 7, ro_scores = []\<rparr>))"
  using client_checks_response [where w = wit_short_wire and m = "''m''" and q = "''q''"
      and docs = "[''d'']" and msl = 0 and c = "\<lparr>socket_path = ''s'', permits = 1, request_counter = 7\<rparr>",
      THEN conjunct2, THEN conjunct1]
  by (auto split: prod.splits)

theorem frames_roundtrip_witness:
  "read_frames (\<lambda>bs. Inr (map unat bs)) 2 (concat [[2, 0, 0, 0, 7, 8], [0, 0, 0, 0]] @ [5]) = Inr ([[7, 8], []], [5])"
proof -
  have w: "list_all2 (\<lambda>v out. write_frame (\<lambda>v. Inr (map of_nat v)) v = Inr out) [[7, 8], [] :: nat list]
      [[2, 0, 0, 0, 7, 8], [0, 0, 0, 0]]"
    by (simp add: write_frame_def MAX_FRAME_BYTES_def u32_le_def)
  have d: "(Inr (map unat bs) :: string + nat list) = Inr v"
    if "v \<in> set [[7, 8], []]" and "(Inr (map of_nat v) :: string + bytes) = Inr bs" for v bs
    using that by auto
  from frames_roundtrip [OF w d, where rest = "[5]"] show ?thesis
    by (simp add: numeral_2_eq_2 del: read_frames.simps)
qed

end
