(* ===== verification/Onnx_Cache.thy ===== *)
theory Onnx_Cache
  imports Arena Embed_Model Ipc
begin

text \<open>
  How sessions are built: the cache of optimised graphs (\<open>src/src/onnx_cache.rs\<close>), the locked
  weight buffers (\<open>src/src/mlock.rs\<close>), and the loops that build pools in \<open>src/src/model.rs\<close>,
  \<open>src/src/model_reranker/load.rs\<close> and \<open>src/src/model_splade.rs\<close>. The file system is a state;
  the session builder of the runtime is a record of parameters.
\<close>

section \<open>Files\<close>

type_synonym path = string

text \<open>A file: its modification time in nanoseconds, if readable, and what reading it gives.\<close>

record stored_file =
  fi_mtime :: "nat option"
  fi_data :: "string + bytes"

type_synonym fsys = "path \<Rightarrow> stored_file option"

definition ENOENT :: string where "ENOENT = ''No such file or directory (os error 2)''"

definition fs_read :: "fsys \<Rightarrow> path \<Rightarrow> string + bytes" where
  "fs_read fs p = (case fs p of None \<Rightarrow> Inl ENOENT | Some f \<Rightarrow> fi_data f)"

definition path_join :: "path \<Rightarrow> path \<Rightarrow> path" where
  "path_join d f =
     (if take 1 f = ''/'' then f else if d = [] \<or> last d = CHR ''/'' then d @ f else d @ ''/'' @ f)"

text \<open>\<open>Path::file_name\<close>: the last component, unless it is the parent directory.\<close>

definition file_name :: "path \<Rightarrow> string option" where
  "file_name p =
     (case rev (filter (\<lambda>c. c \<noteq> [] \<and> c \<noteq> ''.'') (split_on (CHR ''/'') p)) of
        [] \<Rightarrow> None
      | c # _ \<Rightarrow> if c = ''..'' then None else Some c)"

section \<open>The cache directory\<close>

text \<open>What creating a directory and writing a probe file in it give.\<close>

record dir_ops =
  do_mkdir :: "path \<Rightarrow> bool"
  do_probe :: "path \<Rightarrow> bool"

text \<open>The directory, if usable, and the reason recorded when it is not.\<close>

definition from_path :: "dir_ops \<Rightarrow> path \<Rightarrow> path option \<times> string option" where
  "from_path d dir =
     (if \<not> do_mkdir d dir then (None, Some ''mkdir_failed'')
      else if \<not> do_probe d dir then (None, Some ''not_writable'')
      else (Some dir, None))"

definition cache_from_env :: "dir_ops \<Rightarrow> env \<Rightarrow> path option \<times> string option" where
  "cache_from_env d e =
     (case e ''ONNX_OPT_CACHE_DIR'' of
        None \<Rightarrow> (None, None)
      | Some raw \<Rightarrow> if trim raw = [] then (None, None) else from_path d (trim raw))"

definition from_env_for_model :: "dir_ops \<Rightarrow> env \<Rightarrow> string \<Rightarrow> path option \<times> string option" where
  "from_env_for_model d e model_key =
     (case e (''ONNX_OPT_CACHE_DIR_'' @ model_env_key model_key) of
        Some raw \<Rightarrow> if trim raw \<noteq> [] then from_path d (trim raw) else cache_from_env d e
      | None \<Rightarrow> cache_from_env d e)"

definition mtime_ns :: "fsys \<Rightarrow> path \<Rightarrow> nat option" where
  "mtime_ns fs p = (case fs p of None \<Rightarrow> None | Some f \<Rightarrow> fi_mtime f)"

definition cache_path :: "path \<Rightarrow> fsys \<Rightarrow> path \<Rightarrow> path option" where
  "cache_path dir fs source =
     (case file_name source of
        None \<Rightarrow> None
      | Some basename \<Rightarrow>
          (case mtime_ns fs source of
             None \<Rightarrow> None
           | Some ns \<Rightarrow> Some (path_join dir (basename @ ''.'' @ show_nat ns @ ''.optimized.onnx''))))"

datatype LoadPlan = NoCache | Hit path | Miss path

definition decide :: "path option \<Rightarrow> fsys \<Rightarrow> path \<Rightarrow> LoadPlan" where
  "decide cache fs source =
     (case cache of
        None \<Rightarrow> NoCache
      | Some dir \<Rightarrow>
          (case cache_path dir fs source of
             None \<Rightarrow> NoCache
           | Some t \<Rightarrow> if fs t \<noteq> None then Hit t else Miss t))"

fun load_source :: "LoadPlan \<Rightarrow> path \<Rightarrow> path" where
  "load_source (Hit cached) source = cached"
| "load_source _ source = source"

section \<open>Session builder\<close>

text \<open>
  The calls on a session builder. Committing gives a session and, if the builder was told to
  serialise the optimised graph, the file written.
\<close>

record ('b, 's) builder_ops =
  bo_new :: "string + 'b"
  bo_opt_level :: "GraphOptimizationLevel \<Rightarrow> 'b \<Rightarrow> string + 'b"
  bo_opt_path :: "path \<Rightarrow> 'b \<Rightarrow> string + 'b"
  bo_intra_threads :: "nat \<Rightarrow> 'b \<Rightarrow> string + 'b"
  bo_intra_spinning :: "bool \<Rightarrow> 'b \<Rightarrow> string + 'b"
  bo_inter_threads :: "nat \<Rightarrow> 'b \<Rightarrow> string + 'b"
  bo_memory_pattern :: "bool \<Rightarrow> 'b \<Rightarrow> string + 'b"
  bo_env_allocators :: "'b \<Rightarrow> string + 'b"
  bo_cpu_without_arena :: "'b \<Rightarrow> string + 'b"
  bo_commit_from_memory :: "'b \<Rightarrow> bytes \<Rightarrow> string + 's \<times> (path \<times> bytes) option"
  bo_commit_from_file :: "'b \<Rightarrow> path \<Rightarrow> fsys \<Rightarrow> string + 's \<times> (path \<times> bytes) option"

definition map_err :: "string \<Rightarrow> string + 'a \<Rightarrow> string + 'a" where
  "map_err ctx r = (case r of Inl e \<Rightarrow> Inl (ctx @ e) | Inr x \<Rightarrow> Inr x)"

fun apply_plan :: "('b, 's) builder_ops \<Rightarrow> 'b \<Rightarrow> LoadPlan \<Rightarrow> GraphOptimizationLevel \<Rightarrow> string + 'b" where
  "apply_plan ops b NoCache requested = map_err ''set opt level: '' (bo_opt_level ops requested b)"
| "apply_plan ops b (Hit _) requested = map_err ''set opt level (cache hit): '' (bo_opt_level ops Disable b)"
| "apply_plan ops b (Miss t) requested =
     bind_res (map_err ''set opt level (cache miss): '' (bo_opt_level ops requested b)) (\<lambda>b1.
       map_err ''set optimized model path: '' (bo_opt_path ops t b1))"

text \<open>The settings a pool is built with.\<close>

record build_cfg =
  bc_opt_level :: GraphOptimizationLevel
  bc_intra_threads :: nat
  bc_allow_spinning :: bool
  bc_memory_pattern :: bool

text \<open>The chain of builder calls; \<open>tag\<close> is the number of the session in error texts, if shown.\<close>

definition configured :: "('b, 's) builder_ops \<Rightarrow> string \<Rightarrow> LoadPlan \<Rightarrow> build_cfg \<Rightarrow> string + 'b" where
  "configured ops tag plan cfg =
     bind_res (map_err (''session builder'' @ tag @ '': '') (bo_new ops)) (\<lambda>b0.
     bind_res (map_err (''apply cache plan'' @ tag @ '': '') (apply_plan ops b0 plan (bc_opt_level cfg))) (\<lambda>b1.
     bind_res (map_err (''set threads'' @ tag @ '': '') (bo_intra_threads ops (bc_intra_threads cfg) b1)) (\<lambda>b2.
     bind_res (map_err (''set intra spinning'' @ tag @ '': '') (bo_intra_spinning ops (bc_allow_spinning cfg) b2)) (\<lambda>b3.
     bind_res (map_err (''set inter threads'' @ tag @ '': '') (bo_inter_threads ops 1 b3)) (\<lambda>b4.
     bind_res (map_err (''enable memory pattern'' @ tag @ '': '') (bo_memory_pattern ops (bc_memory_pattern cfg) b4)) (\<lambda>b5.
     bind_res (map_err (''enable env allocators'' @ tag @ '': '') (bo_env_allocators ops b5)) (\<lambda>b6.
       map_err (''disable per-session cpu mem arena'' @ tag @ '': '') (bo_cpu_without_arena ops b6))))))))"

section \<open>Locked buffers\<close>

record MlockedBuf =
  mb_buf :: bytes
  mb_locked :: bool

record 's MlockedSession =
  ms_session :: 's
  ms_buf :: MlockedBuf

definition mlock_enabled :: "env \<Rightarrow> bool" where
  "mlock_enabled e \<longleftrightarrow> e ''EMBED_MLOCK_WEIGHTS'' \<notin> {Some ''0'', Some ''false'', Some ''False'', Some ''FALSE''}"

text \<open>\<open>mlock\<close> is the system call: whether it succeeds on a buffer.\<close>

definition try_mlock :: "(bytes \<Rightarrow> bool) \<Rightarrow> bytes \<Rightarrow> bool" where
  "try_mlock mlock buf = (if buf = [] then False else mlock buf)"

definition read_and_mlock :: "(bytes \<Rightarrow> bool) \<Rightarrow> env \<Rightarrow> fsys \<Rightarrow> path \<Rightarrow> string + MlockedBuf" where
  "read_and_mlock mlock e fs p =
     bind_res (map_err (''read ONNX '' @ p @ '': '') (fs_read fs p)) (\<lambda>buf.
       Inr \<lparr>mb_buf = buf, mb_locked = (if \<not> mlock_enabled e then False else try_mlock mlock buf)\<rparr>)"

definition new_without_mlock :: "'s \<Rightarrow> 's MlockedSession" where
  "new_without_mlock s = \<lparr>ms_session = s, ms_buf = \<lparr>mb_buf = [], mb_locked = False\<rparr>\<rparr>"

text \<open>Dropping the buffer unlocks exactly the pages that were locked.\<close>

definition drop_unlocks :: "MlockedBuf \<Rightarrow> bool" where
  "drop_unlocks b \<longleftrightarrow> mb_locked b \<and> mb_buf b \<noteq> []"

section \<open>Building sessions and pools\<close>

text \<open>What the process provides: the environment, directories, the system call, the clock.\<close>

record host =
  ho_env :: env
  ho_dirs :: dir_ops
  ho_mlock :: "bytes \<Rightarrow> bool"
  ho_now :: nat

definition written :: "nat \<Rightarrow> (path \<times> bytes) option \<Rightarrow> fsys \<Rightarrow> fsys" where
  "written now w fs =
     (case w of None \<Rightarrow> fs | Some (p, g) \<Rightarrow> fs(p := Some \<lparr>fi_mtime = Some now, fi_data = Inr g\<rparr>))"

definition commit_plan ::
  "('b, 's) builder_ops \<Rightarrow> host \<Rightarrow> string \<Rightarrow> build_cfg \<Rightarrow> LoadPlan \<Rightarrow> path \<Rightarrow> fsys \<Rightarrow> (string + 's MlockedSession) \<times> fsys" where
  "commit_plan ops h tag cfg plan source fs =
     (let p = load_source plan source in
      case bind_res (configured ops tag plan cfg) (\<lambda>b.
           bind_res (map_err (''read ONNX bytes'' @ tag @ '' '' @ p @ '': '') (read_and_mlock (ho_mlock h) (ho_env h) fs p)) (\<lambda>buf.
           bind_res (map_err (''load ONNX'' @ tag @ '' '' @ p @ '': '') (bo_commit_from_memory ops b (mb_buf buf))) (\<lambda>(s, w).
             Inr (\<lparr>ms_session = s, ms_buf = buf\<rparr>, w)))) of
        Inl err \<Rightarrow> (Inl err, fs)
      | Inr (s, w) \<Rightarrow> (Inr s, written (ho_now h) w fs))"

text \<open>The loop of \<open>build_session_pool\<close> (and of the sparse model): the plan is decided anew for each session.\<close>

fun pool_loop ::
  "('b, 's) builder_ops \<Rightarrow> host \<Rightarrow> build_cfg \<Rightarrow> path option \<Rightarrow> path \<Rightarrow> nat list \<Rightarrow> fsys \<Rightarrow>
   (string + 's MlockedSession list) \<times> fsys" where
  "pool_loop ops h cfg cache source [] fs = (Inr [], fs)"
| "pool_loop ops h cfg cache source (i # is) fs =
     (case commit_plan ops h ('' #'' @ show_nat i) cfg (decide cache fs source) source fs of
        (Inl err, fs1) \<Rightarrow> (Inl err, fs1)
      | (Inr s, fs1) \<Rightarrow>
          (case pool_loop ops h cfg cache source is fs1 of
             (Inl err, fs2) \<Rightarrow> (Inl err, fs2)
           | (Inr ss, fs2) \<Rightarrow> (Inr (s # ss), fs2)))"

text \<open>\<open>None\<close> is the panic of the arena check.\<close>

definition build_session_pool ::
  "('b, 's) builder_ops \<Rightarrow> host \<Rightarrow> arena_state \<Rightarrow> string \<Rightarrow> build_cfg \<Rightarrow> path \<Rightarrow> nat \<Rightarrow> fsys \<Rightarrow>
   ((string + 's MlockedSession list) \<times> fsys) option" where
  "build_session_pool ops h arena nm cfg source pool_size fs =
     (if \<not> assert_arena_registered_before_session arena then None
      else Some (pool_loop ops h cfg (fst (from_env_for_model (ho_dirs h) (ho_env h) nm)) source [0..<pool_size] fs))"

definition should_use_external_data :: "fsys \<Rightarrow> path \<Rightarrow> bool" where
  "should_use_external_data fs onnx_path \<longleftrightarrow> fs (onnx_path @ ''.data'') \<noteq> None"

definition build_one_session ::
  "('b, 's) builder_ops \<Rightarrow> host \<Rightarrow> arena_state \<Rightarrow> string \<Rightarrow> build_cfg \<Rightarrow> path \<Rightarrow> fsys \<Rightarrow>
   ((string + 's MlockedSession) \<times> fsys) option" where
  "build_one_session ops h arena nm cfg onnx_path fs =
     (if \<not> assert_arena_registered_before_session arena then None
      else if should_use_external_data fs onnx_path
      then Some (case bind_res (configured ops [] NoCache cfg) (\<lambda>b.
                   map_err (''load ONNX '' @ onnx_path @ '': '') (bo_commit_from_file ops b onnx_path fs)) of
             Inl err \<Rightarrow> (Inl err, fs)
           | Inr (s, w) \<Rightarrow> (Inr (new_without_mlock s), written (ho_now h) w fs))
      else Some (commit_plan ops h [] cfg (decide (fst (from_env_for_model (ho_dirs h) (ho_env h) nm)) fs onnx_path) onnx_path fs))"

text \<open>The initial fill of the evictable pool.\<close>

fun fill_pool ::
  "('b, 's) builder_ops \<Rightarrow> host \<Rightarrow> arena_state \<Rightarrow> string \<Rightarrow> build_cfg \<Rightarrow> path \<Rightarrow> nat list \<Rightarrow> fsys \<Rightarrow>
   ((string + 's MlockedSession list) \<times> fsys) option" where
  "fill_pool ops h arena nm cfg onnx_path [] fs = Some (Inr [], fs)"
| "fill_pool ops h arena nm cfg onnx_path (i # is) fs =
     (case build_one_session ops h arena nm cfg onnx_path fs of
        None \<Rightarrow> None
      | Some (Inl err, fs1) \<Rightarrow> Some (Inl (''embed session #'' @ show_nat i @ '' failed: '' @ err), fs1)
      | Some (Inr s, fs1) \<Rightarrow>
          (case fill_pool ops h arena nm cfg onnx_path is fs1 of
             None \<Rightarrow> None
           | Some (Inl err, fs2) \<Rightarrow> Some (Inl err, fs2)
           | Some (Inr ss, fs2) \<Rightarrow> Some (Inr (s # ss), fs2)))"

section \<open>Lemmas: opening a graph\<close>

lemma map_err_Inr_iff [simp]: "map_err c r = Inr x \<longleftrightarrow> r = Inr x"
  by (cases r) (auto simp: map_err_def)

lemma map_err_Inr [simp]: "map_err c (Inr x) = Inr x"
  by (simp add: map_err_def)

lemma configured_tag: "configured ops tag plan cfg = Inr b \<longleftrightarrow> configured ops [] plan cfg = Inr b"
  unfolding configured_def bind_res_Inr_iff map_err_Inr_iff by (rule refl)

text \<open>The sessions a builder configured by a plan commits from a graph, with the file it writes.\<close>

definition opened :: "('b, 's) builder_ops \<Rightarrow> build_cfg \<Rightarrow> LoadPlan \<Rightarrow> bytes \<Rightarrow> 's \<times> (path \<times> bytes) option \<Rightarrow> bool" where
  "opened ops cfg plan g r \<longleftrightarrow> (\<exists>b. configured ops [] plan cfg = Inr b \<and> bo_commit_from_memory ops b g = Inr r)"

lemma read_and_mlock_Inr: "read_and_mlock mlock e fs p = Inr buf \<Longrightarrow> fs_read fs p = Inr (mb_buf buf)"
  by (auto simp: read_and_mlock_def bind_res_Inr_iff)

lemma read_and_mlock_ok: "fs_read fs p = Inr g \<Longrightarrow> \<exists>buf. read_and_mlock mlock e fs p = Inr buf \<and> mb_buf buf = g"
  by (simp add: read_and_mlock_def)

lemma locked_buffers_unlock:
  "read_and_mlock mlock e fs p = Inr buf \<Longrightarrow> drop_unlocks buf \<longleftrightarrow> mb_locked buf"
  by (auto simp: read_and_mlock_def bind_res_Inr_iff drop_unlocks_def try_mlock_def split: if_splits)

lemma commit_plan_ok:
  assumes "fs_read fs (load_source plan source) = Inr g" "opened ops cfg plan g (s, w)"
  shows "\<exists>buf. commit_plan ops h tag cfg plan source fs = (Inr \<lparr>ms_session = s, ms_buf = buf\<rparr>, written (ho_now h) w fs)"
proof -
  obtain b where b: "configured ops [] plan cfg = Inr b" "bo_commit_from_memory ops b g = Inr (s, w)"
    using assms(2) by (auto simp: opened_def)
  have "configured ops tag plan cfg = Inr b" by (rule configured_tag [THEN iffD2, OF b(1)])
  moreover obtain buf where "read_and_mlock (ho_mlock h) (ho_env h) fs (load_source plan source) = Inr buf" "mb_buf buf = g"
    using read_and_mlock_ok [OF assms(1)] by blast
  ultimately show ?thesis
    using b(2) by (simp add: commit_plan_def Let_def)
qed

lemma commit_plan_Inr:
  assumes "commit_plan ops h tag cfg plan source fs = (Inr ms, fs')"
  obtains g w where "fs_read fs (load_source plan source) = Inr g" "opened ops cfg plan g (ms_session ms, w)"
    "fs' = written (ho_now h) w fs"
proof -
  obtain b buf s w where "configured ops tag plan cfg = Inr b"
    "read_and_mlock (ho_mlock h) (ho_env h) fs (load_source plan source) = Inr buf"
    "bo_commit_from_memory ops b (mb_buf buf) = Inr (s, w)" "ms = \<lparr>ms_session = s, ms_buf = buf\<rparr>" "fs' = written (ho_now h) w fs"
    using assms by (auto simp: commit_plan_def Let_def bind_res_Inr_iff split: sum.splits prod.splits)
  then show thesis
    using that [of "mb_buf buf" w] configured_tag [THEN iffD1] read_and_mlock_Inr unfolding opened_def by fastforce
qed

section \<open>Lemmas: the cache\<close>

text \<open>
  What the code relies on of the runtime, \<open>run\<close> being what a session computes: the graph it
  serialises after optimisation computes the same when loaded without optimisation, and
  asking for the serialisation does not change the session.
\<close>

definition opt_copy :: "('b, 's) builder_ops \<Rightarrow> ('s \<Rightarrow> 'r) \<Rightarrow> build_cfg \<Rightarrow> bytes \<Rightarrow> bytes \<Rightarrow> bool" where
  "opt_copy ops run cfg g g' \<longleftrightarrow>
     (\<forall>s w u. opened ops cfg NoCache g (s, w) \<longrightarrow> (\<exists>s'. opened ops cfg (Hit u) g' (s', None) \<and> run s' = run s))"

definition cache_law :: "('b, 's) builder_ops \<Rightarrow> ('s \<Rightarrow> 'r) \<Rightarrow> bool" where
  "cache_law ops run \<longleftrightarrow>
     (\<forall>cfg g s w. opened ops cfg NoCache g (s, w) \<longrightarrow> w = None \<and>
        (\<forall>t. \<exists>s' w'. opened ops cfg (Miss t) g (s', w') \<and> run s' = run s \<and>
           (w' = None \<or> (\<exists>g'. w' = Some (t, g') \<and> opt_copy ops run cfg g g'))))"

text \<open>
  The cache is sound for a set of sources: cache files are no sources, no two sources share
  one, and each holds an optimised copy of its source.
\<close>

definition cache_inv ::
  "('b, 's) builder_ops \<Rightarrow> ('s \<Rightarrow> 'r) \<Rightarrow> (path \<Rightarrow> build_cfg) \<Rightarrow> path set \<Rightarrow> path \<Rightarrow> fsys \<Rightarrow> bool" where
  "cache_inv ops run cfg S dir fs \<longleftrightarrow>
     (\<forall>p \<in> S. \<forall>t. cache_path dir fs p = Some t \<longrightarrow>
        t \<notin> S \<and> (\<forall>q \<in> S. cache_path dir fs q = Some t \<longrightarrow> q = p) \<and>
        (\<forall>f. fs t = Some f \<longrightarrow> (\<exists>g g'. fs_read fs p = Inr g \<and> fi_data f = Inr g' \<and> opt_copy ops run (cfg p) g g')))"

lemma cache_path_cong: "fs' p = fs p \<Longrightarrow> cache_path dir fs' p = cache_path dir fs p"
  unfolding cache_path_def mtime_ns_def by (cases "file_name p"; cases "fs p") simp_all

text \<open>The three parts of the invariant, one source at a time.\<close>

lemma cache_invD:
  assumes "cache_inv ops run cfg S dir fs" "p \<in> S" "cache_path dir fs p = Some t"
  shows "t \<notin> S" "q \<in> S \<Longrightarrow> cache_path dir fs q = Some t \<Longrightarrow> q = p"
    "fs t = Some f \<Longrightarrow> \<exists>g g'. fs_read fs p = Inr g \<and> fi_data f = Inr g' \<and> opt_copy ops run (cfg p) g g'"
  using assms unfolding cache_inv_def by blast+

lemma cache_inv_written:
  assumes inv: "cache_inv ops run cfg S dir fs" and p: "p \<in> S" "cache_path dir fs p = Some t"
    and g: "fs_read fs p = Inr g" "opt_copy ops run (cfg p) g g'"
  shows "cache_inv ops run cfg S dir (written now (Some (t, g')) fs)" "\<forall>q \<in> S. written now (Some (t, g')) fs q = fs q"
proof -
  let ?fs = "written now (Some (t, g')) fs"
  have t: "t \<notin> S" using cache_invD(1) [OF inv p] .
  show same: "\<forall>q \<in> S. ?fs q = fs q" using t by (auto simp: written_def)
  have cp: "cache_path dir ?fs q = cache_path dir fs q" "fs_read ?fs q = fs_read fs q" if "q \<in> S" for q
  proof -
    have q: "?fs q = fs q" using same that by blast
    show "cache_path dir ?fs q = cache_path dir fs q" by (rule cache_path_cong) (rule q)
    show "fs_read ?fs q = fs_read fs q" unfolding fs_read_def q ..
  qed
  have new: "?fs t = Some \<lparr>fi_mtime = Some now, fi_data = Inr g'\<rparr>" and old: "\<And>u. u \<noteq> t \<Longrightarrow> ?fs u = fs u"
    by (simp_all add: written_def)
  show "cache_inv ops run cfg S dir ?fs"
    unfolding cache_inv_def
  proof (intro ballI allI impI conjI)
    fix q u assume q: "q \<in> S" "cache_path dir ?fs q = Some u"
    then have qu: "cache_path dir fs q = Some u" by (simp add: cp)
    show "u \<notin> S" using cache_invD(1) [OF inv q(1) qu] .
    show "r = q" if "r \<in> S" "cache_path dir ?fs r = Some u" for r
      using cache_invD(2) [OF inv q(1) qu that(1)] that cp(1) [OF that(1)] by simp
    fix f assume f: "?fs u = Some f"
    show "\<exists>g g'. fs_read ?fs q = Inr g \<and> fi_data f = Inr g' \<and> opt_copy ops run (cfg q) g g'"
    proof (cases "u = t")
      case True
      then have "q = p" using cache_invD(2) [OF inv p q(1)] qu by simp
      then show ?thesis using True f new g q(1) by (auto simp: cp)
    next
      case False
      then have "fs u = Some f" using f old by simp
      then show ?thesis using cache_invD(3) [OF inv q(1) qu] cp(2) [OF q(1)] by simp
    qed
  qed
qed

lemma commit_decided:
  assumes law: "cache_law ops run" and inv: "cache_inv ops run cfg S dir fs" and p: "p \<in> S" "fs_read fs p = Inr g"
    and ref: "opened ops (cfg p) NoCache g (s, w)" and c: "cache = None \<or> cache = Some dir"
  shows "\<exists>ms fs'. commit_plan ops h tag (cfg p) (decide cache fs p) p fs = (Inr ms, fs') \<and> run (ms_session ms) = run s \<and>
    cache_inv ops run cfg S dir fs' \<and> (\<forall>q \<in> S. fs' q = fs q)"
proof -
  have w: "w = None" using law ref by (auto simp: cache_law_def)
  consider "decide cache fs p = NoCache" | t where "decide cache fs p = Miss t" "cache_path dir fs p = Some t"
    | t f where "decide cache fs p = Hit t" "cache_path dir fs p = Some t" "fs t = Some f"
    using c by (cases "cache_path dir fs p"; cases "cache"; cases "fs (the (cache_path dir fs p))") (auto simp: decide_def)
  then show ?thesis
  proof cases
    case 1
    then show ?thesis
      using commit_plan_ok [of fs NoCache p g ops "cfg p" s w h tag] p(2) ref w inv by (fastforce simp: written_def)
  next
    case 2
    obtain s' w' where m: "opened ops (cfg p) (Miss t) g (s', w')" "run s' = run s"
      "w' = None \<or> (\<exists>g'. w' = Some (t, g') \<and> opt_copy ops run (cfg p) g g')"
      using law ref unfolding cache_law_def by blast
    obtain buf where buf: "commit_plan ops h tag (cfg p) (Miss t) p fs =
        (Inr \<lparr>ms_session = s', ms_buf = buf\<rparr>, written (ho_now h) w' fs)"
      using commit_plan_ok [of fs "Miss t" p g ops "cfg p" s' w' h tag] p(2) m(1) by auto
    have "cache_inv ops run cfg S dir (written (ho_now h) w' fs) \<and> (\<forall>q \<in> S. written (ho_now h) w' fs q = fs q)"
      using m(3) cache_inv_written [OF inv p(1) 2(2) p(2)] inv by (auto simp: written_def)
    then show ?thesis using 2(1) buf m(2) by auto
  next
    case 3
    then obtain g' where g': "fi_data f = Inr g'" "opt_copy ops run (cfg p) g g'"
      using cache_invD(3) [OF inv p(1) 3(2,3)] p(2) by auto
    then obtain s' where s': "opened ops (cfg p) (Hit t) g' (s', None)" "run s' = run s"
      using ref by (auto simp: opt_copy_def)
    have "fs_read fs (load_source (Hit t) p) = Inr g'" using 3(3) g'(1) by (simp add: fs_read_def)
    then show ?thesis
      using commit_plan_ok [of fs "Hit t" p g' ops "cfg p" s' None h tag] s' 3(1) inv by (fastforce simp: written_def)
  qed
qed

lemma pool_loop_transparent:
  assumes law: "cache_law ops run" and p: "p \<in> S" and c: "cache = None \<or> cache = Some dir"
  shows "cache_inv ops run cfg S dir fs \<Longrightarrow> fs_read fs p = Inr g \<Longrightarrow> opened ops (cfg p) NoCache g (s, w) \<Longrightarrow>
    \<exists>ss fs'. pool_loop ops h (cfg p) cache p is fs = (Inr ss, fs') \<and> length ss = length is \<and>
      (\<forall>m \<in> set ss. run (ms_session m) = run s) \<and> cache_inv ops run cfg S dir fs' \<and> (\<forall>q \<in> S. fs' q = fs q)"
proof (induction "is" arbitrary: fs)
  case (Cons i "is")
  obtain ms fs1 where 1: "commit_plan ops h ('' #'' @ show_nat i) (cfg p) (decide cache fs p) p fs = (Inr ms, fs1)"
    "run (ms_session ms) = run s" "cache_inv ops run cfg S dir fs1" "\<forall>q \<in> S. fs1 q = fs q"
    using commit_decided [OF law Cons.prems(1) p Cons.prems(2,3) c] by blast
  have "fs_read fs1 p = Inr g" using 1(4) p Cons.prems(2) by (simp add: fs_read_def)
  then obtain ss fs2 where "pool_loop ops h (cfg p) cache p is fs1 = (Inr ss, fs2)" "length ss = length is"
    "\<forall>m \<in> set ss. run (ms_session m) = run s" "cache_inv ops run cfg S dir fs2" "\<forall>q \<in> S. fs2 q = fs1 q"
    using Cons.IH [OF 1(3) _ Cons.prems(3)] by blast
  then show ?case using 1 by simp
qed simp

section \<open>Pools built through the cache\<close>


lemma decide_hit: "cache_path dir fs p = Some t \<Longrightarrow> fs t \<noteq> None \<Longrightarrow> decide (Some dir) fs p = Hit t"
  by (simp add: decide_def)

lemma commit_hit_source: "commit_plan ops h tag cfg (Hit t) p fs = commit_plan ops h tag cfg (Hit t) q fs"
  by (simp add: commit_plan_def)

lemma commit_hit_fs:
  assumes "\<And>u g r. opened ops cfg (Hit u) g r \<Longrightarrow> snd r = None"
  shows "snd (commit_plan ops h tag cfg (Hit t) p fs) = fs"
proof (cases "commit_plan ops h tag cfg (Hit t) p fs")
  case (Pair r fs')
  show ?thesis
  proof (cases r)
    case (Inl err)
    then show ?thesis using Pair by (auto simp: commit_plan_def Let_def split: sum.splits)
  next
    case (Inr ms)
    then obtain g w where "opened ops cfg (Hit t) g (ms_session ms, w)" "fs' = written (ho_now h) w fs"
      using Pair commit_plan_Inr by metis
    then show ?thesis using assms Pair by (fastforce simp: written_def)
  qed
qed

lemma pool_loop_hit:
  assumes "decide (Some dir) fs p = Hit t" "decide (Some dir) fs q = Hit t"
    and "\<And>u g r. opened ops cfg (Hit u) g r \<Longrightarrow> snd r = None"
  shows "pool_loop ops h cfg (Some dir) p is fs = pool_loop ops h cfg (Some dir) q is fs"
proof (induction "is")
  case (Cons i "is")
  obtain r where r: "commit_plan ops h ('' #'' @ show_nat i) cfg (Hit t) q fs = (r, fs)"
    using commit_hit_fs [of ops cfg h "'' #'' @ show_nat i" t q fs] assms(3) by (metis prod.collapse)
  then have "commit_plan ops h ('' #'' @ show_nat i) cfg (Hit t) p fs = (r, fs)"
    by (subst commit_hit_source [of ops h _ cfg t p fs q])
  then show ?case
    using assms(1,2) Cons.IH r by (cases r) simp_all
qed simp

text \<open>
  C40. The file under the cache key decides alone. The key is the base name and the modification
  time of the source, so two models whose files agree in both share one cache file: as soon
  as it exists, both pools are built from it, whatever their own graphs are. And if the
  runtime rejects that file (a write cut short, say) every pool of positive size fails, on
  each start, although the sources themselves can be opened.
\<close>

theorem cache_file_decides:
  assumes "file_name p = file_name q" "mtime_ns fs p = mtime_ns fs q"
    and "cache_path dir fs p = Some t" "fs t = Some f"
    and hits: "\<forall>u g r. opened ops cfg (Hit u) g r \<longrightarrow> snd r = None"
  shows "pool_loop ops h cfg (Some dir) p is fs = pool_loop ops h cfg (Some dir) q is fs \<and>
    ((\<nexists>g r. fi_data f = Inr g \<and> opened ops cfg (Hit t) g r) \<longrightarrow>
       (\<exists>err fs'. pool_loop ops h cfg (Some dir) p [0..<Suc n] fs = (Inl err, fs')))"
proof (intro conjI impI)
  have "cache_path dir fs q = Some t"
    using assms(1-3) by (simp add: cache_path_def split: option.splits)
  then have d: "decide (Some dir) fs p = Hit t" "decide (Some dir) fs q = Hit t"
    using assms(3,4) by (simp_all add: decide_hit)
  then show "pool_loop ops h cfg (Some dir) p is fs = pool_loop ops h cfg (Some dir) q is fs"
    using hits by (intro pool_loop_hit) auto
  assume bad: "\<nexists>g r. fi_data f = Inr g \<and> opened ops cfg (Hit t) g r"
  have "\<nexists>ms fs'. commit_plan ops h tag cfg (Hit t) p fs = (Inr ms, fs')" for tag
  proof clarify
    fix ms fs' assume "commit_plan ops h tag cfg (Hit t) p fs = (Inr ms, fs')"
    then show False
      by (rule commit_plan_Inr) (use bad assms(4) in \<open>auto simp: fs_read_def\<close>)
  qed
  then obtain err fs' where "commit_plan ops h ('' #'' @ show_nat 0) cfg (Hit t) p fs = (Inl err, fs')"
    by (metis sum.exhaust surj_pair)
  then show "\<exists>err fs'. pool_loop ops h cfg (Some dir) p [0..<Suc n] fs = (Inl err, fs')"
    using d(1) by (simp add: upt_conv_Cons del: upt_Suc)
qed

section \<open>Witnesses\<close>

text \<open>A runtime whose sessions are the bytes of the graph and whose optimised copy has one more byte in front.\<close>

definition wit_ops :: "(GraphOptimizationLevel \<times> path option, bytes) builder_ops" where
  "wit_ops = \<lparr>bo_new = Inr (Disable, None), bo_opt_level = \<lambda>l (_, out). Inr (l, out), bo_opt_path = \<lambda>p (l, _). Inr (l, Some p),
     bo_intra_threads = \<lambda>_ b. Inr b, bo_intra_spinning = \<lambda>_ b. Inr b, bo_inter_threads = \<lambda>_ b. Inr b,
     bo_memory_pattern = \<lambda>_ b. Inr b, bo_env_allocators = Inr, bo_cpu_without_arena = Inr,
     bo_commit_from_memory = \<lambda>(l, out) g. if g = [] then Inl ''corrupt'' else Inr (g, map_option (\<lambda>p. (p, 0 # g)) out),
     bo_commit_from_file = \<lambda>_ _ _. Inl ''unused''\<rparr>"

definition wit_build_cfg :: build_cfg where
  "wit_build_cfg = \<lparr>bc_opt_level = Level3, bc_intra_threads = 2, bc_allow_spinning = False, bc_memory_pattern = True\<rparr>"

definition wit_host :: host where
  "wit_host = \<lparr>ho_env = (\<lambda>_. None)(''ONNX_OPT_CACHE_DIR'' := Some ''/c''), ho_dirs = \<lparr>do_mkdir = \<lambda>_. True, do_probe = \<lambda>_. True\<rparr>,
     ho_mlock = \<lambda>_. True, ho_now = 9\<rparr>"

definition wit_fs :: fsys where
  "wit_fs = (\<lambda>_. None)(''/m/a.onnx'' := Some \<lparr>fi_mtime = Some 5, fi_data = Inr [7]\<rparr>,
     ''/n/a.onnx'' := Some \<lparr>fi_mtime = Some 5, fi_data = Inr [8]\<rparr>)"

lemma wit_opened: "opened wit_ops cfg plan g r \<longleftrightarrow> g \<noteq> [] \<and> r = (g, case plan of Miss t \<Rightarrow> Some (t, 0 # g) | _ \<Rightarrow> None)"
  by (cases plan) (auto simp: opened_def configured_def wit_ops_def)

lemma wit_law: "cache_law wit_ops last"
  by (simp add: cache_law_def wit_opened opt_copy_def)

lemma wit_file_name: "file_name ''/m/a.onnx'' = Some ''a.onnx''" "file_name ''/n/a.onnx'' = Some ''a.onnx''"
  by (simp_all add: file_name_def)

lemma wit_cache_path:
  "cache_path ''/c'' wit_fs ''/m/a.onnx'' = Some ''/c/a.onnx.5.optimized.onnx''"
  by (simp add: cache_path_def wit_file_name mtime_ns_def wit_fs_def path_join_def show_nat.simps char_of_def bit_0)

lemma wit_inv: "cache_inv wit_ops last (\<lambda>_. wit_build_cfg) {''/m/a.onnx''} ''/c'' wit_fs"
  using wit_cache_path by (simp add: cache_inv_def wit_fs_def)


definition wit_fs_torn :: fsys where
  "wit_fs_torn = wit_fs(''/c/a.onnx.5.optimized.onnx'' := Some \<lparr>fi_mtime = Some 6, fi_data = Inr []\<rparr>)"

theorem cache_file_decides_witness:
  "pool_loop wit_ops wit_host wit_build_cfg (Some ''/c'') ''/m/a.onnx'' [0] wit_fs_torn =
     pool_loop wit_ops wit_host wit_build_cfg (Some ''/c'') ''/n/a.onnx'' [0] wit_fs_torn \<and>
   (\<exists>err fs'. pool_loop wit_ops wit_host wit_build_cfg (Some ''/c'') ''/m/a.onnx'' [0..<Suc 1] wit_fs_torn = (Inl err, fs'))"
proof -
  have n: "file_name ''/m/a.onnx'' = file_name ''/n/a.onnx''" by (simp add: wit_file_name)
  have m: "mtime_ns wit_fs_torn ''/m/a.onnx'' = mtime_ns wit_fs_torn ''/n/a.onnx''"
    by (simp add: mtime_ns_def wit_fs_torn_def wit_fs_def)
  have c: "cache_path ''/c'' wit_fs_torn ''/m/a.onnx'' = Some ''/c/a.onnx.5.optimized.onnx''"
    using wit_cache_path cache_path_cong [of wit_fs_torn "''/m/a.onnx''" wit_fs "''/c''"] by (simp add: wit_fs_torn_def)
  have f: "wit_fs_torn ''/c/a.onnx.5.optimized.onnx'' = Some \<lparr>fi_mtime = Some 6, fi_data = Inr []\<rparr>"
    by (simp add: wit_fs_torn_def)
  have "\<forall>u g r. opened wit_ops wit_build_cfg (Hit u) g r \<longrightarrow> snd r = None" by (simp add: wit_opened)
  from cache_file_decides [OF n m c f this, of wit_host "[0]" 1] show ?thesis
    by (simp add: wit_opened del: upt_Suc)
qed

end
