(* ===== verification/Reranker_Model.thy ===== *)
theory Reranker_Model
  imports Embed_Model "HOL-Library.AList"
begin

text \<open>
  The cross-encoder of \<open>src/src/model_reranker\<close>: tokenisation of pairs, the forward pass on the
  dynamic pool or, when the batch size has a graph of its own, on a static one, the warm-up
  passes, and the discovery of static graphs when the model is loaded. The tokenizer, the
  sessions and the builder of sessions are parameters; \<open>None\<close> is a panic (an index, a missing
  cursor, a remainder by zero).
\<close>

section \<open>Sessions and the model\<close>

text \<open>The logits of a run: the shape of the array and its elements by row and column.\<close>

record logits =
  lg_shape :: "nat list"
  lg_at :: "nat \<Rightarrow> nat \<Rightarrow> f32"

datatype rk_outcome = RkRunErr string | RkExtractErr string | RkOk logits

text \<open>
  A member of a pool is a mutex: a poisoned one answers \<open>lock\<close> with an error text, otherwise
  the session maps tensors and their two dimensions to an outcome.
\<close>

type_synonym rk_slot = "string + (tensors \<Rightarrow> nat \<Rightarrow> nat \<Rightarrow> rk_outcome)"

text \<open>The ordered maps from batch size to pool and to cursor are association lists in key order.\<close>

record RerankerModel =
  rr_name :: string
  rr_sessions :: "rk_slot list"
  rr_next :: nat
  rr_max_len :: nat
  rr_padded_model :: bool
  rr_pad_id :: "32 word"
  rr_static_session_pools :: "(nat \<times> rk_slot list) list"
  rr_static_session_cursors :: "(nat \<times> nat) list"

definition session_count :: "RerankerModel \<Rightarrow> nat" where
  "session_count m = length (rr_sessions m)"

definition static_pool_shapes :: "RerankerModel \<Rightarrow> nat list" where
  "static_pool_shapes m = map fst (rr_static_session_pools m)"

fun bt_insert :: "nat \<Rightarrow> 'v \<Rightarrow> (nat \<times> 'v) list \<Rightarrow> (nat \<times> 'v) list" where
  "bt_insert k v [] = [(k, v)]"
| "bt_insert k v ((k', v') # m) =
     (if k < k' then (k, v) # (k', v') # m
      else if k = k' then (k, v) # m
      else (k', v') # bt_insert k v m)"

text \<open>What a scoring pass records.\<close>

datatype rk_metric =
    RkPoolAcquire
  | RkInference nat
  | RkPaddingWaste nat nat

section \<open>Scoring\<close>

definition tokenize_pairs ::
  "((string \<times> string) list \<Rightarrow> string + token_seq list) \<Rightarrow> RerankerModel \<Rightarrow> string \<Rightarrow> string list \<Rightarrow> string + token_seq list" where
  "tokenize_pairs encode m query docs =
     (if docs = [] then Inr []
      else case encode (map (\<lambda>d. (query, d)) docs) of
        Inl e \<Rightarrow> Inl (''tokenize_pairs: '' @ e)
      | Inr encs \<Rightarrow> Inr (map (\<lambda>ids. take (min (length ids) (rr_max_len m)) ids) encs))"

text \<open>An atomic \<open>fetch_add(1)\<close> on a \<open>usize\<close>: the old value and the new one.\<close>

definition cursor_next :: "nat \<Rightarrow> nat" where
  "cursor_next n = (n + 1) mod 2 ^ 64"

text \<open>
  The part both paths share: lock the slot the cursor selects, run, check the shape, take the
  first column. The two texts are those the paths differ in.
\<close>

definition run_slot ::
  "rk_slot list \<Rightarrow> nat \<Rightarrow> (nat \<Rightarrow> string) \<Rightarrow> string \<Rightarrow> string \<Rightarrow> string \<Rightarrow> tensors \<Rightarrow> nat \<Rightarrow> nat \<Rightarrow> nat \<Rightarrow>
   ((string + f32 list) \<times> rk_metric list) option" where
  "run_slot members cursor lock_text run_text extract_text shape_text t batch width n_real =
     (if members = [] then None
      else let idx = cursor mod length members in
        Some (case members ! idx of
            Inl e \<Rightarrow> (Inl (lock_text idx @ e), [])
          | Inr session \<Rightarrow>
              (case session t batch width of
                 RkRunErr e \<Rightarrow> (Inl (run_text @ e), [RkPoolAcquire])
               | RkExtractErr e \<Rightarrow>
                   (Inl (extract_text @ e), [RkPoolAcquire, RkInference batch, RkPaddingWaste (sat_mul batch width) n_real])
               | RkOk raw \<Rightarrow>
                   (if lg_shape raw \<noteq> [batch, 1]
                    then Inl (shape_text @ show_shape (lg_shape raw) @ '', expected ['' @ show_nat batch @ '', 1]'')
                    else Inr (map (\<lambda>i. lg_at raw i 0) [0..<batch]),
                    [RkPoolAcquire, RkInference batch, RkPaddingWaste (sat_mul batch width) n_real]))))"

definition real_total :: "nat \<Rightarrow> token_seq list \<Rightarrow> nat" where
  "real_total cap seqs = sum_list (map (\<lambda>v. min (length v) cap) seqs)"

definition score_pairs_static ::
  "RerankerModel \<Rightarrow> token_seq list \<Rightarrow> rk_slot list \<Rightarrow> nat \<Rightarrow> ((string + f32 list) \<times> rk_metric list) option" where
  "score_pairs_static m tids static_pool cursor =
     (let batch = length tids; static_seq = rr_max_len m in
      case build_tensors_from_ids tids batch static_seq (rr_pad_id m) False of
        None \<Rightarrow> None
      | Some t \<Rightarrow>
          run_slot static_pool cursor
            (\<lambda>idx. ''lock static session b'' @ show_nat batch @ ''#'' @ show_nat idx @ '': '')
            (''static reranker inference (b'' @ show_nat batch @ ''): '') ''static extract logits: ''
            ''unexpected static reranker output shape: '' t batch static_seq (real_total static_seq tids))"

definition dynamic_width :: "RerankerModel \<Rightarrow> token_seq list \<Rightarrow> nat" where
  "dynamic_width m seqs = min (fold max (map length seqs) 0) (rr_max_len m)"

definition score_pairs ::
  "RerankerModel \<Rightarrow> token_seq list \<Rightarrow> ((string + f32 list) \<times> rk_metric list \<times> RerankerModel) option" where
  "score_pairs m tids =
     (if tids = [] then Some (Inr [], [], m)
      else
        let batch = length tids in
        case map_of (rr_static_session_pools m) batch of
          Some static_pool \<Rightarrow>
            (case map_of (rr_static_session_cursors m) batch of
               None \<Rightarrow> None
             | Some cursor \<Rightarrow>
                 map_option (\<lambda>(r, ms). (r, ms, m\<lparr>rr_static_session_cursors :=
                     AList.update batch (cursor_next cursor) (rr_static_session_cursors m)\<rparr>))
                   (score_pairs_static m tids static_pool cursor))
        | None \<Rightarrow>
            let max_seq = dynamic_width m tids in
            case build_tensors_from_ids tids batch max_seq (rr_pad_id m) False of
              None \<Rightarrow> None
            | Some t \<Rightarrow>
                map_option (\<lambda>(r, ms). (r, ms, m\<lparr>rr_next := cursor_next (rr_next m)\<rparr>))
                  (run_slot (rr_sessions m) (rr_next m) (\<lambda>idx. ''lock session #'' @ show_nat idx @ '': '')
                     ''reranker inference: '' ''extract logits: '' ''unexpected reranker output shape: ''
                     t batch max_seq (real_total (rr_max_len m) tids)))"

text \<open>\<open>StandaloneReranker::score\<close>: the sequence length of the request is not used.\<close>

definition standalone_score ::
  "((string \<times> string) list \<Rightarrow> string + token_seq list) \<Rightarrow> RerankerModel \<Rightarrow> string \<Rightarrow> string list \<Rightarrow> 32 word \<Rightarrow>
   (string + f32 list) option" where
  "standalone_score encode m query docs msl =
     (case tokenize_pairs encode m query docs of
        Inl e \<Rightarrow> Some (Inl e)
      | Inr ids \<Rightarrow> map_option fst (score_pairs m ids))"

text \<open>Requests that reach the model one after the other, the cursors carried along.\<close>

fun score_all :: "RerankerModel \<Rightarrow> token_seq list list \<Rightarrow> (string + f32 list) list option" where
  "score_all m [] = Some []"
| "score_all m (seqs # reqs) =
     (case score_pairs m seqs of
        None \<Rightarrow> None
      | Some (r, _, m') \<Rightarrow> map_option (Cons r) (score_all m' reqs))"

section \<open>Warm-up\<close>

definition warmup_width :: "RerankerModel \<Rightarrow> nat option \<Rightarrow> nat" where
  "warmup_width m warmup_seq_len =
     (case warmup_seq_len of None \<Rightarrow> rr_max_len m | Some n \<Rightarrow> max (min n (rr_max_len m)) 1)"

text \<open>The loop over the sessions counts the failed passes; a poisoned lock ends it.\<close>

fun warm_sessions :: "nat \<Rightarrow> rk_slot list \<Rightarrow> tensors \<Rightarrow> nat \<Rightarrow> nat \<Rightarrow> (string + unit) \<times> nat" where
  "warm_sessions i [] t batch width = (Inr (), 0)"
| "warm_sessions i (Inl e # ss) t batch width =
     (Inl (''warmup lock session #'' @ show_nat i @ '' (batch='' @ show_nat batch @ ''): '' @ e), 0)"
| "warm_sessions i (Inr session # ss) t batch width =
     (case warm_sessions (Suc i) ss t batch width of
        (r, n) \<Rightarrow> (r, (case session t batch width of RkRunErr _ \<Rightarrow> Suc n | _ \<Rightarrow> n)))"

definition warmup_at_shape ::
  "((string \<times> string) list \<Rightarrow> string + token_seq list) \<Rightarrow> RerankerModel \<Rightarrow> nat \<Rightarrow> nat option \<Rightarrow> ((string + unit) \<times> nat) option" where
  "warmup_at_shape encode m batch warmup_seq_len =
     (case encode (replicate batch (''warmup query'', ''warmup document'')) of
        Inl e \<Rightarrow> Some (Inl (''warmup tokenize batch='' @ show_nat batch @ '': '' @ e), 0)
      | Inr encs \<Rightarrow>
          let tids = map (\<lambda>ids. take (min (length ids) (rr_max_len m)) ids) encs;
              width = warmup_width m warmup_seq_len
          in map_option (\<lambda>t. warm_sessions 0 (rr_sessions m) t batch width)
               (build_tensors_from_ids tids batch width (rr_pad_id m) False))"

text \<open>\<open>warmup\<close> always returns \<open>Ok\<close>; the numbers are the two kinds of failure it records.\<close>

fun warmup ::
  "((string \<times> string) list \<Rightarrow> string + token_seq list) \<Rightarrow> RerankerModel \<Rightarrow> nat list \<Rightarrow> nat option \<Rightarrow> (nat \<times> nat) option" where
  "warmup encode m [] wsl = Some (0, 0)"
| "warmup encode m (b # shapes) wsl =
     (case warmup_at_shape encode m b wsl of
        None \<Rightarrow> None
      | Some (r, n) \<Rightarrow>
          map_option (\<lambda>(shape_fails, session_fails). ((case r of Inl _ \<Rightarrow> Suc shape_fails | Inr _ \<Rightarrow> shape_fails), n + session_fails))
            (warmup encode m shapes wsl))"

section \<open>Loading\<close>

definition STATIC_POOL_SIZE_PER_SHAPE :: nat where "STATIC_POOL_SIZE_PER_SHAPE = 2"

definition ends_with :: "string \<Rightarrow> string \<Rightarrow> bool" where
  "ends_with s suf \<longleftrightarrow> length suf \<le> length s \<and> drop (length s - length suf) s = suf"

definition starts_with :: "string \<Rightarrow> string \<Rightarrow> bool" where
  "starts_with s pre \<longleftrightarrow> take (length pre) s = pre"

definition PREFIX_EXPLICIT :: string where "PREFIX_EXPLICIT = ''model_quantized_static_b''"
definition LEGACY_FILENAME :: string where "LEGACY_FILENAME = ''model_quantized_static.onnx''"

text \<open>The batch size a file name denotes, if any.\<close>

definition static_batch :: "string \<Rightarrow> nat option" where
  "static_batch f =
     (if starts_with f PREFIX_EXPLICIT \<and> ends_with f ''.onnx''
      then (case parse_uint 64 (take (length f - length ''.onnx'' - length PREFIX_EXPLICIT) (drop (length PREFIX_EXPLICIT) f)) of
              Some n \<Rightarrow> if n = 0 then None else Some n
            | None \<Rightarrow> None)
      else None)"

text \<open>
  The model directory: the names \<open>read_dir\<close> yields, in its order (\<open>None\<close> when it fails), and which
  names exist. Files are named relative to the directory.
\<close>

record dir_view =
  dv_entries :: "string list option"
  dv_exists :: "string \<Rightarrow> bool"

text \<open>The scan of the directory: a later file replaces an earlier one of the same batch size.\<close>

definition scan_files :: "string list \<Rightarrow> (nat \<times> string) list \<Rightarrow> (nat \<times> string) list" where
  "scan_files fs out = fold (\<lambda>f out. case static_batch f of None \<Rightarrow> out | Some n \<Rightarrow> bt_insert n f out) fs out"

definition discover_static_shape_files :: "dir_view \<Rightarrow> (nat \<times> string) list" where
  "discover_static_shape_files d =
     (case dv_entries d of
        None \<Rightarrow> []
      | Some fs \<Rightarrow>
          let out = scan_files fs [] in
          if dv_exists d LEGACY_FILENAME
          then (case map_of out 1 of None \<Rightarrow> bt_insert 1 LEGACY_FILENAME out | Some replaced \<Rightarrow> bt_insert 1 replaced out)
          else out)"

text \<open>\<open>build\<close> is \<open>build_session_pool\<close> as a function of file and pool size, the settings being fixed.\<close>

definition load_static_session_pools ::
  "(string \<Rightarrow> nat \<Rightarrow> string + rk_slot list) \<Rightarrow> dir_view \<Rightarrow> (nat \<times> rk_slot list) list" where
  "load_static_session_pools build d =
     fold (\<lambda>(batch, f) pools. case build f STATIC_POOL_SIZE_PER_SHAPE of
             Inr p \<Rightarrow> bt_insert batch p pools
           | Inl _ \<Rightarrow> pools) (discover_static_shape_files d) []"

text \<open>The tokenizer as the loader sees it: its configuration and the ids of tokens.\<close>

record tokenizer = tokenizer_cfg +
  tk_token_to_id :: "string \<Rightarrow> 32 word option"

definition discover_pad_id :: "tokenizer \<Rightarrow> 32 word" where
  "discover_pad_id t =
     (case tc_padding t of
        Some p \<Rightarrow> p
      | None \<Rightarrow> (case tk_token_to_id t ''<pad>'' of
            Some i \<Rightarrow> i
          | None \<Rightarrow> (case tk_token_to_id t ''[PAD]'' of Some i \<Rightarrow> i | None \<Rightarrow> 0)))"

text \<open>
  The inspection of the first session: its lock can be poisoned; a graph with other inputs
  than the two expected is only logged. Without a session the access panics and ends the
  load as well; the builder gives at least one.
\<close>

definition introspect_graph_inputs :: "rk_slot list \<Rightarrow> string + unit" where
  "introspect_graph_inputs sessions =
     (case sessions of
        [] \<Rightarrow> Inl ''index out of bounds''
      | Inl e # _ \<Rightarrow> Inl (''introspect session #0: '' @ e)
      | Inr _ # _ \<Rightarrow> Inr ())"

text \<open>What loading calls: the session builder and the tokenizer.\<close>

record load_env =
  le_build :: "string \<Rightarrow> nat \<Rightarrow> string + rk_slot list"
  le_from_file :: "string + tokenizer"
  le_with_truncation :: "nat option \<Rightarrow> string + unit"

definition reranker_load :: "load_env \<Rightarrow> dir_view \<Rightarrow> string \<Rightarrow> string \<Rightarrow> nat \<Rightarrow> bool \<Rightarrow> nat \<Rightarrow> string + RerankerModel" where
  "reranker_load le d nm dir ml padded pool_size =
     (if \<not> dv_exists d ''model_quantized.onnx'' then Inl (''ONNX file not found: '' @ dir @ ''/model_quantized.onnx'')
      else if \<not> dv_exists d ''tokenizer.json'' then Inl (''tokenizer.json not found: '' @ dir @ ''/tokenizer.json'')
      else bind_res (le_build le ''model_quantized.onnx'' (max pool_size 1)) (\<lambda>sessions.
           bind_res (introspect_graph_inputs sessions) (\<lambda>_.
           bind_res (case le_from_file le of Inl e \<Rightarrow> Inl (''load tokenizer: '' @ e) | Inr t \<Rightarrow> Inr t) (\<lambda>t0.
           bind_res (configure_truncation (le_with_truncation le) True ml t0) (\<lambda>t.
             let pools = load_static_session_pools (le_build le) d in
             Inr \<lparr>rr_name = nm, rr_sessions = sessions, rr_next = 0, rr_max_len = ml,
                  rr_padded_model = padded, rr_pad_id = discover_pad_id t,
                  rr_static_session_pools = pools,
                  rr_static_session_cursors = map (\<lambda>(k, _). (k, 0)) pools\<rparr>)))))"

section \<open>Lemmas: ordered maps and discovery\<close>

lemma map_of_bt_insert [simp]: "map_of (bt_insert k v m) = (map_of m)(k \<mapsto> v)"
  by (induction k v m rule: bt_insert.induct) (auto simp: fun_eq_iff)

lemma bt_insert_keys: "fst ` set (bt_insert k v m) = insert k (fst ` set m)"
  by (induction k v m rule: bt_insert.induct) auto

lemma bt_insert_sorted: "sorted_wrt (<) (map fst m) \<Longrightarrow> sorted_wrt (<) (map fst (bt_insert k v m))"
  by (induction k v m rule: bt_insert.induct) (auto simp: bt_insert_keys simp flip: image_set)

text \<open>The file that serves a batch size: one named for it or, for a single pair, the legacy file.\<close>

definition serves_batch :: "string \<Rightarrow> nat \<Rightarrow> bool" where
  "serves_batch f n \<longleftrightarrow> static_batch f = Some n \<or> f = LEGACY_FILENAME \<and> n = 1"

lemma scan_files_sorted: "sorted_wrt (<) (map fst out) \<Longrightarrow> sorted_wrt (<) (map fst (scan_files fs out))"
  unfolding scan_files_def by (induction fs arbitrary: out) (auto simp: bt_insert_sorted split: option.split)

lemma scan_files_lookup:
  "map_of (scan_files fs out) n =
     (case List.find (\<lambda>f. static_batch f = Some n) (rev fs) of None \<Rightarrow> map_of out n | Some f \<Rightarrow> Some f)"
proof (induction fs rule: rev_induct)
  case (snoc f fs)
  then show ?case
    by (cases "static_batch f") (auto simp: scan_files_def)
qed (simp add: scan_files_def)

lemma discover_sorted: "sorted_wrt (<) (map fst (discover_static_shape_files d))"
  by (auto simp: discover_static_shape_files_def Let_def scan_files_sorted bt_insert_sorted split: option.split)

text \<open>
  The map that discovery returns: the last file named for the batch size and, for batch size 1
  when no file is named for it, the legacy file.
\<close>

lemma discover_lookup:
  "map_of (discover_static_shape_files d) n =
     (case dv_entries d of None \<Rightarrow> None
      | Some fs \<Rightarrow> (case List.find (\<lambda>f. static_batch f = Some n) (rev fs) of
            Some f \<Rightarrow> Some f
          | None \<Rightarrow> if n = 1 \<and> dv_exists d LEGACY_FILENAME then Some LEGACY_FILENAME else None))"
  by (auto simp: discover_static_shape_files_def Let_def scan_files_lookup split: option.split)

lemma discover_serves: "map_of (discover_static_shape_files d) n = Some f \<Longrightarrow> serves_batch f n"
  by (auto simp: discover_lookup serves_batch_def find_Some_iff split: option.splits if_splits)

lemma static_batch_pos: "static_batch f = Some n \<Longrightarrow> 0 < n"
  by (auto simp: static_batch_def split: if_splits option.splits)

lemma load_static_pools_lookup:
  "map_of (load_static_session_pools build d) n = Some p \<Longrightarrow>
   \<exists>f. serves_batch f n \<and> build f STATIC_POOL_SIZE_PER_SHAPE = Inr p"
proof -
  let ?step = "\<lambda>(batch, f) pools. case build f STATIC_POOL_SIZE_PER_SHAPE of Inr p \<Rightarrow> bt_insert batch p pools | Inl _ \<Rightarrow> pools"
  have *: "map_of (fold ?step xs acc) n = Some p \<Longrightarrow> \<forall>(k, f) \<in> set xs. serves_batch f k \<Longrightarrow>
      map_of acc n = Some p \<or> (\<exists>f. serves_batch f n \<and> build f STATIC_POOL_SIZE_PER_SHAPE = Inr p)" for xs acc
  proof (induction xs arbitrary: acc)
    case (Cons x xs)
    obtain k f where x: "x = (k, f)" by fastforce
    show ?case
      using Cons.IH [of "?step x acc"] Cons.prems by (auto simp: x split: sum.splits if_splits)
  qed simp
  have "\<forall>(k, f) \<in> set (discover_static_shape_files d). serves_batch f k"
  proof clarify
    fix k f assume "(k, f) \<in> set (discover_static_shape_files d)"
    moreover have "distinct (map fst (discover_static_shape_files d))"
      using discover_sorted [of d] by (simp add: strict_sorted_iff)
    ultimately show "serves_batch f k" by (intro discover_serves [of d]) simp
  qed
  then show "map_of (load_static_session_pools build d) n = Some p \<Longrightarrow> ?thesis"
    unfolding load_static_session_pools_def using * [of _ "[]"] by auto
qed

section \<open>Lemmas: scoring\<close>

text \<open>
  What the code relies on of a session whose graph accepts the shapes \<open>ok\<close>: on tensors built
  with a prefix mask the logit of a row depends on the real tokens of that row alone, \<open>logit\<close>
  being the model's function of one pair.
\<close>

definition slot_local :: "32 word \<Rightarrow> (token_seq \<Rightarrow> f32) \<Rightarrow> (nat \<Rightarrow> nat \<Rightarrow> bool) \<Rightarrow> rk_slot \<Rightarrow> bool" where
  "slot_local pad logit ok slot \<longleftrightarrow>
     (\<exists>session. slot = Inr session \<and>
        (\<forall>seqs w t. seqs \<noteq> [] \<longrightarrow> 0 < w \<longrightarrow> ok (length seqs) w \<longrightarrow>
           build_tensors_from_ids seqs (length seqs) w pad False = Some t \<longrightarrow>
           (\<exists>raw. session t (length seqs) w = RkOk raw \<and> lg_shape raw = [length seqs, 1] \<and>
              (\<forall>i < length seqs. lg_at raw i 0 = logit (take w (seqs ! i))))))"

lemma run_slot_local:
  assumes "members \<noteq> []" "list_all (slot_local pad logit ok) members" "seqs \<noteq> []" "0 < w" "ok (length seqs) w"
    and t: "build_tensors_from_ids seqs (length seqs) w pad False = Some t"
  shows "run_slot members cursor lt rt et st t (length seqs) w n =
    Some (Inr (map (\<lambda>sq. logit (take w sq)) seqs),
          [RkPoolAcquire, RkInference (length seqs), RkPaddingWaste (sat_mul (length seqs) w) n])"
proof -
  have "cursor mod length members < length members" using assms(1) by simp
  then have "slot_local pad logit ok (members ! (cursor mod length members))"
    using assms(2) by (simp add: list_all_length)
  then obtain session raw where "members ! (cursor mod length members) = Inr session" "session t (length seqs) w = RkOk raw"
    "lg_shape raw = [length seqs, 1]" "\<forall>i < length seqs. lg_at raw i 0 = logit (take w (seqs ! i))"
    unfolding slot_local_def using assms(3-5) t by blast
  then show ?thesis
    using assms(1) by (auto simp: run_slot_def Let_def intro: nth_equalityI)
qed

text \<open>A model ready to score: sessions, and for every static pool members and a cursor.\<close>

definition rr_ok :: "(token_seq \<Rightarrow> f32) \<Rightarrow> RerankerModel \<Rightarrow> bool" where
  "rr_ok logit m \<longleftrightarrow>
     0 < rr_max_len m \<and> rr_sessions m \<noteq> [] \<and> list_all (slot_local (rr_pad_id m) logit (\<lambda>_ _. True)) (rr_sessions m) \<and>
     (\<forall>n p. map_of (rr_static_session_pools m) n = Some p \<longrightarrow>
        p \<noteq> [] \<and> list_all (slot_local (rr_pad_id m) logit (\<lambda>b w. b = n \<and> w = rr_max_len m)) p \<and>
        map_of (rr_static_session_cursors m) n \<noteq> None)"

lemma dynamic_width_take: "sq \<in> set seqs \<Longrightarrow> take (dynamic_width m seqs) sq = take (rr_max_len m) sq"
  using fold_max_le_iff [of "map length seqs" 0 "fold max (map length seqs) 0"]
  by (auto simp: dynamic_width_def min_def)

lemma dynamic_width_pos:
  assumes "0 < rr_max_len m" "sq \<in> set seqs" "sq \<noteq> []"
  shows "0 < dynamic_width m seqs"
proof -
  have "length sq \<le> fold max (map length seqs) 0"
    using fold_max_le_iff [of "map length seqs" 0 "fold max (map length seqs) 0"] assms(2) by auto
  then have "0 < fold max (map length seqs) 0" using assms(3) by (cases sq) auto
  then show ?thesis using assms(1) by (simp add: dynamic_width_def)
qed

lemma score_pairs_ok:
  assumes ok: "rr_ok logit m" and ne: "\<forall>sq \<in> set seqs. sq \<noteq> []"
  shows "\<exists>ms m'. score_pairs m seqs = Some (Inr (map (\<lambda>sq. logit (take (rr_max_len m) sq)) seqs), ms, m') \<and>
    rr_ok logit m' \<and> rr_max_len m' = rr_max_len m"
proof (cases "seqs = []")
  case True
  then show ?thesis using ok by (simp add: score_pairs_def)
next
  case False
  then obtain sq where sq: "sq \<in> set seqs" "sq \<noteq> []" using ne by (cases seqs) auto
  show ?thesis
  proof (cases "map_of (rr_static_session_pools m) (length seqs)")
    case None
    let ?w = "dynamic_width m seqs"
    have w: "0 < ?w" using dynamic_width_pos ok sq by (auto simp: rr_ok_def)
    obtain t where t: "build_tensors_from_ids seqs (length seqs) ?w (rr_pad_id m) False = Some t"
      by (simp add: build_tensors_rows)
    have "map (\<lambda>sq. logit (take ?w sq)) seqs = map (\<lambda>sq. logit (take (rr_max_len m) sq)) seqs"
      by (simp add: dynamic_width_take)
    moreover have "rr_ok logit (m\<lparr>rr_next := k\<rparr>)" for k using ok by (simp add: rr_ok_def)
    ultimately show ?thesis
      using run_slot_local [OF _ _ False w _ t, of "rr_sessions m" logit "\<lambda>_ _. True"] ok None t False
      by (auto simp: score_pairs_def Let_def rr_ok_def)
  next
    case (Some p)
    then obtain cur where c: "map_of (rr_static_session_cursors m) (length seqs) = Some cur"
      and p: "p \<noteq> []" "list_all (slot_local (rr_pad_id m) logit (\<lambda>b w. b = length seqs \<and> w = rr_max_len m)) p"
      using ok by (auto simp: rr_ok_def)
    have w: "0 < rr_max_len m" using ok by (simp add: rr_ok_def)
    obtain t where t: "build_tensors_from_ids seqs (length seqs) (rr_max_len m) (rr_pad_id m) False = Some t"
      by (simp add: build_tensors_rows)
    have "rr_ok logit (m\<lparr>rr_static_session_cursors := AList.update (length seqs) k (rr_static_session_cursors m)\<rparr>)" for k
      using ok by (auto simp: rr_ok_def update_conv')
    then show ?thesis
      using run_slot_local [OF p False w _ t] Some c t False
      by (auto simp: score_pairs_def score_pairs_static_def Let_def)
  qed
qed

text \<open>What the session builder promises: as many sessions as asked for, each with the graph of its file.\<close>

definition builder_ok :: "(string \<Rightarrow> nat \<Rightarrow> string + rk_slot list) \<Rightarrow> 32 word \<Rightarrow> nat \<Rightarrow> (token_seq \<Rightarrow> f32) \<Rightarrow> bool" where
  "builder_ok build pad ml logit \<longleftrightarrow>
     (\<forall>f n p. build f n = Inr p \<longrightarrow> length p = n \<and>
        (f = ''model_quantized.onnx'' \<longrightarrow> list_all (slot_local pad logit (\<lambda>_ _. True)) p) \<and>
        (\<forall>b. serves_batch f b \<longrightarrow> list_all (slot_local pad logit (\<lambda>b' w. b' = b \<and> w = ml)) p))"

lemma map_of_zero_cursors: "map_of (map (\<lambda>(k, _). (k, 0)) pools) n = map_option (\<lambda>_. 0) (map_of pools n)"
  by (induction pools) auto

lemma reranker_load_ok:
  assumes load: "reranker_load le d nm dir ml padded ps = Inr m" and "0 < ml" and b: "builder_ok (le_build le) (rr_pad_id m) ml logit"
  shows "rr_ok logit m" "rr_max_len m = ml" "rr_next m = 0"
proof -
  obtain sessions where s: "le_build le ''model_quantized.onnx'' (max ps 1) = Inr sessions" "rr_sessions m = sessions"
    and m: "rr_max_len m = ml" "rr_next m = 0" "rr_static_session_pools m = load_static_session_pools (le_build le) d"
      "rr_static_session_cursors m = map (\<lambda>(k, _). (k, 0)) (load_static_session_pools (le_build le) d)"
    using load by (auto simp: reranker_load_def bind_res_Inr_iff Let_def split: if_splits)
  show "rr_max_len m = ml" "rr_next m = 0" by (rule m)+
  have "sessions \<noteq> []" "list_all (slot_local (rr_pad_id m) logit (\<lambda>_ _. True)) sessions"
    using b s(1) by (fastforce simp: builder_ok_def)+
  moreover have "p \<noteq> [] \<and> list_all (slot_local (rr_pad_id m) logit (\<lambda>b w. b = n \<and> w = ml)) p"
    if p: "map_of (load_static_session_pools (le_build le) d) n = Some p" for n p
    using load_static_pools_lookup [OF p] b by (fastforce simp: builder_ok_def STATIC_POOL_SIZE_PER_SHAPE_def)
  ultimately show "rr_ok logit m"
    using \<open>0 < ml\<close> s m by (auto simp: rr_ok_def map_of_zero_cursors)
qed

lemma score_all_ok:
  "rr_ok logit m \<Longrightarrow> \<forall>seqs \<in> set reqs. \<forall>sq \<in> set seqs. sq \<noteq> [] \<Longrightarrow>
   score_all m reqs = Some (map (\<lambda>seqs. Inr (map (\<lambda>sq. logit (take (rr_max_len m) sq)) seqs)) reqs)"
proof (induction reqs arbitrary: m)
  case (Cons seqs reqs)
  then obtain ms m' where "score_pairs m seqs = Some (Inr (map (\<lambda>sq. logit (take (rr_max_len m) sq)) seqs), ms, m')"
    "rr_ok logit m'" "rr_max_len m' = rr_max_len m"
    using score_pairs_ok [of logit m seqs] by auto
  then show ?case using Cons.IH [of m'] Cons.prems by simp
qed simp

section \<open>Scores do not depend on the route\<close>

text \<open>
  C18. Load a reranker from a directory with any collection of static graphs, where every pool the
  builder returns has the requested number of sessions and each session computes the logit
  of a row from the tokens of that row (a static one only for the batch size its file is
  named for and the model's length). Then for every sequence of batches of non-empty pairs
  all calls succeed, and each returns the logit of every pair alone, clipped to the model's
  length, in order: neither the pool chosen, nor the padding width, nor the position of a
  cursor can be observed, and no index or remainder panics.
\<close>

theorem reranker_scores:
  assumes "reranker_load le d nm dir ml padded ps = Inr m"
    and "0 < ml"
    and "builder_ok (le_build le) (rr_pad_id m) ml logit"
    and "\<forall>seqs \<in> set reqs. \<forall>sq \<in> set seqs. sq \<noteq> []"
  shows "score_all m reqs = Some (map (\<lambda>seqs. Inr (map (\<lambda>sq. logit (take ml sq)) seqs)) reqs)"
  using score_all_ok [OF reranker_load_ok(1) [OF assms(1-3)] assms(4)] reranker_load_ok(2) [OF assms(1-3)] by simp

text \<open>A directory with two static graphs, and sessions that answer with the first token of a row.\<close>

definition wit_rr_session :: "tensors \<Rightarrow> nat \<Rightarrow> nat \<Rightarrow> rk_outcome" where
  "wit_rr_session t batch w =
     RkOk \<lparr>lg_shape = [batch, 1], lg_at = \<lambda>i j. F32 (word_of_int (hd (chunk_rows batch w (fst t) ! i)))\<rparr>"

definition wit_rr_env :: load_env where
  "wit_rr_env = \<lparr>le_build = \<lambda>f n. Inr (replicate n (Inr wit_rr_session)),
     le_from_file = Inr \<lparr>tc_truncation = None, tc_padding = Some 7,
       tk_token_to_id = \<lambda>s. if s = ''[PAD]'' then Some 3 else None\<rparr>, le_with_truncation = \<lambda>_. Inr ()\<rparr>"

definition wit_rr_dir :: dir_view where
  "wit_rr_dir = \<lparr>dv_entries = Some [''model_quantized.onnx'', ''tokenizer.json'', ''model_quantized_static_b2.onnx'', ''model_quantized_static.onnx''],
     dv_exists = \<lambda>f. f \<noteq> ''missing''\<rparr>"

definition wit_rr_model :: RerankerModel where
  "wit_rr_model = \<lparr>rr_name = ''rr'', rr_sessions = [Inr wit_rr_session], rr_next = 0, rr_max_len = 4, rr_padded_model = True,
     rr_pad_id = 3,
     rr_static_session_pools = [(1, [Inr wit_rr_session, Inr wit_rr_session]), (2, [Inr wit_rr_session, Inr wit_rr_session])],
     rr_static_session_cursors = [(1, 0), (2, 0)]\<rparr>"

definition wit_logit :: "token_seq \<Rightarrow> f32" where
  "wit_logit sq = F32 (if sq = [] then 3 else hd sq)"

lemma wit_session_local: "slot_local 3 wit_logit ok (Inr wit_rr_session)"
proof -
  have "word_of_int (hd (ids_row w (uint (3 :: 32 word)) sq)) = (if sq = [] then 3 else hd sq)" if "0 < w" for w and sq :: token_seq
    using that by (cases w; cases sq) (simp_all add: ids_row_def)
  moreover have "chunk_rows (length seqs) w (concat (map (ids_row w p) seqs)) = map (ids_row w p) seqs" for seqs w p
  proof -
    have "length r = w" if "r \<in> set (map (ids_row w p) seqs)" for r using that by auto
    then show ?thesis using chunk_rows_concat [of "map (ids_row w p) seqs" w] by simp
  qed
  ultimately show ?thesis
    by (auto simp: slot_local_def build_tensors_rows wit_rr_session_def wit_logit_def)
qed

lemma wit_static_batch:
  "static_batch ''model_quantized.onnx'' = None" "static_batch ''tokenizer.json'' = None"
  "static_batch ''model_quantized_static.onnx'' = None" "static_batch ''model_quantized_static_b2.onnx'' = Some 2"
  by (simp_all add: static_batch_def starts_with_def ends_with_def PREFIX_EXPLICIT_def parse_uint_def is_digit_def)

lemma wit_rr_load: "reranker_load wit_rr_env wit_rr_dir ''rr'' ''/m'' 4 True 1 = Inr wit_rr_model"
  by (simp add: introspect_graph_inputs_def reranker_load_def wit_rr_env_def wit_rr_dir_def wit_rr_model_def configure_truncation_def discover_pad_id_def
      load_static_session_pools_def discover_static_shape_files_def scan_files_def wit_static_batch LEGACY_FILENAME_def
      STATIC_POOL_SIZE_PER_SHAPE_def numeral_2_eq_2)

lemma wit_builder_ok: "builder_ok (le_build wit_rr_env) (rr_pad_id wit_rr_model) 4 wit_logit"
  by (auto simp: builder_ok_def wit_rr_env_def wit_rr_model_def wit_session_local list_all_iff)

theorem reranker_scores_witness:
  "score_all wit_rr_model [[[5, 6]], [[7], [8, 9]], [[1], [2], [3, 4, 5, 6, 7]]] =
     Some [Inr [F32 5], Inr [F32 7, F32 8], Inr [F32 1, F32 2, F32 3]]"
  using reranker_scores [OF wit_rr_load _ wit_builder_ok, of "[[[5, 6]], [[7], [8, 9]], [[1], [2], [3, 4, 5, 6, 7]]]"]
  by (simp add: wit_logit_def)

end
