(* ===== verification/Http.thy ===== *)
theory Http
  imports Ipc
begin

text \<open>
  What the HTTP handlers share (\<open>src/src/types.rs\<close>): request and response types, error
  bodies and the classification of worker errors (\<open>src/src/metrics.rs\<close>). A handler either
  responds or panics; a response is a status, an optional \<open>Retry-After\<close> and a body.
\<close>

section \<open>Requests\<close>

datatype EncodingFormat = FormatFloat | FormatBase64
datatype InputType = Document | Query
datatype InputField = Single string | Batch "string list"

fun into_vec :: "InputField \<Rightarrow> string list" where
  "into_vec (Single s) = [s]"
| "into_vec (Batch v) = v"

text \<open>\<open>EmbedRequest\<close> of the HTTP API (the IPC message of the same name is another type).\<close>

record EmbedHttpRequest =
  req_input :: InputField
  req_model :: "string option"
  req_encoding_format :: "EncodingFormat option"
  req_input_type :: "InputType option"

text \<open>\<open>unwrap_or_default\<close> for the two enums.\<close>

definition encoding_format_or_default :: "EncodingFormat option \<Rightarrow> EncodingFormat" where
  "encoding_format_or_default x = (case x of None \<Rightarrow> FormatFloat | Some f \<Rightarrow> f)"

definition input_type_or_default :: "InputType option \<Rightarrow> InputType" where
  "input_type_or_default x = (case x of None \<Rightarrow> Document | Some t \<Rightarrow> t)"

section \<open>Responses\<close>

datatype EmbeddingValue = Vector "f32 list" | Base64 string

record EmbedData =
  ed_embedding :: EmbeddingValue
  ed_index :: nat

record Usage =
  prompt_tokens :: "32 word"
  total_tokens_u :: "32 word"

record ErrorDetail =
  message :: string
  error_type :: string

record InputArrayTooLargeDetail =
  tl_error_type :: string
  tl_code :: string
  tl_message :: string
  tl_cap :: nat
  tl_received :: nat

datatype 'b body = Ok 'b | Err ErrorDetail | TooLarge InputArrayTooLargeDetail

record 'b response =
  status :: nat
  retry_after :: "string option"
  body :: "'b body"

datatype 'b handled = Respond "'b response" | Panic string

definition respond_ok :: "'b \<Rightarrow> 'b handled" where
  [http_simps]: "respond_ok b = Respond \<lparr>status = 200, retry_after = None, body = Ok b\<rparr>"

definition respond_err :: "nat \<Rightarrow> string option \<Rightarrow> string \<Rightarrow> string \<Rightarrow> 'b handled" where
  [http_simps]: "respond_err st ra msg ty =
     Respond \<lparr>status = st, retry_after = ra, body = Err \<lparr>message = msg, error_type = ty\<rparr>\<rparr>"

definition error_json :: "string \<Rightarrow> 'b handled" where
  [http_simps]: "error_json msg = respond_err 400 None msg ''invalid_request_error''"

fun status_of :: "'b handled \<Rightarrow> nat option" where
  "status_of (Respond r) = Some (status r)"
| "status_of (Panic _) = None"

lemma status_of_simps [simp]:
  "status_of (respond_ok b) = Some 200" "status_of (respond_err st ra msg ty) = Some st"
  "status_of (error_json msg) = Some 400"
  by (simp_all add: http_simps)

lemma respond_distinct [simp]:
  "respond_ok b \<noteq> respond_err st ra msg ty" "respond_err st ra msg ty \<noteq> respond_ok b"
  "respond_ok b \<noteq> error_json msg" "error_json msg \<noteq> respond_ok b"
  "respond_ok b \<noteq> Panic e" "Panic e \<noteq> respond_ok b"
  "respond_ok b = respond_ok b' \<longleftrightarrow> b = b'"
  by (auto simp: http_simps)

section \<open>Worker errors\<close>

definition classify_worker_error :: "string \<Rightarrow> string" where
  "classify_worker_error msg =
     (let m = to_ascii_lowercase msg in
      if str_contains m ''queue overflow'' then ''queue_overflow''
      else if str_contains m ''semaphore closed'' then ''semaphore_closed''
      else if str_contains m ''saturated'' then ''worker_saturated''
      else if str_contains m ''bfcarena'' \<or> str_contains m ''arena'' \<or> str_contains m ''oom'' then ''arena_oom''
      else if str_contains m ''kind mismatch'' then ''kind_mismatch''
      else if str_contains m ''tokeniz'' then ''tokenize''
      else ''other'')"

text \<open>The outcome of a dispatch through the worker pool (\<open>src/src/supervisor/pool.rs\<close>).\<close>

datatype DispatchError = NoWorker string | Timeout string nat | IpcError io_error

end
