(* ===== verification/Caches.thy ===== *)
theory Caches
  imports Http "HOL-Library.AList"
begin

text \<open>
  The embedding cache (\<open>src/src/cache.rs\<close>), the token cache (\<open>src/src/token_cache.rs\<close>) and
  the partition of a request into hits and misses (\<open>src/src/cache_flow.rs\<close>). The concurrent
  map behind both caches (moka) and SHA-256 are parameters; what the program relies on of the
  map is the interface \<open>lossy_store\<close>: it may forget entries at any time but never invents
  or alters one.
\<close>

section \<open>The store behind the caches\<close>

record ('s, 'k, 'v) moka =
  mk_new :: "nat \<Rightarrow> 's"
  mk_get :: "'s \<Rightarrow> 'k \<Rightarrow> 's \<times> 'v option"
  mk_insert :: "'s \<Rightarrow> 'k \<Rightarrow> 'v \<Rightarrow> 's"
  mk_len :: "'s \<Rightarrow> nat"

locale lossy_store =
  fixes get :: "'s \<Rightarrow> 'k \<Rightarrow> 's \<times> 'v option"
    and insert :: "'s \<Rightarrow> 'k \<Rightarrow> 'v \<Rightarrow> 's"
    and view :: "'s \<Rightarrow> 'k \<Rightarrow> 'v option"
  assumes get_result: "get s k = (s', Some v) \<Longrightarrow> view s k = Some v"
    and get_keeps: "get s k = (s', r) \<Longrightarrow> view s' k' = Some v \<Longrightarrow> view s k' = Some v"
    and insert_keeps: "view (insert s k v) k' = Some w \<Longrightarrow> (if k' = k then w = v else view s k' = Some w)"
begin

text \<open>
  Soundness of a store: every entry satisfies \<open>P\<close>. It is kept by lookups, and by the
  insertion of a pair that satisfies \<open>P\<close>; a hit satisfies \<open>P\<close>.
\<close>

definition sound :: "('k \<Rightarrow> 'v \<Rightarrow> bool) \<Rightarrow> 's \<Rightarrow> bool" where
  "sound P s \<longleftrightarrow> (\<forall>k v. view s k = Some v \<longrightarrow> P k v)"

lemma sound_get: "sound P s \<Longrightarrow> get s k = (s', r) \<Longrightarrow> sound P s' \<and> (\<forall>v. r = Some v \<longrightarrow> P k v)"
  unfolding sound_def by (metis get_result get_keeps)

lemma sound_insert: "sound P s \<Longrightarrow> P k v \<Longrightarrow> sound P (insert s k v)"
  unfolding sound_def by (metis insert_keeps)

end

section \<open>Embedding cache\<close>

type_synonym ('s) embedding_cache = "'s option"

definition hash_text :: "(string \<Rightarrow> 'h) \<Rightarrow> string \<Rightarrow> 'h" where
  "hash_text sha text = sha text"

definition cache_new :: "('s, 'k, 'v) moka \<Rightarrow> nat \<Rightarrow> 's option" where
  "cache_new m max_entries = (if max_entries = 0 then None else Some (mk_new m max_entries))"

definition is_enabled :: "'s option \<Rightarrow> bool" where
  "is_enabled c \<longleftrightarrow> c \<noteq> None"

definition cache_get ::
  "('s, string \<times> 'h, 'v) moka \<Rightarrow> (string \<Rightarrow> 'h) \<Rightarrow> 's option \<Rightarrow> string \<Rightarrow> string \<Rightarrow> 's option \<times> 'v option" where
  "cache_get m sha c model text =
     (case c of None \<Rightarrow> (None, None)
      | Some s \<Rightarrow> (case mk_get m s (model, hash_text sha text) of (s', r) \<Rightarrow> (Some s', r)))"

definition cache_insert ::
  "('s, string \<times> 'h, 'v) moka \<Rightarrow> (string \<Rightarrow> 'h) \<Rightarrow> 's option \<Rightarrow> string \<Rightarrow> string \<Rightarrow> 'v \<Rightarrow> 's option" where
  "cache_insert m sha c model text v =
     (case c of None \<Rightarrow> None | Some s \<Rightarrow> Some (mk_insert m s (model, hash_text sha text) v))"

definition cache_len :: "('s, 'k, 'v) moka \<Rightarrow> 's option \<Rightarrow> nat" where
  "cache_len m c = (case c of None \<Rightarrow> 0 | Some s \<Rightarrow> mk_len m s)"

section \<open>Token cache\<close>

text \<open>The hash of a pair: the bytes of the query, a zero byte, the bytes of the document.\<close>

definition hash_pair :: "(string \<Rightarrow> 'h) \<Rightarrow> string \<Rightarrow> string \<Rightarrow> 'h" where
  "hash_pair sha q d = sha (q @ CHR 0x00 # d)"

definition token_cache_get ::
  "('s, string \<times> 'h, 'v) moka \<Rightarrow> (string \<Rightarrow> 'h) \<Rightarrow> 's option \<Rightarrow> string \<Rightarrow> string \<Rightarrow> string \<Rightarrow> 's option \<times> 'v option" where
  "token_cache_get m sha c model q d =
     (case c of None \<Rightarrow> (None, None)
      | Some s \<Rightarrow> (case mk_get m s (model, hash_pair sha q d) of (s', r) \<Rightarrow> (Some s', r)))"

definition token_cache_insert ::
  "('s, string \<times> 'h, 'v) moka \<Rightarrow> (string \<Rightarrow> 'h) \<Rightarrow> 's option \<Rightarrow> string \<Rightarrow> string \<Rightarrow> string \<Rightarrow> 'v \<Rightarrow> 's option" where
  "token_cache_insert m sha c model q d v =
     (case c of None \<Rightarrow> None | Some s \<Rightarrow> Some (mk_insert m s (model, hash_pair sha q d) v))"

section \<open>Partition into hits and misses\<close>

text \<open>
  The \<open>HashMap\<close> of misses as the association list of its entries in the order of first
  insertion; the order in which the program later iterates over it is a parameter there.
\<close>

type_synonym pending_misses = "(string \<times> nat list) list"

fun pending_push :: "pending_misses \<Rightarrow> string \<Rightarrow> nat \<Rightarrow> pending_misses" where
  "pending_push [] t i = [(t, [i])]"
| "pending_push ((u, ps) # rest) t i = (if u = t then (u, ps @ [i]) # rest else (u, ps) # pending_push rest t i)"

fun partition_from ::
  "('s, string \<times> 'h, 'v) moka \<Rightarrow> (string \<Rightarrow> 'h) \<Rightarrow> string \<Rightarrow> nat \<Rightarrow> string list \<Rightarrow>
   's option \<Rightarrow> 'v option list \<Rightarrow> pending_misses \<Rightarrow> 's option \<times> 'v option list \<times> pending_misses" where
  "partition_from m sha model i [] c cached pending = (c, cached, pending)"
| "partition_from m sha model i (t # ts) c cached pending =
     (case cache_get m sha c model t of
        (c', Some v) \<Rightarrow> partition_from m sha model (Suc i) ts c' (cached[i := Some v]) pending
      | (c', None) \<Rightarrow> partition_from m sha model (Suc i) ts c' cached (pending_push pending t i))"

definition partition_hits_and_misses ::
  "('s, string \<times> 'h, 'v) moka \<Rightarrow> (string \<Rightarrow> 'h) \<Rightarrow> 's option \<Rightarrow> string \<Rightarrow> string list \<Rightarrow>
   's option \<times> 'v option list \<times> pending_misses" where
  "partition_hits_and_misses m sha c model texts =
     partition_from m sha model 0 texts c (replicate (length texts) None) []"

section \<open>A cache over a store is a store\<close>

definition opt_get :: "('s, 'k, 'v) moka \<Rightarrow> 's option \<Rightarrow> 'k \<Rightarrow> 's option \<times> 'v option" where
  "opt_get m c k = (case c of None \<Rightarrow> (None, None) | Some s \<Rightarrow> (case mk_get m s k of (s', r) \<Rightarrow> (Some s', r)))"

definition opt_insert :: "('s, 'k, 'v) moka \<Rightarrow> 's option \<Rightarrow> 'k \<Rightarrow> 'v \<Rightarrow> 's option" where
  "opt_insert m c k v = (case c of None \<Rightarrow> None | Some s \<Rightarrow> Some (mk_insert m s k v))"

definition opt_view :: "('s \<Rightarrow> 'k \<Rightarrow> 'v option) \<Rightarrow> 's option \<Rightarrow> 'k \<Rightarrow> 'v option" where
  "opt_view view c k = (case c of None \<Rightarrow> None | Some s \<Rightarrow> view s k)"

lemma cache_ops_opt:
  "cache_get m sha c model t = opt_get m c (model, hash_text sha t)"
  "cache_insert m sha c model t v = opt_insert m c (model, hash_text sha t) v"
  "token_cache_get m sha c model q d = opt_get m c (model, hash_pair sha q d)"
  "token_cache_insert m sha c model q d w = opt_insert m c (model, hash_pair sha q d) w"
  by (simp_all add: cache_get_def cache_insert_def token_cache_get_def token_cache_insert_def
      opt_get_def opt_insert_def split: option.splits)

text \<open>The backend of the caches, and the cache itself as a store again.\<close>

locale cache_backend = store: lossy_store "mk_get m" "mk_insert m" view
  for m :: "('s, 'k, 'v) moka" and view :: "'s \<Rightarrow> 'k \<Rightarrow> 'v option"
begin

lemma opt_lossy: "lossy_store (opt_get m) (opt_insert m) (opt_view view)"
proof
  fix s :: "'s option" and k s' v
  assume "opt_get m s k = (s', Some v)"
  then show "opt_view view s k = Some v"
    by (auto simp: opt_get_def opt_view_def split: option.splits prod.splits dest: store.get_result)
next
  fix s :: "'s option" and k s' r k' v
  assume "opt_get m s k = (s', r)" and "opt_view view s' k' = Some v"
  then show "opt_view view s k' = Some v"
    by (auto simp: opt_get_def opt_view_def split: option.splits prod.splits dest: store.get_keeps)
next
  fix s :: "'s option" and k v k' w
  assume a: "opt_view view (opt_insert m s k v) k' = Some w"
  show "if k' = k then w = v else opt_view view s k' = Some w"
  proof (cases s)
    case (Some t)
    with a have "view (mk_insert m t k v) k' = Some w"
      by (simp add: opt_insert_def opt_view_def)
    from store.insert_keeps [OF this] Some show ?thesis by (simp add: opt_view_def)
  qed (use a in \<open>simp add: opt_insert_def opt_view_def\<close>)
qed

end

sublocale cache_backend \<subseteq> cache: lossy_store "opt_get m" "opt_insert m" "opt_view view"
  by (rule opt_lossy)

text \<open>Every entry of a cache, enabled or not, satisfies a predicate.\<close>

definition cache_sound :: "('s \<Rightarrow> 'k \<Rightarrow> 'v option) \<Rightarrow> ('k \<Rightarrow> 'v \<Rightarrow> bool) \<Rightarrow> 's option \<Rightarrow> bool" where
  "cache_sound view P c \<longleftrightarrow> (\<forall>k v. opt_view view c k = Some v \<longrightarrow> P k v)"

context cache_backend
begin

lemma cache_sound_iff: "cache_sound view P c \<longleftrightarrow> cache.sound P c"
  by (simp add: cache_sound_def cache.sound_def)

lemma cache_get_sound:
  "cache_sound view P c \<Longrightarrow> opt_get m c k = (c', r) \<Longrightarrow> cache_sound view P c' \<and> (\<forall>v. r = Some v \<longrightarrow> P k v)"
  unfolding cache_sound_iff by (rule cache.sound_get)

lemma cache_insert_sound: "cache_sound view P c \<Longrightarrow> P k v \<Longrightarrow> cache_sound view P (opt_insert m c k v)"
  unfolding cache_sound_iff by (rule cache.sound_insert)

end

lemma cache_backendI: "lossy_store (mk_get m) (mk_insert m) view \<Longrightarrow> cache_backend m view"
  by (rule cache_backend.intro)

section \<open>A store with LRU eviction\<close>

text \<open>
  The behaviour the embedding cache configures (\<open>EvictionPolicy::lru()\<close>), as a list with the
  most recent entry first.
\<close>

type_synonym ('k, 'v) lru = "nat \<times> ('k \<times> 'v) list"

definition lru_get :: "('k, 'v) lru \<Rightarrow> 'k \<Rightarrow> ('k, 'v) lru \<times> 'v option" where
  "lru_get c k = (case c of (n, es) \<Rightarrow> (case map_of es k of
     None \<Rightarrow> (c, None) | Some v \<Rightarrow> ((n, (k, v) # AList.delete k es), Some v)))"

definition lru_insert :: "('k, 'v) lru \<Rightarrow> 'k \<Rightarrow> 'v \<Rightarrow> ('k, 'v) lru" where
  "lru_insert c k v = (case c of (n, es) \<Rightarrow> (n, take n ((k, v) # AList.delete k es)))"

definition lru_view :: "('k, 'v) lru \<Rightarrow> 'k \<Rightarrow> 'v option" where
  "lru_view c k = map_of (snd c) k"

definition lru_moka :: "(('k, 'v) lru, 'k, 'v) moka" where
  "lru_moka = \<lparr>mk_new = (\<lambda>n. (n, [])), mk_get = lru_get, mk_insert = lru_insert, mk_len = length \<circ> snd\<rparr>"

lemma map_of_take: "map_of (take n es) k = Some v \<Longrightarrow> map_of es k = Some v"
  by (induction es arbitrary: n) (auto simp: take_Cons split: nat.splits if_splits)

interpretation lru: cache_backend lru_moka lru_view
proof
  fix s :: "('k, 'v) lru" and k s' v
  assume "mk_get lru_moka s k = (s', Some v)"
  then show "lru_view s k = Some v"
    by (auto simp: lru_moka_def lru_get_def lru_view_def split: option.splits prod.splits)
next
  fix s :: "('k, 'v) lru" and k s' r k' v
  assume "mk_get lru_moka s k = (s', r)" and "lru_view s' k' = Some v"
  then show "lru_view s k' = Some v"
    by (auto simp: lru_moka_def lru_get_def lru_view_def AList.delete_conv split: option.splits prod.splits if_splits)
next
  fix s :: "('k, 'v) lru" and k v k' w
  assume "lru_view (mk_insert lru_moka s k v) k' = Some w"
  then show "if k' = k then w = v else lru_view s k' = Some w"
    by (auto simp: lru_moka_def lru_insert_def lru_view_def AList.delete_conv split: prod.splits if_splits
        dest!: map_of_take)
qed

section \<open>What the partition computes\<close>

definition positions :: "pending_misses \<Rightarrow> string \<Rightarrow> nat list" where
  "positions pending t = (case map_of pending t of None \<Rightarrow> [] | Some ps \<Rightarrow> ps)"

definition pending_ok :: "pending_misses \<Rightarrow> bool" where
  "pending_ok pending \<longleftrightarrow> distinct (map fst pending) \<and> (\<forall>(t, ps) \<in> set pending. ps \<noteq> [])"

lemma positions_Cons: "positions ((u, ps) # rest) t = (if t = u then ps else positions rest t)"
  by (simp add: positions_def)

lemma positions_key: "j \<in> set (positions p t) \<Longrightarrow> t \<in> set (map fst p)"
  by (cases "map_of p t") (simp_all add: positions_def, force dest: map_of_SomeD)

lemma positions_push: "positions (pending_push p t i) u = (if u = t then positions p t @ [i] else positions p u)"
  by (induction p t i rule: pending_push.induct) (auto simp: positions_Cons, auto simp: positions_def)

lemma pending_push_keys: "set (map fst (pending_push p t i)) = insert t (set (map fst p))"
  by (induction p t i rule: pending_push.induct) auto

lemma pending_push_ok: "pending_ok p \<Longrightarrow> pending_ok (pending_push p t i)"
  unfolding pending_ok_def
proof (induction p t i rule: pending_push.induct)
  case (2 u ps rest t i)
  then show ?case using pending_push_keys [of rest t i] by (auto split: if_splits)
qed simp

lemma pending_push_total: "sum_list (map (length \<circ> snd) (pending_push p t i)) = Suc (sum_list (map (length \<circ> snd) p))"
  by (induction p t i rule: pending_push.induct) auto

text \<open>The loop invariant of the partition, for the first \<open>i\<close> texts.\<close>

definition partition_inv :: "string list \<Rightarrow> nat \<Rightarrow> 'v option list \<Rightarrow> pending_misses \<Rightarrow> bool" where
  "partition_inv texts i cached pending \<longleftrightarrow>
     length cached = length texts \<and> pending_ok pending \<and>
     (\<forall>j < length texts. i \<le> j \<longrightarrow> cached ! j = None) \<and>
     (\<forall>t. positions pending t = filter (\<lambda>j. cached ! j = None \<and> texts ! j = t) [0..<i]) \<and>
     length (filter (\<lambda>x. x \<noteq> None) cached) + sum_list (map (length \<circ> snd) pending) = i"

lemma drop_ConsD: "drop i xs = y # ys \<Longrightarrow> i < length xs \<and> y = xs ! i \<and> ys = drop (Suc i) xs"
  by (metis Cons_nth_drop_Suc drop_all leI list.distinct(1) list.inject)

lemma partition_inv_hit:
  assumes "partition_inv texts i cached pending" and "i < length texts"
  shows "partition_inv texts (Suc i) (cached[i := Some v]) pending"
proof -
  have "filter (\<lambda>j. cached[i := Some v] ! j = None \<and> texts ! j = t) [0..<Suc i] =
        filter (\<lambda>j. cached ! j = None \<and> texts ! j = t) [0..<i]" for t
    using assms by (auto simp: partition_inv_def intro!: filter_cong)
  moreover have "length (filter (\<lambda>x. x \<noteq> None) (cached[i := Some v])) = Suc (length (filter (\<lambda>x. x \<noteq> None) cached))"
    using length_filter_update [of i cached "\<lambda>x. x \<noteq> None" "Some v"] assms by (simp add: partition_inv_def)
  ultimately show ?thesis
    using assms by (simp add: partition_inv_def nth_list_update)
qed

lemma partition_inv_miss:
  assumes "partition_inv texts i cached pending" and "i < length texts"
  shows "partition_inv texts (Suc i) cached (pending_push pending (texts ! i) i)"
  using assms by (auto simp: partition_inv_def positions_push pending_push_ok pending_push_total)

lemma partition_from_inv:
  assumes "partition_from m sha model i ts c cached pending = (c', cached', pending')"
    and "partition_inv texts i cached pending" and "ts = drop i texts" and "i \<le> length texts"
  shows "partition_inv texts (length texts) cached' pending'"
  using assms
proof (induction m sha model i ts c cached pending rule: partition_from.induct)
  case (1 m sha model i c cached pending)
  then show ?case by simp
next
  case (2 m sha model i t ts c cached pending)
  note [simp] = drop_ConsD [OF "2.prems"(3) [symmetric]]
  obtain c1 r where g: "cache_get m sha c model t = (c1, r)" by fastforce
  show ?case
  proof (cases r)
    case (Some v)
    then show ?thesis
      using "2.IH"(2) [OF g [symmetric] Some] "2.prems" g partition_inv_hit [of texts i cached pending v]
      by (simp add: Suc_le_eq)
  next
    case None
    then show ?thesis
      using "2.IH"(1) [OF g [symmetric] None] "2.prems" g partition_inv_miss [of texts i cached pending]
      by (simp add: Suc_le_eq)
  qed
qed

lemma partition_spec:
  assumes "partition_hits_and_misses m sha c model texts = (c', cached, pending)"
  shows "partition_inv texts (length texts) cached pending"
  using assms unfolding partition_hits_and_misses_def
  by (rule partition_from_inv) (auto simp: partition_inv_def pending_ok_def positions_def)

lemma partition_from_sound:
  assumes "cache_backend m view"
    and "partition_from m sha model i ts c cached pending = (c', cached', pending')"
    and "cache_sound view P c" and "ts = drop i texts" and "length cached = length texts"
    and "\<forall>j < length texts. \<forall>v. cached ! j = Some v \<longrightarrow> P (model, hash_text sha (texts ! j)) v"
  shows "cache_sound view P c' \<and>
         (\<forall>j < length texts. \<forall>v. cached' ! j = Some v \<longrightarrow> P (model, hash_text sha (texts ! j)) v)"
  using assms
proof (induction m sha model i ts c cached pending rule: partition_from.induct)
  case (1 m sha model i c cached pending)
  then show ?case by simp
next
  case (2 m sha model i t ts c cached pending)
  note [simp] = drop_ConsD [OF "2.prems"(4) [symmetric]]
  obtain c1 r where g: "cache_get m sha c model t = (c1, r)" by fastforce
  then have c1: "cache_sound view P c1" "\<And>v. r = Some v \<Longrightarrow> P (model, hash_text sha t) v"
    using cache_backend.cache_get_sound [OF "2.prems"(1,3)] by (auto simp: cache_ops_opt)
  show ?case
  proof (cases r)
    case (Some v)
    have "\<forall>j < length texts. \<forall>w. cached[i := Some v] ! j = Some w \<longrightarrow> P (model, hash_text sha (texts ! j)) w"
      using "2.prems"(5,6) c1(2) [OF Some] by (auto simp: nth_list_update)
    then show ?thesis
      using "2.IH"(2) [OF g [symmetric] Some "2.prems"(1)] "2.prems"(2,5) g Some c1(1) by simp
  next
    case None
    then show ?thesis
      using "2.IH"(1) [OF g [symmetric] None "2.prems"(1)] "2.prems"(2,5,6) g c1(1) by simp
  qed
qed

lemma append_sep_inj: "xs @ x # zs = ys @ x # ws \<Longrightarrow> x \<notin> set xs \<Longrightarrow> x \<notin> set ys \<Longrightarrow> xs = ys \<and> zs = ws"
proof (induction xs arbitrary: ys)
  case Nil
  then show ?case by (cases ys) auto
next
  case (Cons y xs)
  then show ?case by (cases ys) auto
qed

lemma partition_sound:
  assumes "lossy_store (mk_get m) (mk_insert m) view"
    and "partition_hits_and_misses m sha c model texts = (c', cached, pending)"
    and "cache_sound view P c"
  shows "cache_sound view P c' \<and>
         (\<forall>j < length texts. \<forall>v. cached ! j = Some v \<longrightarrow> P (model, hash_text sha (texts ! j)) v)"
  using cache_backendI [OF assms(1)] assms(2) [unfolded partition_hits_and_misses_def] assms(3)
  by (rule partition_from_sound) simp_all

lemma partition_covers:
  assumes "partition_hits_and_misses m sha c model texts = (c', cached, pending)"
  shows "length cached = length texts \<and> distinct (map fst pending) \<and> (\<forall>(t, ps) \<in> set pending. ps \<noteq> []) \<and>
         (\<forall>t. positions pending t = filter (\<lambda>j. cached ! j = None \<and> texts ! j = t) [0..<length texts]) \<and>
         length (filter (\<lambda>x. x \<noteq> None) cached) + sum_list (map (length \<circ> snd) pending) = length texts"
  using partition_spec [OF assms] by (auto simp: partition_inv_def pending_ok_def)

section \<open>Properties\<close>

text \<open>
  C23. The partition of a request into hits and misses is exact: every position is either
  served from the cache or waits, exactly once and in increasing order, in the list of its
  own text; the texts to compute are distinct and each is wanted by some position; hits and
  waiting positions add up to the size of the request.
\<close>

theorem partition_exact:
  assumes "partition_hits_and_misses m sha c model texts = (c', cached, pending)"
  shows "length cached = length texts \<and> distinct (map fst pending) \<and> (\<forall>(t, ps) \<in> set pending. ps \<noteq> []) \<and>
         (\<forall>t. positions pending t = filter (\<lambda>j. cached ! j = None \<and> texts ! j = t) [0..<length texts]) \<and>
         length (filter (\<lambda>x. x \<noteq> None) cached) + sum_list (map (length \<circ> snd) pending) = length texts"
  using partition_covers [OF assms] .

text \<open>
  The keys of the token cache. Without zero bytes in the queries, distinct pairs have
  distinct keys up to collisions of the hash; but a zero byte in the query moves the
  boundary: two different pairs then share one key, whatever the hash, and a lookup for one
  answers with the entry of the other.
\<close>

lemma token_cache_key:
  "hash_pair sha (a @ CHR 0x00 # b) d = hash_pair sha a (b @ CHR 0x00 # d) \<and>
     token_cache_get m sha c model (a @ CHR 0x00 # b) d = token_cache_get m sha c model a (b @ CHR 0x00 # d) \<and>
     (inj sha \<longrightarrow> CHR 0x00 \<notin> set q \<longrightarrow> CHR 0x00 \<notin> set q' \<longrightarrow> hash_pair sha q e = hash_pair sha q' e' \<longrightarrow> q = q' \<and> e = e')"
  by (auto simp: hash_pair_def token_cache_get_def dest!: injD dest: append_sep_inj split: option.splits)

section \<open>Witnesses\<close>

definition wit_cache :: "(string \<times> string, nat) lru option" where
  "wit_cache = cache_insert lru_moka id (cache_new lru_moka 3) ''m'' ''b'' 2"

lemma wit_partition:
  "partition_hits_and_misses lru_moka id wit_cache ''m'' [''a'', ''b'', ''c'', ''a''] =
     (wit_cache, [None, Some 2, None, None], [(''a'', [0, 3]), (''c'', [2])])"
  by (simp add: partition_hits_and_misses_def wit_cache_def cache_insert_def cache_new_def lru_moka_def
      lru_insert_def lru_get_def cache_get_def hash_text_def delete_simps)

theorem partition_exact_witness:
  "length (filter (\<lambda>x. x \<noteq> None) [None, Some (2::nat), None, None]) +
     sum_list (map (length \<circ> snd) [(''a'', [0::nat, 3]), (''c'', [2])]) = length [''a'', ''b'', ''c'', ''a'']"
  using partition_exact [OF wit_partition] by blast

end
