(* ===== verification/Api_Embeddings.thy ===== *)
theory Api_Embeddings
  imports Caches Batcher
begin

text \<open>
  The handler of \<open>POST /v1/embeddings\<close> (\<open>src/src/api.rs\<close>): admission, the cache partition,
  inference of the distinct misses through the worker pool, the batcher or a direct call,
  the scatter of the new vectors to the positions that wait for them, and the response. The
  cache is threaded through; the iteration order of the \<open>HashMap\<close> of misses, the dispatch to
  the worker pool, the tokenizer and the ONNX session are parameters.
\<close>

section \<open>Encoding\<close>

text \<open>\<open>f32::to_le_bytes\<close>; the base64 alphabet is the parameter \<open>b64\<close>.\<close>

definition f32_le_bytes :: "f32 \<Rightarrow> bytes" where
  "f32_le_bytes x = u32_le (f32_u x)"

definition encode_base64 :: "(bytes \<Rightarrow> string) \<Rightarrow> f32 list \<Rightarrow> string" where
  "encode_base64 b64 v = b64 (concat (map f32_le_bytes v))"

definition cache_model_key :: "string \<Rightarrow> InputType \<Rightarrow> string" where
  "cache_model_key model_name it = (case it of Document \<Rightarrow> model_name | Query \<Rightarrow> model_name @ '':query'')"

record EmbedResponse =
  er_data :: "EmbedData list"
  er_model :: string
  er_usage :: Usage

definition embedding_value :: "(bytes \<Rightarrow> string) \<Rightarrow> EncodingFormat \<Rightarrow> f32 list \<Rightarrow> EmbeddingValue" where
  "embedding_value b64 fmt v = (case fmt of FormatFloat \<Rightarrow> Vector v | FormatBase64 \<Rightarrow> Base64 (encode_base64 b64 v))"

definition build_data :: "(bytes \<Rightarrow> string) \<Rightarrow> f32 list list \<Rightarrow> EncodingFormat \<Rightarrow> EmbedData list" where
  "build_data b64 vectors fmt =
     map (\<lambda>(i, v). \<lparr>ed_embedding = embedding_value b64 fmt v, ed_index = i\<rparr>) (enumerate 0 vectors)"

text \<open>
  \<open>t.chars().count()\<close> on UTF-8 bytes: every byte that does not continue a character. The
  billing estimate divides by 4 in \<open>f32\<close> and rounds up.
\<close>

definition chars_count :: "string \<Rightarrow> nat" where
  "chars_count t = length (filter (\<lambda>c. \<not> (128 \<le> (of_char c :: nat) \<and> (of_char c :: nat) < 192)) t)"

definition estimate_tokens :: "string \<Rightarrow> nat" where
  "estimate_tokens t = max (fl_ceil_u32 (fl_div_pos fmt32 (fl_of_nat fmt32 (chars_count t)) (Fin 4))) 1"

section \<open>State\<close>

record embed_session =
  ses_tokenize :: "string list \<Rightarrow> (string + token_seq list) joined"
  ses_embed :: "token_seq list \<Rightarrow> (string + fvec list) joined"

record ModelEntry =
  me_model :: "embed_session option"
  me_batcher :: "(token_seq list \<Rightarrow> BatchError + fvec list) option"

type_synonym embed_dispatch = "string \<Rightarrow> string list \<Rightarrow> 32 word \<Rightarrow> DispatchError + WorkerResponse"

record AppState =
  app_models :: "string \<Rightarrow> ModelEntry option"
  default_model :: string
  shutdown_cancelled :: bool
  embed_max_input_array :: nat
  worker_pool :: "embed_dispatch option"

datatype emetric =
    RequestDone string string nat
  | InputArraySize string nat
  | InputArrayRejected string
  | CacheHitN string nat
  | CacheMissN string nat
  | CacheSize nat
  | EmbedInference string nat
  | InferenceFailure string string
  | TokenizeFallback

section \<open>Inference of the misses\<close>

text \<open>Each stage gives the metrics it records and either an early response or vectors and the token count.\<close>

type_synonym 'r stage = "emetric list \<times> (EmbedResponse handled + 'r)"

definition fail_stage :: "string \<Rightarrow> nat \<Rightarrow> emetric list \<Rightarrow> EmbedResponse handled \<Rightarrow> 'r stage" where
  "fail_stage model n ms r = (ms @ [RequestDone model ''error'' n], Inl r)"

definition embed_via_pool :: "embed_dispatch \<Rightarrow> string \<Rightarrow> string list \<Rightarrow> nat \<Rightarrow> (fvec list \<times> 32 word) stage" where
  "embed_via_pool dispatch model texts n =
     (let total = of_nat (sum_list (map estimate_tokens texts));
          max_seq = of_nat (if texts = [] then 1 else fold max (map estimate_tokens texts) 0)
      in case dispatch model texts max_seq of
           Inr (RespEmbed ok) \<Rightarrow> ([EmbedInference model (length (eo_vectors ok))], Inr (eo_vectors ok, total))
         | Inr (RespErr i msg) \<Rightarrow>
             fail_stage model n [InferenceFailure model (classify_worker_error msg)]
               (respond_err 500 None ''inference failed'' ''server_error'')
         | Inr _ \<Rightarrow> fail_stage model n [] (respond_err 500 None ''inference failed: unexpected response kind'' ''server_error'')
         | Inl (Timeout _ _) \<Rightarrow>
             ([RequestDone model ''worker_unavailable'' n],
              Inl (respond_err 503 (Some ''5'') ''inference failed: worker respawning'' ''worker_unavailable''))
         | Inl _ \<Rightarrow> fail_stage model n [] (respond_err 500 None ''inference failed'' ''server_error''))"

definition queue_full_message :: "string \<Rightarrow> string" where
  "queue_full_message nm = ''batcher '' @ [CHR 0x27] @ nm @ [CHR 0x27] @ '' queue is full''"

definition embed_ids_in_process ::
  "ModelEntry \<Rightarrow> embed_session \<Rightarrow> string \<Rightarrow> nat \<Rightarrow> token_seq list \<Rightarrow> fvec list stage" where
  "embed_ids_in_process entry ses model n ids =
     (case me_batcher entry of
        Some b \<Rightarrow> (case b ids of
            Inr v \<Rightarrow> ([], Inr v)
          | Inl (QueueFull nm) \<Rightarrow> fail_stage model n [] (respond_err 429 (Some ''1'') (queue_full_message nm) ''rate_limited'')
          | Inl (Inference msg) \<Rightarrow> fail_stage model n [] (respond_err 500 None msg ''server_error'')
          | Inl Shutdown \<Rightarrow> fail_stage model n [] (respond_err 503 None ''batcher shut down'' ''server_error''))
      | None \<Rightarrow> (case ses_embed ses ids of
            Joined (Inr v) \<Rightarrow> ([EmbedInference model (length v)], Inr v)
          | Joined (Inl e) \<Rightarrow> fail_stage model n [] (respond_err 500 None e ''server_error'')
          | JoinPanic e \<Rightarrow> fail_stage model n [] (respond_err 500 None (''spawn: '' @ e) ''server_error'')))"

definition embed_in_process :: "ModelEntry \<Rightarrow> string \<Rightarrow> string list \<Rightarrow> nat \<Rightarrow> (fvec list \<times> 32 word) stage" where
  "embed_in_process entry model texts n =
     (case me_model entry of
        None \<Rightarrow> ([], Inl (Panic ''in-process EmbedModel session required but not loaded (EMBED_MULTI_PROCESS=1?)''))
      | Some ses \<Rightarrow> (case ses_tokenize ses texts of
            Joined (Inl e) \<Rightarrow> fail_stage model n [TokenizeFallback] (respond_err 500 None e ''server_error'')
          | JoinPanic e \<Rightarrow>
              fail_stage model n [TokenizeFallback] (respond_err 500 None (''tokenize task panicked: '' @ e) ''server_error'')
          | Joined (Inr ids) \<Rightarrow>
              (case embed_ids_in_process entry ses model n ids of
                 (ms, Inl r) \<Rightarrow> (ms, Inl r)
               | (ms, Inr v) \<Rightarrow> (ms, Inr (v, of_nat (sum_list (map length ids)))))))"

definition infer_misses :: "AppState \<Rightarrow> ModelEntry \<Rightarrow> string \<Rightarrow> string list \<Rightarrow> nat \<Rightarrow> (fvec list \<times> 32 word) stage" where
  "infer_misses st entry model texts n =
     (case worker_pool st of
        Some dispatch \<Rightarrow> embed_via_pool dispatch model texts n
      | None \<Rightarrow> embed_in_process entry model texts n)"

section \<open>Scatter\<close>

text \<open>
  \<open>None\<close> is a panic: a text that is no key of the misses, or a position out of range.
\<close>

fun fill :: "'v \<Rightarrow> nat list \<Rightarrow> 'v option list \<Rightarrow> 'v option list option" where
  "fill v [] cached = Some cached"
| "fill v (p # ps) cached = (if p < length cached then fill v ps (cached[p := Some v]) else None)"

fun scatter ::
  "('s, string \<times> 'h, 'v) moka \<Rightarrow> (string \<Rightarrow> 'h) \<Rightarrow> string \<Rightarrow> pending_misses \<Rightarrow> (string \<times> 'v) list \<Rightarrow>
   's option \<Rightarrow> 'v option list \<Rightarrow> ('s option \<times> 'v option list) option" where
  "scatter m sha key pending [] c cached = Some (c, cached)"
| "scatter m sha key pending ((t, v) # tvs) c cached =
     (case map_of pending t of
        None \<Rightarrow> None
      | Some ps \<Rightarrow> (case fill v ps cached of
            None \<Rightarrow> None
          | Some cached' \<Rightarrow> scatter m sha key pending tvs (cache_insert m sha c key t v) cached'))"

section \<open>The handler\<close>

definition input_array_too_large :: "nat \<Rightarrow> nat \<Rightarrow> 'b handled" where
  "input_array_too_large cap n =
     Respond \<lparr>status = 400, retry_after = None, body = TooLarge \<lparr>tl_error_type = ''invalid_request_error'',
       tl_code = ''input_array_too_large'',
       tl_message = ''input array contains '' @ show_nat n @ '' items, server cap is '' @ show_nat cap @
                    ''; split into multiple requests'',
       tl_cap = cap, tl_received = n\<rparr>\<rparr>"

text \<open>The part after admission and model lookup, for a request of \<open>n\<close> texts.\<close>

definition embed_texts ::
  "(bytes \<Rightarrow> string) \<Rightarrow> ('s, string \<times> 'h, fvec) moka \<Rightarrow> (string \<Rightarrow> 'h) \<Rightarrow> (string list \<Rightarrow> string list) \<Rightarrow>
   AppState \<Rightarrow> ModelEntry \<Rightarrow> string \<Rightarrow> string \<Rightarrow> EncodingFormat \<Rightarrow> string list \<Rightarrow> 's option \<Rightarrow>
   EmbedResponse handled \<times> 's option \<times> emetric list" where
  "embed_texts b64 m sha order st entry model key fmt texts c =
     (let n = length texts;
          ok = (\<lambda>vectors tokens. respond_ok \<lparr>er_data = build_data b64 vectors fmt, er_model = model,
                  er_usage = \<lparr>prompt_tokens = tokens, total_tokens_u = tokens\<rparr>\<rparr>)
      in case partition_hits_and_misses m sha c key texts of (c1, cached, pending) \<Rightarrow>
        let hits = length (filter (\<lambda>x. x \<noteq> None) cached);
            misses = sum_list (map (length \<circ> snd) pending);
            ml = [CacheHitN model hits, CacheMissN model misses]
        in if pending = [] then
             (case those cached of
                None \<Rightarrow> (Panic ''all hits'', c1, ml)
              | Some vectors \<Rightarrow> (ok vectors 0, c1, ml @ [RequestDone model ''ok'' n]))
           else
             let pending_texts = order (map fst pending) in
             case infer_misses st entry model pending_texts n of
               (ms, Inl r) \<Rightarrow> (r, c1, ml @ ms)
             | (ms, Inr (vecs, tokens)) \<Rightarrow>
                 if length vecs \<noteq> length pending_texts then
                   (respond_err 500 None ''internal error: vector count mismatch'' ''server_error'', c1,
                    ml @ ms @ [RequestDone model ''error'' n])
                 else (case scatter m sha key pending (zip pending_texts vecs) c1 cached of
                     None \<Rightarrow> (Panic ''pending_text came from pending.keys()'', c1, ml @ ms)
                   | Some (c2, cached') \<Rightarrow> (case those cached' of
                       None \<Rightarrow> (Panic ''every position filled'', c2, ml @ ms @ [CacheSize (cache_len m c2)])
                     | Some vectors \<Rightarrow>
                         (ok vectors tokens, c2, ml @ ms @ [CacheSize (cache_len m c2), RequestDone model ''ok'' n]))))"

definition embeddings ::
  "(bytes \<Rightarrow> string) \<Rightarrow> ('s, string \<times> 'h, fvec) moka \<Rightarrow> (string \<Rightarrow> 'h) \<Rightarrow> (string list \<Rightarrow> string list) \<Rightarrow>
   AppState \<Rightarrow> EmbedHttpRequest \<Rightarrow> 's option \<Rightarrow> EmbedResponse handled \<times> 's option \<times> emetric list" where
  "embeddings b64 m sha order st req c =
     (if shutdown_cancelled st then (respond_err 503 (Some ''5'') ''server shutting down'' ''rate_limited'', c, [])
      else
        let model = (case req_model req of None \<Rightarrow> default_model st | Some x \<Rightarrow> x);
            fmt = encoding_format_or_default (req_encoding_format req);
            it = input_type_or_default (req_input_type req);
            texts = into_vec (req_input req);
            n = length texts;
            cap = embed_max_input_array st
        in if texts = [] then (error_json ''input must not be empty'', c, [RequestDone model ''error'' 0])
           else if cap < n then
             (input_array_too_large cap n, c,
              [InputArraySize model n, InputArrayRejected model, RequestDone model ''error'' n])
           else case app_models st model of
               None \<Rightarrow> (error_json (''model '' @ [CHR 0x27] @ model @ [CHR 0x27] @ '' not found''), c,
                        [InputArraySize model n, RequestDone model ''error'' 0])
             | Some entry \<Rightarrow>
                 (case embed_texts b64 m sha order st entry model (cache_model_key model it) fmt texts c of
                    (r, c', ml) \<Rightarrow> (r, c', InputArraySize model n # ml)))"

section \<open>Lemmas\<close>

lemma input_array_too_large_status [simp]:
  "status_of (input_array_too_large cap n) = Some 400" "input_array_too_large cap n \<noteq> respond_ok b"
  by (simp_all add: input_array_too_large_def http_simps)

lemma build_data_nth:
  "length (build_data b64 vs fmt) = length vs"
  "j < length vs \<Longrightarrow> build_data b64 vs fmt ! j = \<lparr>ed_embedding = embedding_value b64 fmt (vs ! j), ed_index = j\<rparr>"
  by (simp_all add: build_data_def nth_enumerate_eq)

lemma fill_spec:
  "(\<forall>p \<in> set ps. p < length cached) \<Longrightarrow>
   \<exists>cached'. fill v ps cached = Some cached' \<and> length cached' = length cached \<and>
     (\<forall>j < length cached. cached' ! j = (if j \<in> set ps then Some v else cached ! j))"
proof (induction ps arbitrary: cached)
  case (Cons p ps)
  obtain cached' where "fill v ps (cached[p := Some v]) = Some cached'" "length cached' = length cached"
    "\<forall>j < length cached. cached' ! j = (if j \<in> set ps then Some v else cached[p := Some v] ! j)"
    using Cons.IH [of "cached[p := Some v]"] Cons.prems by auto
  with Cons.prems show ?case by (auto simp: nth_list_update)
qed simp

lemma scatter_spec:
  assumes "\<forall>t \<in> set (map fst tvs). \<exists>ps. map_of pending t = Some ps \<and> (\<forall>p \<in> set ps. p < length cached)"
    and "\<And>t p. p \<in> set (positions pending t) \<Longrightarrow> texts ! p = t" and "distinct (map fst tvs)"
  shows "\<exists>cached'. scatter m sha key pending tvs c cached =
       Some (foldl (\<lambda>c (t, v). cache_insert m sha c key t v) c tvs, cached') \<and> length cached' = length cached \<and>
     (\<forall>j < length cached. cached' ! j =
        (case map_of tvs (texts ! j) of
           Some v \<Rightarrow> if j \<in> set (positions pending (texts ! j)) then Some v else cached ! j
         | None \<Rightarrow> cached ! j))"
  using assms(1,3)
proof (induction tvs arbitrary: c cached)
  case (Cons tv tvs)
  obtain t v where tv: "tv = (t, v)" by fastforce
  with Cons.prems obtain ps where ps: "map_of pending t = Some ps" "\<forall>p \<in> set ps. p < length cached" by auto
  obtain cached1 where f: "fill v ps cached = Some cached1" "length cached1 = length cached"
    "\<And>j. j < length cached \<Longrightarrow> cached1 ! j = (if j \<in> set ps then Some v else cached ! j)"
    using fill_spec [OF ps(2), of v] by blast
  obtain cached2 where s: "scatter m sha key pending tvs (cache_insert m sha c key t v) cached1 =
       Some (foldl (\<lambda>c (t, v). cache_insert m sha c key t v) (cache_insert m sha c key t v) tvs, cached2)"
    "length cached2 = length cached1"
    "\<And>j. j < length cached1 \<Longrightarrow> cached2 ! j =
        (case map_of tvs (texts ! j) of
           Some v \<Rightarrow> if j \<in> set (positions pending (texts ! j)) then Some v else cached1 ! j
         | None \<Rightarrow> cached1 ! j)"
    using Cons.IH [of cached1 "cache_insert m sha c key t v"] Cons.prems f(2) by auto
  have pos: "positions pending t = ps" using ps(1) by (simp add: positions_def)
  have nt: "map_of tvs t = None" using Cons.prems(2) tv by (simp add: map_of_eq_None_iff)
  have j: "j \<in> set ps \<Longrightarrow> texts ! j = t" for j using assms(2) pos by blast
  have "cached2 ! i = (case map_of (tv # tvs) (texts ! i) of
           Some v \<Rightarrow> if i \<in> set (positions pending (texts ! i)) then Some v else cached ! i
         | None \<Rightarrow> cached ! i)" if "i < length cached" for i
    using s(3) [of i] f(2) f(3) [OF that] that pos nt j [of i] by (cases "texts ! i = t") (auto simp: tv split: option.splits)
  then show ?case
    using ps(1) f(1,2) s(1,2) by (simp add: tv)
qed simp

lemma those_Some_iff: "those xs = Some ys \<longleftrightarrow> xs = map Some ys"
proof (induction xs arbitrary: ys)
  case (Cons x xs)
  then show ?case by (cases ys) (auto split: option.splits)
qed auto

lemma those_map_Some [simp]: "those (map Some ys) = Some ys"
  by (simp add: those_Some_iff)

lemma those_filled: "\<forall>j < length xs. xs ! j \<noteq> None \<Longrightarrow> \<exists>ys. those xs = Some ys"
  by (induction xs) (fastforce split: option.splits)+

lemma foldl_insert_sound:
  assumes "cache_backend m view" and "cache_sound view P c" and "\<forall>(t, v) \<in> set tvs. P (key, hash_text sha t) v"
  shows "cache_sound view P (foldl (\<lambda>c (t, v). cache_insert m sha c key t v) c tvs)"
  using assms(2,3)
proof (induction tvs arbitrary: c)
  case (Cons tv tvs)
  then show ?case
    using cache_backend.cache_insert_sound [OF assms(1), of P c "(key, hash_text sha (fst tv))" "snd tv"]
    by (cases tv) (simp add: cache_ops_opt)
qed simp

text \<open>After a partition the scatter fills every position, with the cached or the new vector.\<close>

lemma scatter_fills:
  assumes part: "partition_hits_and_misses m sha c key texts = (c1, cached, pending)"
    and ord: "mset ks = mset (map fst pending)" and len: "length vecs = length ks"
  shows "\<exists>vectors. scatter m sha key pending (zip ks vecs) c1 cached =
       Some (foldl (\<lambda>c (t, v). cache_insert m sha c key t v) c1 (zip ks vecs), map Some vectors) \<and>
     length vectors = length texts \<and>
     (\<forall>j < length texts. case cached ! j of
        Some v \<Rightarrow> vectors ! j = v | None \<Rightarrow> map_of (zip ks vecs) (texts ! j) = Some (vectors ! j))"
proof -
  note inv = partition_spec [OF part, unfolded partition_inv_def]
  have n: "length cached = length texts" and dk: "distinct (map fst pending)"
    and pos: "\<And>t. positions pending t = filter (\<lambda>j. cached ! j = None \<and> texts ! j = t) [0..<length texts]"
    using inv by (auto simp: pending_ok_def)
  have ks: "set ks = set (map fst pending)" "distinct ks"
    using mset_eq_setD [OF ord] mset_eq_imp_distinct_iff [OF ord] dk by auto
  have mo: "map_of pending t = Some ps \<Longrightarrow> ps = positions pending t" for t ps
    by (simp add: positions_def)
  have keys: "\<forall>t \<in> set (map fst (zip ks vecs)). \<exists>ps. map_of pending t = Some ps \<and> (\<forall>p \<in> set ps. p < length cached)"
  proof
    fix t assume "t \<in> set (map fst (zip ks vecs))"
    then obtain ps where "map_of pending t = Some ps"
      using ks(1) len by (metis map_fst_zip map_of_eq_None_iff not_None_eq set_map)
    with mo [OF this] show "\<exists>ps. map_of pending t = Some ps \<and> (\<forall>p \<in> set ps. p < length cached)"
      by (auto simp: pos n)
  qed
  obtain cached' where sc: "scatter m sha key pending (zip ks vecs) c1 cached =
       Some (foldl (\<lambda>c (t, v). cache_insert m sha c key t v) c1 (zip ks vecs), cached')" and n': "length cached' = length texts"
    and val: "\<And>j. j < length texts \<Longrightarrow> cached' ! j = (case map_of (zip ks vecs) (texts ! j) of
           Some v \<Rightarrow> if j \<in> set (positions pending (texts ! j)) then Some v else cached ! j | None \<Rightarrow> cached ! j)"
    using scatter_spec [OF keys, of texts m sha key c1] ks(2) len n by (auto simp: pos)
  have miss: "\<exists>v. map_of (zip ks vecs) (texts ! j) = Some v" if "j < length texts" "cached ! j = None" for j
  proof -
    have "j \<in> set (positions pending (texts ! j))" using that by (simp add: pos)
    then have "texts ! j \<in> set ks" unfolding ks(1) by (rule positions_key)
    then show ?thesis
      using len by (metis map_fst_zip map_of_eq_None_iff not_None_eq set_map)
  qed
  have res: "case cached ! j of Some v \<Rightarrow> cached' ! j = Some v
      | None \<Rightarrow> cached' ! j = map_of (zip ks vecs) (texts ! j) \<and> cached' ! j \<noteq> None" if "j < length texts" for j
    using val [OF that] miss [OF that] that by (auto simp: pos split: option.splits)
  then have "\<forall>j < length cached'. cached' ! j \<noteq> None"
    using n' by (fastforce split: option.splits)
  then obtain vectors where vs: "cached' = map Some vectors"
    using those_filled those_Some_iff by metis
  then have "length vectors = length texts" using n' by simp
  moreover have "case cached ! j of
        Some v \<Rightarrow> vectors ! j = v | None \<Rightarrow> map_of (zip ks vecs) (texts ! j) = Some (vectors ! j)"
    if "j < length texts" for j
    using res [OF that] vs n' that by (auto split: option.splits)
  ultimately show ?thesis using sc vs by blast
qed

text \<open>The result of the core of the handler, by the outcome of the inference.\<close>

lemma embed_texts_result:
  assumes part: "partition_hits_and_misses m sha c key texts = (c1, cached, pending)"
    and ord: "mset (order (map fst pending)) = mset (map fst pending)"
    and res: "embed_texts b64 m sha order st entry model key fmt texts c = (r, c', ml)"
  shows "(\<exists>ms. pending \<noteq> [] \<and> infer_misses st entry model (order (map fst pending)) (length texts) = (ms, Inl r) \<and> c' = c1) \<or>
     (\<exists>ms vecs tokens. pending \<noteq> [] \<and> infer_misses st entry model (order (map fst pending)) (length texts) = (ms, Inr (vecs, tokens)) \<and>
        length vecs \<noteq> length pending \<and> c' = c1 \<and> status_of r = Some 500) \<or>
     (\<exists>ms vecs tokens vectors. (if pending = [] then vecs = [] \<and> tokens = 0
        else infer_misses st entry model (order (map fst pending)) (length texts) = (ms, Inr (vecs, tokens))) \<and>
        length vecs = length pending \<and>
        r = respond_ok \<lparr>er_data = build_data b64 vectors fmt, er_model = model,
              er_usage = \<lparr>prompt_tokens = tokens, total_tokens_u = tokens\<rparr>\<rparr> \<and>
        c' = foldl (\<lambda>c (t, v). cache_insert m sha c key t v) c1 (zip (order (map fst pending)) vecs) \<and>
        length vectors = length texts \<and>
        (\<forall>j < length texts. case cached ! j of Some v \<Rightarrow> vectors ! j = v
           | None \<Rightarrow> map_of (zip (order (map fst pending)) vecs) (texts ! j) = Some (vectors ! j)))"
proof -
  have len: "length (order (map fst pending)) = length pending"
    using mset_eq_length [OF ord] by simp
  show ?thesis
  proof (cases "pending = []")
    case True
    then have "order (map fst pending) = []" using len by simp
    with scatter_fills [OF part ord, of "[]"] True obtain vectors where
      "cached = map Some vectors" "length vectors = length texts"
      "\<forall>j < length texts. case cached ! j of Some v \<Rightarrow> vectors ! j = v | None \<Rightarrow> False"
      by auto
    with True part res \<open>order (map fst pending) = []\<close> show ?thesis
      by (intro disjI2) (auto simp: embed_texts_def Let_def)
  next
    case False
    obtain ms out where inf: "infer_misses st entry model (order (map fst pending)) (length texts) = (ms, out)"
      by fastforce
    show ?thesis
    proof (cases out)
      case (Inl r')
      with False part res inf show ?thesis by (auto simp: embed_texts_def Let_def)
    next
      case (Inr vt)
      obtain vecs tokens where vt: "vt = (vecs, tokens)" by fastforce
      show ?thesis
      proof (cases "length vecs = length pending")
        case True
        with scatter_fills [OF part ord, of vecs] len obtain vectors where
          sc: "scatter m sha key pending (zip (order (map fst pending)) vecs) c1 cached =
            Some (foldl (\<lambda>c (t, v). cache_insert m sha c key t v) c1 (zip (order (map fst pending)) vecs), map Some vectors)"
          and vs: "length vectors = length texts"
            "\<forall>j < length texts. case cached ! j of Some v \<Rightarrow> vectors ! j = v
              | None \<Rightarrow> map_of (zip (order (map fst pending)) vecs) (texts ! j) = Some (vectors ! j)"
          by auto
        from False True part res inf Inr vt len sc vs show ?thesis
          by (intro disjI2) (auto simp: embed_texts_def Let_def)
      next
        case neq: False
        with False part res inf Inr vt len show ?thesis
          by (intro disjI2 disjI1) (auto simp: embed_texts_def Let_def)
      qed
    qed
  qed
qed

text \<open>The inference stage ends early with an error response, or panics when no session is loaded.\<close>

lemma fail_stage_Inl: "fail_stage model n ms r = (ms', Inl r') \<longleftrightarrow> ms' = ms @ [RequestDone model ''error'' n] \<and> r' = r"
  "fail_stage model n ms r \<noteq> (ms', Inr x)"
  by (auto simp: fail_stage_def)

definition error_response :: "'b handled \<Rightarrow> bool" where
  "error_response r = (case r of
     Respond x \<Rightarrow> status x \<in> {429, 500, 503} \<and> (case body x of Err _ \<Rightarrow> True | _ \<Rightarrow> False) | Panic _ \<Rightarrow> False)"

lemma error_response_simps [simp]:
  "error_response (respond_err code ra msg ty) \<longleftrightarrow> code \<in> {429, 500, 503}" "\<not> error_response (respond_ok b)"
  "\<not> error_response (Panic e)"
  by (simp_all add: error_response_def http_simps)

lemma embed_via_pool_Inl:
  "embed_via_pool d model ts n = (ms, Inl r) \<Longrightarrow> error_response r"
  by (auto simp: embed_via_pool_def Let_def fail_stage_Inl
      split: sum.splits WorkerResponse.splits DispatchError.splits)

lemma embed_in_process_Inl:
  "embed_in_process entry model ts n = (ms, Inl r) \<Longrightarrow>
   error_response r \<or> (me_model entry = None \<and> (\<exists>e. r = Panic e))"
  by (auto simp: embed_in_process_def embed_ids_in_process_def fail_stage_Inl
      split: sum.splits joined.splits BatchError.splits option.splits prod.splits)

lemma infer_misses_Inl:
  "infer_misses st entry model ts n = (ms, Inl r) \<Longrightarrow>
   error_response r \<or>
   (worker_pool st = None \<and> me_model entry = None \<and> (\<exists>e. r = Panic e))"
  by (auto simp: infer_misses_def split: option.splits dest!: embed_via_pool_Inl embed_in_process_Inl)

lemma map_of_zip_mapD: "map_of (zip ks (map f ks)) t = Some v \<Longrightarrow> v = f t"
  by (auto simp: map_of_zip_map split: if_splits)

section \<open>Properties\<close>

text \<open>
  What the entries of the cache mean: under a model key and the hash of a text stands the
  vector of some text with that hash.
\<close>

definition entry_of :: "(string \<Rightarrow> 'h) \<Rightarrow> (string \<Rightarrow> string \<Rightarrow> fvec) \<Rightarrow> string \<times> 'h \<Rightarrow> fvec \<Rightarrow> bool" where
  "entry_of sha E k v \<longleftrightarrow> (\<exists>t. hash_text sha t = snd k \<and> v = E (fst k) t)"

lemma embeddings_sound:
  assumes store: "lossy_store (mk_get m) (mk_insert m) view"
    and ord: "\<And>ks. mset (order ks) = mset ks"
    and sound: "cache_sound view (entry_of sha E) c"
    and model: "model = (case req_model req of None \<Rightarrow> default_model st | Some x \<Rightarrow> x)"
    and key: "key = cache_model_key model (input_type_or_default (req_input_type req))"
    and backend: "\<And>entry ts n ms vecs tokens. app_models st model = Some entry \<Longrightarrow>
         infer_misses st entry model ts n = (ms, Inr (vecs, tokens)) \<Longrightarrow> length vecs = length ts \<Longrightarrow> vecs = map (E key) ts"
    and res: "embeddings b64 m sha order st req c = (respond_ok er, c', ml)"
  shows "cache_sound view (entry_of sha E) c' \<and> length (er_data er) = length (into_vec (req_input req)) \<and>
     (\<forall>j < length (er_data er). \<exists>t. hash_text sha t = hash_text sha (into_vec (req_input req) ! j) \<and>
        er_data er ! j = \<lparr>ed_embedding = embedding_value b64 (encoding_format_or_default (req_encoding_format req)) (E key t),
                         ed_index = j\<rparr>)"
proof -
  let ?texts = "into_vec (req_input req)" and ?fmt = "encoding_format_or_default (req_encoding_format req)"
  obtain entry ml' where core: "embed_texts b64 m sha order st entry model key ?fmt ?texts c = (respond_ok er, c', ml')"
    and e: "app_models st model = Some entry"
    using res unfolding key model
    by (auto simp: embeddings_def Let_def split: if_splits option.splits prod.splits)
  obtain c1 cached pending where part: "partition_hits_and_misses m sha c key ?texts = (c1, cached, pending)"
    by (metis prod_cases3)
  note backend' = cache_backendI [OF store]
  have hits: "cache_sound view (entry_of sha E) c1"
    "\<And>j v. j < length ?texts \<Longrightarrow> cached ! j = Some v \<Longrightarrow> entry_of sha E (key, hash_text sha (?texts ! j)) v"
    using partition_sound [OF store part sound] by auto
  let ?ks = "order (map fst pending)"
  have len: "length ?ks = length pending" using mset_eq_length [OF ord] by simp
  obtain vecs tokens vectors where
    vecs: "vecs = map (E key) ?ks" and lv: "length vectors = length ?texts"
    and er: "er_data er = build_data b64 vectors ?fmt"
    and c': "c' = foldl (\<lambda>c (t, v). cache_insert m sha c key t v) c1 (zip ?ks vecs)"
    and vs: "\<And>j. j < length ?texts \<Longrightarrow> case cached ! j of Some v \<Rightarrow> vectors ! j = v
           | None \<Rightarrow> map_of (zip ?ks vecs) (?texts ! j) = Some (vectors ! j)"
  proof -
    from embed_texts_result [OF part ord core] consider
        (early) ms where "infer_misses st entry model ?ks (length ?texts) = (ms, Inl (respond_ok er))"
      | (mismatch) "status_of (respond_ok er) = Some 500"
      | (ok) ms vecs tokens vectors where
          "if pending = [] then vecs = [] \<and> tokens = 0
           else infer_misses st entry model ?ks (length ?texts) = (ms, Inr (vecs, tokens))"
          "length vecs = length pending" "er_data er = build_data b64 vectors ?fmt"
          "c' = foldl (\<lambda>c (t, v). cache_insert m sha c key t v) c1 (zip ?ks vecs)"
          "length vectors = length ?texts"
          "\<forall>j < length ?texts. case cached ! j of Some v \<Rightarrow> vectors ! j = v
             | None \<Rightarrow> map_of (zip ?ks vecs) (?texts ! j) = Some (vectors ! j)"
      by (auto split del: if_split)
    then show thesis
    proof cases
      case (ok ms vecs tokens vectors)
      have "vecs = map (E key) ?ks"
        using ok(1,2) len backend [OF e] by (auto split: if_splits)
      then show thesis using ok by (intro that [of vecs vectors]) auto
    qed (auto dest!: infer_misses_Inl)
  qed
  have "\<exists>t. hash_text sha t = hash_text sha (?texts ! j) \<and> vectors ! j = E key t" if "j < length ?texts" for j
    using vs [OF that] hits(2) [OF that] vecs
    by (cases "cached ! j") (auto simp: entry_of_def dest: map_of_zip_mapD)
  moreover have "cache_sound view (entry_of sha E) c'"
    unfolding c' by (rule foldl_insert_sound [OF backend' hits(1)])
      (auto simp: vecs entry_of_def zip_map2 zip_same_conv_map)
  ultimately show ?thesis
    using lv by (simp add: er build_data_nth) metis
qed

text \<open>
  C1. A successful response is right. If the store behind the cache does not alter entries, the
  entries are vectors of texts with their hash, the iteration order of the misses is a
  permutation and the backend, when it answers, answers each text with its vector, then a
  200 response has one entry per input text, in order, numbered from 0, each the encoding of
  the vector of a text with the hash of the input at that position; and the cache still
  holds only such vectors.
\<close>

theorem embeddings_correct:
  assumes store: "lossy_store (mk_get m) (mk_insert m) view"
    and ord: "\<And>ks. mset (order ks) = mset ks"
    and sound: "cache_sound view (entry_of sha E) c"
    and model: "model = (case req_model req of None \<Rightarrow> default_model st | Some x \<Rightarrow> x)"
    and key: "key = cache_model_key model (input_type_or_default (req_input_type req))"
    and backend: "\<And>entry ts n ms vecs tokens. app_models st model = Some entry \<Longrightarrow>
         infer_misses st entry model ts n = (ms, Inr (vecs, tokens)) \<Longrightarrow> length vecs = length ts \<Longrightarrow> vecs = map (E key) ts"
    and res: "embeddings b64 m sha order st req c = (respond_ok er, c', ml)"
  shows "cache_sound view (entry_of sha E) c' \<and> length (er_data er) = length (into_vec (req_input req)) \<and>
     (\<forall>j < length (er_data er). \<exists>t. hash_text sha t = hash_text sha (into_vec (req_input req) ! j) \<and>
        er_data er ! j = \<lparr>ed_embedding = embedding_value b64 (encoding_format_or_default (req_encoding_format req)) (E key t),
                         ed_index = j\<rparr>)"
  by (rule embeddings_sound) (fact assms)+

lemma embeddings_statuses:
  assumes store: "lossy_store (mk_get m) (mk_insert m) view"
    and ord: "\<And>ks. mset (order ks) = mset ks"
    and loaded: "\<And>x entry. app_models st x = Some entry \<Longrightarrow> worker_pool st = None \<Longrightarrow> me_model entry \<noteq> None"
    and res: "embeddings b64 m sha order st req c = (r, c', ml)"
  shows "(\<exists>code \<in> {200, 400, 429, 500, 503}. status_of r = Some code) \<and>
     (status_of r = Some 400 \<longleftrightarrow> \<not> shutdown_cancelled st \<and>
        (into_vec (req_input req) = [] \<or> embed_max_input_array st < length (into_vec (req_input req)) \<or>
         app_models st (case req_model req of None \<Rightarrow> default_model st | Some x \<Rightarrow> x) = None)) \<and>
     (status_of r \<noteq> Some 200 \<longrightarrow> (\<forall>k v. opt_view view c' k = Some v \<longrightarrow> opt_view view c k = Some v))"
proof -
  let ?texts = "into_vec (req_input req)" and ?model = "case req_model req of None \<Rightarrow> default_model st | Some x \<Rightarrow> x"
  show ?thesis
  proof (cases "shutdown_cancelled st \<or> ?texts = [] \<or> embed_max_input_array st < length ?texts \<or> app_models st ?model = None")
    case True
    then show ?thesis
      using res by (auto simp: embeddings_def Let_def split: if_splits)
  next
    case False
    then obtain entry where e: "app_models st ?model = Some entry" by auto
    obtain key fmt ml' where core: "embed_texts b64 m sha order st entry ?model key fmt ?texts c = (r, c', ml')"
      using res False e by (auto simp: embeddings_def Let_def split: prod.splits)
    obtain c1 cached pending where part: "partition_hits_and_misses m sha c key ?texts = (c1, cached, pending)"
      by (metis prod_cases3)
    have "cache_sound view (\<lambda>k v. opt_view view c k = Some v) c1"
      using partition_sound [OF store part, of "\<lambda>k v. opt_view view c k = Some v"] by (simp add: cache_sound_def)
    then have shrink: "\<forall>k v. opt_view view c1 k = Some v \<longrightarrow> opt_view view c k = Some v"
      by (simp add: cache_sound_def)
    have err: "status_of r \<in> {Some 429, Some 500, Some 503}"
      if "infer_misses st entry ?model (order (map fst pending)) (length ?texts) = (ms, Inl r)" for ms
      using infer_misses_Inl [OF that] loaded [OF e]
      by (auto simp: error_response_def split: handled.splits)
    from embed_texts_result [OF part ord core] show ?thesis
      using err shrink False e by (auto split del: if_split)
  qed
qed

text \<open>
  C2. Every request is answered and errors leave no trace. If a session is loaded whenever
  there is no worker pool, the handler never panics: it answers 200, 400, 429, 500 or 503;
  400 exactly for an empty input, an input above the cap or an unknown model of a server that
  is not shutting down; and unless it answers 200 it adds nothing to the cache.
\<close>

theorem embeddings_outcome:
  assumes store: "lossy_store (mk_get m) (mk_insert m) view"
    and ord: "\<And>ks. mset (order ks) = mset ks"
    and loaded: "\<And>x entry. app_models st x = Some entry \<Longrightarrow> worker_pool st = None \<Longrightarrow> me_model entry \<noteq> None"
    and res: "embeddings b64 m sha order st req c = (r, c', ml)"
  shows "(\<exists>code \<in> {200, 400, 429, 500, 503}. status_of r = Some code) \<and>
     (status_of r = Some 400 \<longleftrightarrow> \<not> shutdown_cancelled st \<and>
        (into_vec (req_input req) = [] \<or> embed_max_input_array st < length (into_vec (req_input req)) \<or>
         app_models st (case req_model req of None \<Rightarrow> default_model st | Some x \<Rightarrow> x) = None)) \<and>
     (status_of r \<noteq> Some 200 \<longrightarrow> (\<forall>k v. opt_view view c' k = Some v \<longrightarrow> opt_view view c k = Some v))"
  by (rule embeddings_statuses) (fact assms)+

lemma embeddings_answers:
  assumes ord: "\<And>ks. mset (order ks) = mset ks"
    and "\<not> shutdown_cancelled st" and "into_vec (req_input req) \<noteq> []"
    and "length (into_vec (req_input req)) \<le> embed_max_input_array st"
    and e: "app_models st (case req_model req of None \<Rightarrow> default_model st | Some x \<Rightarrow> x) = Some entry"
    and backend: "\<And>model ts n. ts \<noteq> [] \<Longrightarrow> distinct ts \<Longrightarrow> set ts \<subseteq> set (into_vec (req_input req)) \<Longrightarrow>
      \<exists>ms vecs tokens. infer_misses st entry model ts n = (ms, Inr (vecs, tokens)) \<and> length vecs = length ts"
  shows "\<exists>er. fst (embeddings b64 m sha order st req c) = respond_ok er"
proof -
  let ?texts = "into_vec (req_input req)" and ?model = "case req_model req of None \<Rightarrow> default_model st | Some x \<Rightarrow> x"
  obtain r c' ml where res: "embeddings b64 m sha order st req c = (r, c', ml)" by (metis prod_cases3)
  obtain key fmt ml' where core: "embed_texts b64 m sha order st entry ?model key fmt ?texts c = (r, c', ml')"
    using res assms(2-5) by (auto simp: embeddings_def Let_def split: prod.splits)
  obtain c1 cached pending where part: "partition_hits_and_misses m sha c key ?texts = (c1, cached, pending)"
    by (metis prod_cases3)
  have d: "distinct (order (map fst pending))" and sub: "set (order (map fst pending)) \<subseteq> set ?texts"
    and len: "length (order (map fst pending)) = length pending"
  proof -
    have p: "distinct (map fst pending)" "\<forall>(t, ps) \<in> set pending. ps \<noteq> []"
      "\<And>t. positions pending t = filter (\<lambda>j. cached ! j = None \<and> ?texts ! j = t) [0..<length ?texts]"
      using partition_covers [OF part] by auto
    show "distinct (order (map fst pending))" using p(1) mset_eq_imp_distinct_iff [OF ord] by blast
    show "length (order (map fst pending)) = length pending" using mset_eq_length [OF ord] by simp
    have "t \<in> set ?texts" if "(t, ps) \<in> set pending" for t ps
    proof -
      have "positions pending t = ps" using that p(1) by (simp add: positions_def)
      moreover have "ps \<noteq> []" using that p(2) by auto
      ultimately obtain j where "j \<in> set (positions pending t)" by (cases ps) auto
      then show ?thesis using p(3) [of t] by auto
    qed
    then show "set (order (map fst pending)) \<subseteq> set ?texts" using mset_eq_setD [OF ord] by fastforce
  qed
  have "\<exists>ms vecs tokens. infer_misses st entry ?model (order (map fst pending)) (length ?texts) = (ms, Inr (vecs, tokens)) \<and>
      length vecs = length pending" if "pending \<noteq> []"
    using backend [OF _ d sub, of ?model "length ?texts"] that len by fastforce
  with embed_texts_result [OF part ord core] show ?thesis
    by (auto simp: res split: if_splits)
qed

text \<open>
  C4. Success is reached: a server that is not shutting down answers 200 to a request of an
  admissible size for a known model as soon as the backend answers the texts it is given with
  as many vectors.
\<close>

theorem embeddings_succeeds:
  assumes ord: "\<And>ks. mset (order ks) = mset ks"
    and "\<not> shutdown_cancelled st" and "into_vec (req_input req) \<noteq> []"
    and "length (into_vec (req_input req)) \<le> embed_max_input_array st"
    and e: "app_models st (case req_model req of None \<Rightarrow> default_model st | Some x \<Rightarrow> x) = Some entry"
    and backend: "\<And>model ts n. ts \<noteq> [] \<Longrightarrow> distinct ts \<Longrightarrow> set ts \<subseteq> set (into_vec (req_input req)) \<Longrightarrow>
      \<exists>ms vecs tokens. infer_misses st entry model ts n = (ms, Inr (vecs, tokens)) \<and> length vecs = length ts"
  shows "status_of (fst (embeddings b64 m sha order st req c)) = Some 200"
proof -
  have "\<exists>er. fst (embeddings b64 m sha order st req c) = respond_ok er"
    by (rule embeddings_answers) (fact assms)+
  then show ?thesis by auto
qed

text \<open>
  The billing estimate of the worker path, computed in single precision, is exact for
  every text below \<open>2 ^ 24\<close> characters: the number of characters divided by four, rounded
  up, and at least 1.
\<close>

lemma estimate_tokens_exact:
  assumes "chars_count t < 2 ^ 24"
  shows "estimate_tokens t = max 1 ((chars_count t + 3) div 4)"
proof -
  let ?n = "chars_count t"
  have "(of_nat ?n :: rat) < of_nat (2 ^ 128)"
    unfolding of_nat_less_iff using assms by (rule less_trans) simp
  then have "(of_nat ?n / 4 :: rat) < pow2 128"
    by (simp add: pow2_def)
  then have "fl_div_pos fmt32 (fl_of_nat fmt32 ?n) (Fin 4) = Fin (of_nat ?n / 4)"
    using rnd32_nat_quarter [OF assms] by (simp add: fl_of_nat32 [OF assms] fl_round_def Let_def emax_fmt32)
  moreover have c: "\<lceil>of_nat ?n / 4 :: rat\<rceil> = int ((?n + 3) div 4)"
    by (rule ceiling_unique) (auto simp: divide_simps)
  moreover have "(?n + 3) div 4 \<le> 4294967295" using assms by simp
  ultimately show ?thesis
    by (simp add: estimate_tokens_def)
qed

section \<open>Witnesses\<close>

definition wit_session :: embed_session where
  "wit_session = \<lparr>ses_tokenize = (\<lambda>ts. Joined (Inr (map (map of_char) ts))),
     ses_embed = (\<lambda>ids. Joined (Inr (map (\<lambda>t. [F32 (of_nat (length t))]) ids)))\<rparr>"

definition wit_state :: AppState where
  "wit_state = \<lparr>app_models = (\<lambda>x. if x = ''m'' then Some \<lparr>me_model = Some wit_session, me_batcher = None\<rparr> else None),
     default_model = ''m'', shutdown_cancelled = False, embed_max_input_array = 4, worker_pool = None\<rparr>"

definition wit_request :: EmbedHttpRequest where
  "wit_request = \<lparr>req_input = Batch [''ab'', ''c'', ''ab''], req_model = None, req_encoding_format = None,
     req_input_type = Some Query\<rparr>"

definition wit_vec :: "string \<Rightarrow> string \<Rightarrow> fvec" where
  "wit_vec key t = [F32 (of_nat (length t))]"

definition wit_cache0 :: "(string \<times> string, fvec) lru option" where
  "wit_cache0 = cache_new lru_moka 2"

lemma wit_infer:
  "infer_misses wit_state \<lparr>me_model = Some wit_session, me_batcher = None\<rparr> model ts n =
     ([EmbedInference model (length ts)], Inr (map (wit_vec key) ts, of_nat (sum_list (map length ts))))"
  by (simp add: infer_misses_def wit_state_def embed_in_process_def embed_ids_in_process_def wit_session_def
      wit_vec_def comp_def)

lemma wit_sound: "cache_sound lru_view (entry_of id wit_vec) wit_cache0"
  by (simp add: cache_sound_def wit_cache0_def cache_new_def lru_moka_def opt_view_def lru_view_def)

theorem embeddings_succeeds_witness:
  "status_of (fst (embeddings (\<lambda>_. []) lru_moka id rev wit_state wit_request wit_cache0)) = Some 200"
proof (rule embeddings_succeeds)
  show "app_models wit_state (case req_model wit_request of None \<Rightarrow> default_model wit_state | Some x \<Rightarrow> x) =
      Some \<lparr>me_model = Some wit_session, me_batcher = None\<rparr>"
    by (simp add: wit_state_def wit_request_def)
  show "\<exists>ms vecs tokens. infer_misses wit_state \<lparr>me_model = Some wit_session, me_batcher = None\<rparr> model ts n =
      (ms, Inr (vecs, tokens)) \<and> length vecs = length ts" for model ts n
    using wit_infer [of model ts n "''k''"] by (metis length_map)
qed (simp_all add: wit_request_def wit_state_def)

lemma wit_embeddings:
  "embeddings (\<lambda>_. []) lru_moka id rev wit_state wit_request wit_cache0 =
     (respond_ok \<lparr>er_data = build_data (\<lambda>_. []) [[F32 2], [F32 1], [F32 2]] FormatFloat, er_model = ''m'',
        er_usage = \<lparr>prompt_tokens = 3, total_tokens_u = 3\<rparr>\<rparr>,
      Some (2, [((''m:query'', ''ab''), [F32 2]), ((''m:query'', ''c''), [F32 1])]),
      [InputArraySize ''m'' 3, CacheHitN ''m'' 0, CacheMissN ''m'' 3, EmbedInference ''m'' 2, CacheSize 2,
       RequestDone ''m'' ''ok'' 3])"
proof -
  have [simp]: "infer_misses wit_state \<lparr>me_model = Some wit_session, me_batcher = None\<rparr> ''m'' ts n =
     ([EmbedInference ''m'' (length ts)], Inr (map (wit_vec []) ts, of_nat (sum_list (map length ts))))" for ts n
    by (rule wit_infer)
  have [simp]: "app_models wit_state ''m'' = Some \<lparr>me_model = Some wit_session, me_batcher = None\<rparr>"
    "default_model wit_state = ''m''" "\<not> shutdown_cancelled wit_state" "embed_max_input_array wit_state = 4"
    by (simp_all add: wit_state_def)
  show ?thesis
    by (simp add: embeddings_def wit_request_def Let_def cache_model_key_def input_type_or_default_def
        encoding_format_or_default_def embed_texts_def partition_hits_and_misses_def wit_cache0_def cache_new_def
        cache_get_def cache_insert_def lru_moka_def lru_get_def lru_insert_def hash_text_def wit_vec_def cache_len_def)
qed

theorem embeddings_correct_witness:
  "build_data (\<lambda>_. []) [[F32 2], [F32 1], [F32 2]] FormatFloat ! 2 = \<lparr>ed_embedding = Vector [F32 2], ed_index = 2\<rparr>"
proof -
  let ?er = "\<lparr>er_data = build_data (\<lambda>_. []) [[F32 2], [F32 1], [F32 2]] FormatFloat, er_model = ''m'',
        er_usage = \<lparr>prompt_tokens = 3, total_tokens_u = 3\<rparr>\<rparr>"
  have "length (er_data ?er) = length (into_vec (req_input wit_request)) \<and>
      (\<forall>j < length (er_data ?er). \<exists>t. hash_text id t = hash_text id (into_vec (req_input wit_request) ! j) \<and>
        er_data ?er ! j = \<lparr>ed_embedding = embedding_value (\<lambda>_. [])
          (encoding_format_or_default (req_encoding_format wit_request)) (wit_vec ''m:query'' t), ed_index = j\<rparr>)"
  proof (rule embeddings_correct [THEN conjunct2, OF lru.store.lossy_store_axioms _ wit_sound _ _ _ wit_embeddings])
    show "''m'' = (case req_model wit_request of None \<Rightarrow> default_model wit_state | Some x \<Rightarrow> x)"
      by (simp add: wit_request_def wit_state_def)
    show "''m:query'' = cache_model_key ''m'' (input_type_or_default (req_input_type wit_request))"
      by (simp add: wit_request_def cache_model_key_def input_type_or_default_def)
    show "vecs = map (wit_vec ''m:query'') ts"
      if "app_models wit_state ''m'' = Some entry" and "infer_misses wit_state entry ''m'' ts n = (ms, Inr (vecs, tokens))"
      for entry ts n ms vecs tokens
      using that wit_infer [of "''m''" ts n "''m:query''"] by (simp add: wit_state_def)
  qed simp
  then show ?thesis
    by (auto simp: wit_request_def hash_text_def encoding_format_or_default_def embedding_value_def wit_vec_def
        build_data_nth dest!: spec [of _ 2])
qed

theorem embeddings_outcome_witness:
  "status_of (fst (embeddings (\<lambda>_. []) lru_moka id rev (wit_state\<lparr>embed_max_input_array := 2\<rparr>) wit_request wit_cache0)) = Some 400"
proof -
  let ?st = "wit_state\<lparr>embed_max_input_array := 2\<rparr>"
  obtain r c' ml where res: "embeddings (\<lambda>_. []) lru_moka id rev ?st wit_request wit_cache0 = (r, c', ml)"
    by (metis prod_cases3)
  have "app_models ?st x = Some entry \<Longrightarrow> me_model entry \<noteq> None" for x entry
    by (auto simp: wit_state_def split: if_splits)
  with embeddings_outcome [OF lru.store.lossy_store_axioms _ _ res] have "status_of r = Some 400"
    by (simp add: wit_state_def wit_request_def)
  then show ?thesis unfolding res by simp
qed

end
