(* ===== verification/Api_Rerank.thy ===== *)
theory Api_Rerank
  imports Api_Embeddings
begin

text \<open>
  The handler of \<open>POST /v1/rerank\<close> (\<open>src/src/api_rerank.rs\<close>): the concurrency cap, the
  validation, the worker pool path, the in-process path with the token cache, score
  normalisation, and the stable descending sort with \<open>top_n\<close>. The tokenizer, the
  cross-encoder session, the \<open>f32\<close> arithmetic of the sigmoid and the request id are parameters.
\<close>

section \<open>Normalisation\<close>

text \<open>The operations of \<open>f32\<close> the sigmoid uses.\<close>

record float_ops =
  fo_exp :: "f32 \<Rightarrow> f32"
  fo_add :: "f32 \<Rightarrow> f32 \<Rightarrow> f32"
  fo_div :: "f32 \<Rightarrow> f32 \<Rightarrow> f32"

datatype NormalizeMode = NormNone | Sigmoid

text \<open>50.0 as a bit pattern.\<close>

definition SIGMOID_CLAMP :: f32 where "SIGMOID_CLAMP = F32 0x42480000"

definition sigmoid :: "float_ops \<Rightarrow> f32 \<Rightarrow> f32" where
  "sigmoid fo s =
     (let clamped = f32_clamp s (f32_neg SIGMOID_CLAMP) SIGMOID_CLAMP
      in fo_div fo f32_one (fo_add fo f32_one (fo_exp fo (f32_neg clamped))))"

definition apply_normalize :: "float_ops \<Rightarrow> f32 list \<Rightarrow> NormalizeMode \<Rightarrow> f32 list" where
  "apply_normalize fo scores mode = (case mode of NormNone \<Rightarrow> scores | Sigmoid \<Rightarrow> map (sigmoid fo) scores)"

section \<open>Request and response\<close>

datatype RerankDocument = DocText string | DocObject string

fun into_text :: "RerankDocument \<Rightarrow> string" where
  "into_text (DocText s) = s"
| "into_text (DocObject s) = s"

text \<open>\<open>RerankRequest\<close> of the HTTP API.\<close>

record RerankHttpRequest =
  rq_model :: "string option"
  rq_query :: string
  rq_documents :: "RerankDocument list"
  rq_top_n :: "nat option"
  rq_return_documents :: bool
  rq_normalize :: "NormalizeMode option"

record RerankResult =
  rs_index :: nat
  relevance_score :: f32
  rs_document :: "string option"

record RerankResponse =
  rp_id :: string
  rp_model :: string
  rp_results :: "RerankResult list"

text \<open>Every score with its index and, if asked for, its document: \<open>d[index]\<close> panics (\<open>None\<close>) out of range.\<close>

definition scored_result :: "string list option \<Rightarrow> nat \<times> f32 \<Rightarrow> RerankResult option" where
  "scored_result documents = (\<lambda>(i, s). case documents of
       None \<Rightarrow> Some \<lparr>rs_index = i, relevance_score = s, rs_document = None\<rparr>
     | Some d \<Rightarrow> if i < length d then Some \<lparr>rs_index = i, relevance_score = s, rs_document = Some (d ! i)\<rparr> else None)"

definition scored_results :: "f32 list \<Rightarrow> string list option \<Rightarrow> RerankResult list option" where
  "scored_results scores documents = those (map (scored_result documents) (enumerate 0 scores))"

text \<open>\<open>sort_by\<close> is stable; \<open>b.total_cmp(&a)\<close> sorts by the total order, largest first.\<close>

definition build_sorted_results :: "f32 list \<Rightarrow> nat option \<Rightarrow> string list option \<Rightarrow> RerankResult list option" where
  "build_sorted_results scores top_n documents =
     map_option (\<lambda>results. let scored = sort_key (\<lambda>r. - f32_key (relevance_score r)) results
                    in case top_n of None \<Rightarrow> scored | Some n \<Rightarrow> take n scored)
       (scored_results scores documents)"

text \<open>
  \<open>opaque_request_id\<close>: the nanoseconds since the epoch in hexadecimal, or 0 for a clock before
  it.
\<close>

fun show_hex :: "nat \<Rightarrow> string" where
  "show_hex n = (if n < 16 then [''0123456789abcdef'' ! n] else show_hex (n div 16) @ [''0123456789abcdef'' ! (n mod 16)])"

declare show_hex.simps [simp del]

definition opaque_request_id :: "nat option \<Rightarrow> string" where
  "opaque_request_id nanos = ''rrk_'' @ show_hex (case nanos of None \<Rightarrow> 0 | Some n \<Rightarrow> n)"

section \<open>State\<close>

record rerank_session =
  rk_tokenize_pairs :: "string \<Rightarrow> string list \<Rightarrow> (string + token_seq list) joined"
  rk_score_pairs :: "token_seq list \<Rightarrow> (string + f32 list) joined"

record RerankerEntry =
  rk_model :: "rerank_session option"
  rk_batcher :: "(token_seq list \<Rightarrow> BatchError + fvec list) option"

type_synonym rerank_dispatch = "string \<Rightarrow> string \<Rightarrow> string list \<Rightarrow> 32 word \<Rightarrow> DispatchError + WorkerResponse"

text \<open>The \<open>HashMap\<close> of rerankers is an association list in its iteration order.\<close>

record RerankState =
  rerankers :: "(string \<times> RerankerEntry) list"
  rk_shutdown_cancelled :: bool
  available_permits :: "nat option"
  rerank_max_input_docs :: nat
  rk_worker_pool :: "rerank_dispatch option"

datatype rmetric =
    RerankRequestDone string string nat
  | RerankInputDocsSize nat
  | RerankInputDocsRejected
  | RerankInferenceFailure string string
  | TokenCacheHit string nat
  | TokenCacheMiss string nat
  | RerankTokenizer string

definition resolve_reranker_name :: "RerankState \<Rightarrow> string option \<Rightarrow> string + string" where
  "resolve_reranker_name st rqm =
     (case rqm of
        Some nm \<Rightarrow> if map_of (rerankers st) nm \<noteq> None then Inr nm
                   else Inl (''reranker '' @ [CHR 0x27] @ nm @ [CHR 0x27] @ '' not found'')
      | None \<Rightarrow> (case rerankers st of
            [] \<Rightarrow> Inl ''no reranker models configured''
          | [(nm, _)] \<Rightarrow> Inr nm
          | _ \<Rightarrow> Inl (CHR 0x60 # ''model'' @ CHR 0x60 # '' is required when multiple rerankers are configured'')))"

text \<open>
  \<open>query.trim().is_empty()\<close> on UTF-8 bytes: the text consists of characters with the Unicode
  property White_Space only.
\<close>

definition ws3 :: "nat \<Rightarrow> nat \<Rightarrow> nat \<Rightarrow> bool" where
  "ws3 a b c \<longleftrightarrow> (a = 225 \<and> b = 154 \<and> c = 128) \<or>
     (a = 226 \<and> b = 128 \<and> ((128 \<le> c \<and> c \<le> 138) \<or> c = 168 \<or> c = 169 \<or> c = 175)) \<or>
     (a = 226 \<and> b = 129 \<and> c = 159) \<or> (a = 227 \<and> b = 128 \<and> c = 128)"

fun blank :: "nat list \<Rightarrow> bool" where
  "blank [] = True"
| "blank (a # bs) =
     (if a = 32 \<or> (9 \<le> a \<and> a \<le> 13) then blank bs
      else case bs of
          [] \<Rightarrow> False
        | b # cs \<Rightarrow> if a = 194 \<and> (b = 133 \<or> b = 160) then blank cs
                    else (case cs of [] \<Rightarrow> False | c # ds \<Rightarrow> ws3 a b c \<and> blank ds))"

definition query_blank :: "string \<Rightarrow> bool" where
  "query_blank q = blank (map of_char q)"

section \<open>Tokenize with the cache\<close>

datatype TokenizeError = TokFailed string | TokPanic string

text \<open>Probe of the token cache for every pair, in document order.\<close>

fun probe ::
  "('s, string \<times> 'h, 'v) moka \<Rightarrow> (string \<Rightarrow> 'h) \<Rightarrow> string \<Rightarrow> string \<Rightarrow> string list \<Rightarrow> 's option \<Rightarrow> 's option \<times> 'v option list" where
  "probe m sha model q [] c = (c, [])"
| "probe m sha model q (d # ds) c =
     (case token_cache_get m sha c model q d of (c1, r) \<Rightarrow>
        (case probe m sha model q ds c1 of (c2, rs) \<Rightarrow> (c2, r # rs)))"

text \<open>
  The splice: each empty slot takes the next tokenized miss, if there is one, and the pair is
  inserted in the cache.
\<close>

fun splice_misses ::
  "('s, string \<times> 'h, 'v) moka \<Rightarrow> (string \<Rightarrow> 'h) \<Rightarrow> string \<Rightarrow> string \<Rightarrow> string list \<Rightarrow> ('v \<times> nat) list \<Rightarrow>
   'v option list \<Rightarrow> 's option \<Rightarrow> 's option \<times> 'v option list" where
  "splice_misses m sha model q docs misses [] c = (c, [])"
| "splice_misses m sha model q docs misses (Some v # slots) c =
     (case splice_misses m sha model q docs misses slots c of (c', r) \<Rightarrow> (c', Some v # r))"
| "splice_misses m sha model q docs [] (None # slots) c =
     (case splice_misses m sha model q docs [] slots c of (c', r) \<Rightarrow> (c', None # r))"
| "splice_misses m sha model q docs ((ids, i) # misses) (None # slots) c =
     (case splice_misses m sha model q docs misses slots (token_cache_insert m sha c model q (docs ! i) ids) of
        (c', r) \<Rightarrow> (c', Some ids # r))"

text \<open>The result \<open>None\<close> is the panic of an \<open>expect\<close>.\<close>

definition tokenize_with_cache ::
  "('s, string \<times> 'h, token_seq) moka \<Rightarrow> (string \<Rightarrow> 'h) \<Rightarrow> string \<Rightarrow> rerank_session \<Rightarrow> string \<Rightarrow> string list \<Rightarrow>
   's option \<Rightarrow> (TokenizeError + token_seq list) option \<times> 's option \<times> rmetric list" where
  "tokenize_with_cache m sha model ses q docs c =
     (case probe m sha model q docs c of (c1, slots) \<Rightarrow>
        let hits = length (filter (\<lambda>h. h \<noteq> None) slots);
            misses = length slots - hits;
            ml = [TokenCacheHit model hits, TokenCacheMiss model misses]
        in if misses = 0 then (map_option Inr (those slots), c1, ml)
           else
             let miss_indices = filter (\<lambda>i. slots ! i = None) [0..<length slots];
                 miss_docs = map (\<lambda>i. docs ! i) miss_indices
             in case rk_tokenize_pairs ses q miss_docs of
                  Joined (Inl e) \<Rightarrow> (Some (Inl (TokFailed e)), c1, ml)
                | JoinPanic e \<Rightarrow> (Some (Inl (TokPanic (''tokenize task panicked: '' @ e))), c1, ml)
                | Joined (Inr ids) \<Rightarrow>
                    (case splice_misses m sha model q docs (zip ids miss_indices) slots c1 of
                       (c2, slots') \<Rightarrow> (map_option Inr (those slots'), c2, ml @ [RerankTokenizer model])))"

section \<open>Inference\<close>

datatype InferenceError =
  InfQueueFull string | InfInference string | InfShutdown | ShapeMismatch string | InfPanic string

fun unwrap_rows :: "nat \<Rightarrow> f32 list list \<Rightarrow> string + f32 list" where
  "unwrap_rows i [] = Inr []"
| "unwrap_rows i (inner # rows) =
     (if length inner \<noteq> 1
      then Inl (''rerank row '' @ show_nat i @ '': expected 1-element score vec, got '' @ show_nat (length inner))
      else bind_res (unwrap_rows (Suc i) rows) (\<lambda>out. Inr (inner ! 0 # out)))"

definition unwrap_scalar_batch :: "f32 list list \<Rightarrow> nat \<Rightarrow> string + f32 list" where
  "unwrap_scalar_batch batched expected =
     (if length batched \<noteq> expected
      then Inl (''batcher returned '' @ show_nat (length batched) @ '' rows, expected '' @ show_nat expected)
      else unwrap_rows 0 batched)"

text \<open>The outer \<open>None\<close> is the panic of the missing session.\<close>

definition dispatch_inference :: "RerankerEntry \<Rightarrow> token_seq list \<Rightarrow> nat \<Rightarrow> (InferenceError + f32 list) option" where
  "dispatch_inference entry ids doc_count =
     (case rk_batcher entry of
        Some b \<Rightarrow> Some (case b ids of
            Inr v \<Rightarrow> (case unwrap_scalar_batch v doc_count of Inl e \<Rightarrow> Inl (ShapeMismatch e) | Inr s \<Rightarrow> Inr s)
          | Inl (QueueFull nm) \<Rightarrow> Inl (InfQueueFull (queue_full_message nm))
          | Inl (Inference msg) \<Rightarrow> Inl (InfInference msg)
          | Inl Shutdown \<Rightarrow> Inl InfShutdown)
      | None \<Rightarrow> (case rk_model entry of
            None \<Rightarrow> None
          | Some ses \<Rightarrow> Some (case rk_score_pairs ses ids of
                Joined (Inr s) \<Rightarrow> Inr s
              | Joined (Inl e) \<Rightarrow> Inl (InfInference e)
              | JoinPanic e \<Rightarrow> Inl (InfPanic (''score task panicked: '' @ e)))))"

definition rate_limited_response :: "string \<Rightarrow> 'b handled" where
  "rate_limited_response msg = respond_err 429 (Some ''1'') msg ''rate_limited''"

definition server_error :: "string \<Rightarrow> 'b handled" where
  "server_error msg = respond_err 500 None msg ''server_error''"

section \<open>The handler\<close>

definition documents_too_many :: "nat \<Rightarrow> nat \<Rightarrow> 'b handled" where
  "documents_too_many cap n =
     Respond \<lparr>status = 400, retry_after = None, body = TooLarge \<lparr>tl_error_type = ''invalid_request_error'',
       tl_code = ''documents_too_many'',
       tl_message = ''documents array contains '' @ show_nat n @ '' items, server cap is '' @ show_nat cap @
                    ''; split into multiple requests'',
       tl_cap = cap, tl_received = n\<rparr>\<rparr>"

definition normalize_or_default :: "NormalizeMode option \<Rightarrow> NormalizeMode" where
  "normalize_or_default x = (case x of None \<Rightarrow> Sigmoid | Some n \<Rightarrow> n)"

definition rerank_respond ::
  "float_ops \<Rightarrow> string \<Rightarrow> string \<Rightarrow> RerankHttpRequest \<Rightarrow> string list \<Rightarrow> f32 list \<Rightarrow> RerankResponse handled" where
  "rerank_respond fo rid model req docs scores =
     (case build_sorted_results (apply_normalize fo scores (normalize_or_default (rq_normalize req)))
         (rq_top_n req) (if rq_return_documents req then Some docs else None) of
        None \<Rightarrow> Panic ''index out of bounds''
      | Some results \<Rightarrow> respond_ok \<lparr>rp_id = rid, rp_model = model, rp_results = results\<rparr>)"

text \<open>The report of a request comes after its response has been built, so a panic leaves none.\<close>

definition finish_rerank ::
  "string \<Rightarrow> nat \<Rightarrow> rmetric list \<Rightarrow> string \<Rightarrow> RerankResponse handled \<Rightarrow> RerankResponse handled \<times> rmetric list" where
  "finish_rerank model n ms label r =
     (case r of Panic msg \<Rightarrow> (Panic msg, ms) | _ \<Rightarrow> (r, ms @ [RerankRequestDone model label n]))"

text \<open>The worker pool path: the status label and the response.\<close>

definition rerank_via_pool ::
  "float_ops \<Rightarrow> string \<Rightarrow> rerank_dispatch \<Rightarrow> string \<Rightarrow> RerankHttpRequest \<Rightarrow> string list \<Rightarrow>
   RerankResponse handled \<times> rmetric list" where
  "rerank_via_pool fo rid dispatch model req docs =
     (let fin = finish_rerank model (length docs)
      in case dispatch model (rq_query req) docs 0 of
           Inr (RespRerank r) \<Rightarrow> fin [] ''success'' (rerank_respond fo rid model req docs (ro_scores r))
         | Inr (RespErr i msg) \<Rightarrow>
             fin [RerankInferenceFailure model (classify_worker_error msg)] ''server_error'' (server_error ''rerank failed'')
         | Inr _ \<Rightarrow> fin [] ''server_error'' (server_error ''rerank failed: unexpected response kind'')
         | Inl (Timeout _ _) \<Rightarrow>
             fin [] ''worker_unavailable''
               (respond_err 503 (Some ''5'') ''rerank failed: worker respawning'' ''worker_unavailable'')
         | Inl _ \<Rightarrow> fin [] ''server_error'' (server_error ''rerank failed''))"

definition rerank_in_process ::
  "float_ops \<Rightarrow> ('s, string \<times> 'h, token_seq) moka \<Rightarrow> (string \<Rightarrow> 'h) \<Rightarrow> string \<Rightarrow> RerankerEntry \<Rightarrow> string \<Rightarrow>
   RerankHttpRequest \<Rightarrow> string list \<Rightarrow> 's option \<Rightarrow> RerankResponse handled \<times> 's option \<times> rmetric list" where
  "rerank_in_process fo m sha rid entry model req docs c =
     (let fin = (\<lambda>ms c label r. case finish_rerank model (length docs) ms label r of (r', ms') \<Rightarrow> (r', c, ms'));
          no_session = ''in-process RerankerModel session required but not loaded (EMBED_MULTI_PROCESS=1?)''
      in case rk_model entry of
           None \<Rightarrow> (Panic no_session, c, [])
         | Some ses \<Rightarrow> (case tokenize_with_cache m sha model ses (rq_query req) docs c of
               (None, c1, ml) \<Rightarrow> (Panic ''all slots filled after tokenize'', c1, ml)
             | (Some (Inl (TokFailed e)), c1, ml) \<Rightarrow> fin ml c1 ''server_error'' (server_error e)
             | (Some (Inl (TokPanic e)), c1, ml) \<Rightarrow> fin ml c1 ''server_error'' (server_error e)
             | (Some (Inr ids), c1, ml) \<Rightarrow> (case dispatch_inference entry ids (length docs) of
                   None \<Rightarrow> (Panic no_session, c1, ml)
                 | Some (Inl (InfQueueFull msg)) \<Rightarrow> fin ml c1 ''rate_limited'' (rate_limited_response msg)
                 | Some (Inl (InfInference msg)) \<Rightarrow> fin ml c1 ''server_error'' (server_error msg)
                 | Some (Inl InfShutdown) \<Rightarrow> fin ml c1 ''shutdown'' (respond_err 503 None ''batcher shut down'' ''server_error'')
                 | Some (Inl (ShapeMismatch msg)) \<Rightarrow> fin ml c1 ''server_error'' (server_error msg)
                 | Some (Inl (InfPanic msg)) \<Rightarrow> fin ml c1 ''server_error'' (server_error msg)
                 | Some (Inr scores) \<Rightarrow>
                     if length scores \<noteq> length docs
                     then fin ml c1 ''server_error'' (server_error ''internal error: score count mismatch'')
                     else fin ml c1 ''success'' (rerank_respond fo rid model req docs scores))))"

definition rerank ::
  "float_ops \<Rightarrow> ('s, string \<times> 'h, token_seq) moka \<Rightarrow> (string \<Rightarrow> 'h) \<Rightarrow> string \<Rightarrow> RerankState \<Rightarrow> RerankHttpRequest \<Rightarrow>
   's option \<Rightarrow> RerankResponse handled \<times> 's option \<times> rmetric list" where
  "rerank fo m sha rid st req c =
     (let early = (\<lambda>ms label n r. (r, c, ms @ [RerankRequestDone ''unknown'' label n]));
          n = length (rq_documents req);
          cap = rerank_max_input_docs st
      in if available_permits st = Some 0 then early [] ''rate_limited'' 0 (respond_err 429 (Some ''1'') ''rerank concurrency cap reached'' ''rate_limited'')
         else if rk_shutdown_cancelled st then early [] ''shutdown'' 0 (respond_err 503 (Some ''5'') ''server shutting down'' ''rate_limited'')
         else if query_blank (rq_query req) then early [] ''bad_request'' 0 (error_json ''query must not be empty'')
         else if rq_documents req = [] then early [] ''bad_request'' 0 (error_json ''documents must not be empty'')
         else if cap < n then early [RerankInputDocsSize n, RerankInputDocsRejected] ''bad_request'' n (documents_too_many cap n)
         else case resolve_reranker_name st (rq_model req) of
             Inl msg \<Rightarrow> early [RerankInputDocsSize n] ''bad_request'' 0 (error_json msg)
           | Inr model \<Rightarrow> (case map_of (rerankers st) model of
                 None \<Rightarrow> (Panic ''resolve_reranker_name validated key presence'', c, [RerankInputDocsSize n])
               | Some entry \<Rightarrow>
                   let docs = map into_text (rq_documents req) in
                   case rk_worker_pool st of
                     Some dispatch \<Rightarrow>
                       (case rerank_via_pool fo rid dispatch model req docs of (r, ml) \<Rightarrow> (r, c, RerankInputDocsSize n # ml))
                   | None \<Rightarrow>
                       (case rerank_in_process fo m sha rid entry model req docs c of
                          (r, c', ml) \<Rightarrow> (r, c', RerankInputDocsSize n # ml))))"

section \<open>Request ids\<close>

text \<open>Two requests have the same id exactly if their clocks read the same nanosecond.\<close>

lemma hex_digit_inj:
  assumes "m < 16" "n < 16" "''0123456789abcdef'' ! m = ''0123456789abcdef'' ! n"
  shows "m = n"
proof -
  have "distinct ''0123456789abcdef''" "length ''0123456789abcdef'' = 16" by simp_all
  with assms show ?thesis using nth_eq_iff_index_eq by metis
qed

lemma show_hex_inj: "show_hex m = show_hex n \<Longrightarrow> m = n"
proof (induction m arbitrary: n rule: less_induct)
  case (less m)
  have ne: "show_hex k \<noteq> []" "[] \<noteq> show_hex k" for k by (subst show_hex.simps, simp)+
  note eq = less.prems [unfolded show_hex.simps [of m] show_hex.simps [of n]]
  show ?case
  proof (cases "m < 16"; cases "n < 16")
    assume "\<not> m < 16" "\<not> n < 16"
    with eq have "show_hex (m div 16) = show_hex (n div 16)" "''0123456789abcdef'' ! (m mod 16) = ''0123456789abcdef'' ! (n mod 16)"
      by simp_all
    then have "m div 16 = n div 16" "m mod 16 = n mod 16"
      using less.IH [of "m div 16" "n div 16"] hex_digit_inj [of "m mod 16" "n mod 16"] \<open>\<not> m < 16\<close> by auto
    then show "m = n" by (metis div_mod_decomp)
  qed (use eq ne hex_digit_inj in auto)
qed

lemma opaque_request_id_inj: "opaque_request_id (Some m) = opaque_request_id (Some n) \<longleftrightarrow> m = n"
  using show_hex_inj by (auto simp: opaque_request_id_def)

section \<open>Lemmas on the sort\<close>

text \<open>A stable sort orders by the key and keeps the given order among equal keys.\<close>

definition lex_by :: "('a \<Rightarrow> 'k::linorder) \<Rightarrow> ('a \<Rightarrow> 'a \<Rightarrow> bool) \<Rightarrow> 'a \<Rightarrow> 'a \<Rightarrow> bool" where
  "lex_by f R a b \<longleftrightarrow> f a < f b \<or> (f a = f b \<and> R a b)"

lemma insort_key_lex:
  "sorted_wrt (lex_by f R) ys \<Longrightarrow> \<forall>y \<in> set ys. R x y \<Longrightarrow> sorted_wrt (lex_by f R) (insort_key f x ys)"
proof (induction ys)
  case (Cons y ys)
  show ?case
  proof (cases "f x \<le> f y")
    case True
    have "f y \<le> f z" if "z \<in> set ys" for z
      using Cons.prems(1) that by (auto simp: lex_by_def)
    with True Cons.prems have "lex_by f R x z" if "z \<in> set (y # ys)" for z
      using that by (fastforce simp: lex_by_def order_less_le)
    with True Cons.prems(1) show ?thesis by simp
  next
    case False
    then have "lex_by f R y x" by (simp add: lex_by_def not_le)
    with False Cons show ?thesis by (auto simp: set_insort_key)
  qed
qed simp

lemma sort_key_lex: "sorted_wrt R xs \<Longrightarrow> sorted_wrt (lex_by f R) (sort_key f xs)"
  by (induction xs) (simp_all add: insort_key_lex)

text \<open>The order of a response: by decreasing score, earlier documents first among equal scores.\<close>

definition ranks_before :: "RerankResult \<Rightarrow> RerankResult \<Rightarrow> bool" where
  "ranks_before a b \<longleftrightarrow> relevance_score b < relevance_score a \<or>
     (relevance_score b = relevance_score a \<and> rs_index a < rs_index b)"

lemma ranks_before_lex: "ranks_before = lex_by (\<lambda>r. - f32_key (relevance_score r)) (\<lambda>a b. rs_index a < rs_index b)"
  by (auto simp: fun_eq_iff ranks_before_def lex_by_def less_f32_def dest: f32_key_inj)

text \<open>The scored documents when none is out of range, and the first of them in the order of a response.\<close>

definition scored_list :: "f32 list \<Rightarrow> string list option \<Rightarrow> RerankResult list" where
  "scored_list scores docs =
     map (\<lambda>i. \<lparr>rs_index = i, relevance_score = scores ! i, rs_document = map_option (\<lambda>d. d ! i) docs\<rparr>) [0..<length scores]"

definition ranking :: "f32 list \<Rightarrow> string list option \<Rightarrow> RerankResult list" where
  "ranking scores docs = sort_key (\<lambda>r. - f32_key (relevance_score r)) (scored_list scores docs)"

definition top_results :: "f32 list \<Rightarrow> nat option \<Rightarrow> string list option \<Rightarrow> RerankResult list" where
  "top_results scores top_n docs = take (case top_n of None \<Rightarrow> length scores | Some n \<Rightarrow> n) (ranking scores docs)"

lemma scored_list_nth:
  "length (scored_list scores docs) = length scores"
  "map rs_index (scored_list scores docs) = [0..<length scores]"
  "r \<in> set (scored_list scores docs) \<longleftrightarrow>
     (\<exists>i < length scores. r = \<lparr>rs_index = i, relevance_score = scores ! i, rs_document = map_option (\<lambda>d. d ! i) docs\<rparr>)"
  by (auto simp: scored_list_def comp_def)

text \<open>The code panics exactly if a document is asked for that the request does not have.\<close>

lemma scored_results_eq:
  "scored_results scores docs =
     (if \<exists>d. docs = Some d \<and> length d < length scores then None else Some (scored_list scores docs))"
proof (cases "\<exists>d. docs = Some d \<and> length d < length scores")
  case True
  then obtain d where d: "docs = Some d" "length d < length scores" by blast
  have "scored_results scores docs \<noteq> Some rs" for rs
  proof
    assume "scored_results scores docs = Some rs"
    then have "map (scored_result docs) (enumerate 0 scores) = map Some rs"
      by (simp add: scored_results_def those_Some_iff)
    then have "map (scored_result docs) (enumerate 0 scores) ! length d = map Some rs ! length d" by simp
    moreover have "length rs = length scores"
      using arg_cong [OF \<open>map (scored_result docs) (enumerate 0 scores) = map Some rs\<close>, of length] by simp
    ultimately show False using d by (simp add: scored_result_def nth_enumerate_eq)
  qed
  then show ?thesis using True by (cases "scored_results scores docs") auto
next
  case False
  have "map (scored_result docs) (enumerate 0 scores) = map Some (scored_list scores docs)"
    using False by (intro nth_equalityI) (auto simp: scored_result_def scored_list_def nth_enumerate_eq split: option.splits)
  then show ?thesis using False by (simp add: scored_results_def)
qed

lemma build_sorted_results_eq:
  "build_sorted_results scores top_n docs =
     (if \<exists>d. docs = Some d \<and> length d < length scores then None else Some (top_results scores top_n docs))"
  by (simp add: build_sorted_results_def scored_results_eq top_results_def ranking_def Let_def scored_list_nth split: option.splits)

lemma rerank_respond_eq:
  "length docs = length scores \<Longrightarrow> rerank_respond fo rid model req docs scores =
     respond_ok \<lparr>rp_id = rid, rp_model = model, rp_results = top_results (apply_normalize fo scores (normalize_or_default (rq_normalize req)))
       (rq_top_n req) (if rq_return_documents req then Some docs else None)\<rparr>"
  by (simp add: rerank_respond_def build_sorted_results_eq apply_normalize_def split: NormalizeMode.splits)

lemma scored_list_sorted: "sorted_wrt (\<lambda>a b. rs_index a < rs_index b) (scored_list scores docs)"
  using sorted_wrt_map [of "(<)" rs_index "scored_list scores docs"] by (simp add: scored_list_nth strict_sorted_iff)

lemma ranking_sorted: "sorted_wrt ranks_before (ranking scores docs)"
  unfolding ranks_before_lex ranking_def by (rule sort_key_lex [OF scored_list_sorted])

lemma top_results_props:
  shows "length (top_results scores top_n docs) = min (case top_n of None \<Rightarrow> length scores | Some n \<Rightarrow> n) (length scores)"
    and "sorted_wrt ranks_before (top_results scores top_n docs)"
    and "distinct (map rs_index (top_results scores top_n docs))"
    and "set (top_results scores top_n docs) \<subseteq> set (scored_list scores docs)"
proof -
  have "mset (map rs_index (ranking scores docs)) = mset (map rs_index (scored_list scores docs))"
    by (simp add: ranking_def)
  then have "mset (map rs_index (ranking scores docs)) = mset [0..<length scores]"
    unfolding scored_list_nth(2) .
  then have d: "distinct (map rs_index (ranking scores docs))"
    by (metis distinct_upt mset_eq_imp_distinct_iff)
  show "distinct (map rs_index (top_results scores top_n docs))"
    unfolding top_results_def using d by (metis distinct_take take_map)
  show "sorted_wrt ranks_before (top_results scores top_n docs)"
    unfolding top_results_def by (rule sorted_wrt_take [OF ranking_sorted])
  show "set (top_results scores top_n docs) \<subseteq> set (scored_list scores docs)"
    unfolding top_results_def ranking_def using set_take_subset by fastforce
qed (simp add: top_results_def ranking_def scored_list_nth)

text \<open>A document that is left out ranks after every document listed.\<close>

lemma top_results_rest:
  assumes "i < length scores"
  shows "i \<in> rs_index ` set (top_results scores top_n docs) \<or>
    (\<forall>r \<in> set (top_results scores top_n docs).
       ranks_before r \<lparr>rs_index = i, relevance_score = scores ! i, rs_document = None\<rparr>)"
proof -
  let ?x = "\<lparr>rs_index = i, relevance_score = scores ! i, rs_document = map_option (\<lambda>d. d ! i) docs\<rparr>"
  define n where "n = (case top_n of None \<Rightarrow> length scores | Some n \<Rightarrow> n)"
  have t: "top_results scores top_n docs = take n (ranking scores docs)" by (simp add: top_results_def n_def)
  have x: "?x \<in> set (take n (ranking scores docs)) \<union> set (drop n (ranking scores docs))"
    using assms unfolding set_append [symmetric] append_take_drop_id by (simp add: ranking_def scored_list_nth)
  have "sorted_wrt ranks_before (take n (ranking scores docs) @ drop n (ranking scores docs))" using ranking_sorted by simp
  then have after: "ranks_before r y" if "r \<in> set (take n (ranking scores docs))" "y \<in> set (drop n (ranking scores docs))" for r y
    using that unfolding sorted_wrt_append by blast
  have same: "ranks_before r ?x \<Longrightarrow> ranks_before r \<lparr>rs_index = i, relevance_score = scores ! i, rs_document = None\<rparr>" for r
    by (simp add: ranks_before_def)
  from x show ?thesis
  proof
    assume "?x \<in> set (take n (ranking scores docs))"
    then have "rs_index ?x \<in> rs_index ` set (take n (ranking scores docs))" by (rule imageI)
    then show ?thesis by (simp add: t)
  next
    assume "?x \<in> set (drop n (ranking scores docs))"
    then show ?thesis using after same unfolding t by blast
  qed
qed

section \<open>Lemmas on the token cache\<close>

text \<open>What the entries of the token cache mean.\<close>

definition pair_entry :: "(string \<Rightarrow> 'h) \<Rightarrow> (string \<Rightarrow> string \<Rightarrow> string \<Rightarrow> token_seq) \<Rightarrow> string \<times> 'h \<Rightarrow> token_seq \<Rightarrow> bool" where
  "pair_entry sha T k v \<longleftrightarrow> (\<exists>q d. hash_pair sha q d = snd k \<and> v = T (fst k) q d)"

lemma probe_sound:
  assumes "cache_backend m view" and "probe m sha model q docs c = (c', slots)" and "cache_sound view P c"
  shows "cache_sound view P c' \<and> length slots = length docs \<and>
     (\<forall>i < length docs. \<forall>v. slots ! i = Some v \<longrightarrow> P (model, hash_pair sha q (docs ! i)) v)"
  using assms(2,3)
proof (induction docs arbitrary: c slots)
  case (Cons d ds)
  obtain c1 r where g: "token_cache_get m sha c model q d = (c1, r)" by fastforce
  obtain rs where p: "probe m sha model q ds c1 = (c', rs)" and s: "slots = r # rs"
    using Cons.prems(1) g by (auto split: prod.splits)
  have c1: "cache_sound view P c1" "\<And>v. r = Some v \<Longrightarrow> P (model, hash_pair sha q d) v"
    using cache_backend.cache_get_sound [OF assms(1) Cons.prems(2)] g by (auto simp: cache_ops_opt)
  show ?case
    using Cons.IH [OF p c1(1)] c1(2) s by (auto simp: nth_Cons split: nat.splits)
qed simp

lemma splice_spec:
  assumes "cache_backend m view" and "\<forall>i < length docs. P (model, hash_pair sha q (docs ! i)) (f (docs ! i))"
    and "length slots0 = length docs"
  shows "cache_sound view P c \<Longrightarrow> k \<le> length docs \<Longrightarrow>
    \<exists>c'. splice_misses m sha model q docs (map (\<lambda>i. (f (docs ! i), i)) (filter (\<lambda>i. slots0 ! i = None) [k..<length docs]))
          (drop k slots0) c =
        (c', map (\<lambda>i. Some (case slots0 ! i of Some v \<Rightarrow> v | None \<Rightarrow> f (docs ! i))) [k..<length docs]) \<and>
      cache_sound view P c'"
proof (induction "length docs - k" arbitrary: k c)
  case 0
  then show ?case using assms(3) by simp
next
  case (Suc n)
  then have k: "k < length docs" by simp
  then have up: "[k..<length docs] = k # [Suc k..<length docs]" and dr: "drop k slots0 = slots0 ! k # drop (Suc k) slots0"
    using assms(3) by (simp_all add: upt_conv_Cons Cons_nth_drop_Suc)
  have ins: "cache_sound view P (token_cache_insert m sha c model q (docs ! k) (f (docs ! k)))"
    using cache_backend.cache_insert_sound [OF assms(1) Suc.prems(1)] assms(2) k by (simp add: cache_ops_opt)
  have n: "n = length docs - Suc k" "Suc k \<le> length docs" using Suc.hyps(2) k by simp_all
  show ?case
  proof (cases "slots0 ! k")
    case None
    from Suc.hyps(1) [OF n(1) ins n(2)] show ?thesis
      by (elim exE conjE) (simp add: up dr None)
  next
    case (Some v)
    from Suc.hyps(1) [OF n(1) Suc.prems(1) n(2)] show ?thesis
      by (elim exE conjE) (simp add: up dr Some)
  qed
qed

text \<open>Everything the tokenizer stage does when the tokenizer answers every pair with its encoding.\<close>

lemma tokenize_with_cache_spec:
  assumes "cache_backend m view" and sound: "cache_sound view (pair_entry sha T) c"
    and tok: "\<And>ds. rk_tokenize_pairs ses q ds = Joined (Inr (map (T model q) ds))"
  shows "\<exists>ids c' ml. tokenize_with_cache m sha model ses q docs c = (Some (Inr ids), c', ml) \<and>
     length ids = length docs \<and> cache_sound view (pair_entry sha T) c' \<and>
     (\<forall>i < length docs. pair_entry sha T (model, hash_pair sha q (docs ! i)) (ids ! i))"
proof -
  obtain c1 slots where p: "probe m sha model q docs c = (c1, slots)" by fastforce
  note pr = probe_sound [OF assms(1) p sound]
  have own: "\<forall>i < length docs. pair_entry sha T (model, hash_pair sha q (docs ! i)) (T model q (docs ! i))"
    by (auto simp: pair_entry_def)
  show ?thesis
  proof (cases "length slots - length (filter (\<lambda>h. h \<noteq> None) slots) = 0")
    case True
    then have "length (filter (\<lambda>h. h \<noteq> None) slots) = length slots"
      by (simp add: le_antisym)
    then have "\<forall>j < length slots. slots ! j \<noteq> None"
      by (metis (mono_tags, lifting) filter_id_conv length_filter_less less_irrefl nth_mem)
    then obtain ids where "slots = map Some ids"
      using those_filled those_Some_iff by metis
    then show ?thesis
      using p pr True by (auto simp: tokenize_with_cache_def Let_def)
  next
    case False
    have len: "length slots = length docs" using pr by simp
    let ?ids = "map (\<lambda>i. case slots ! i of Some v \<Rightarrow> v | None \<Rightarrow> T model q (docs ! i)) [0..<length docs]"
    obtain c2 where sp: "splice_misses m sha model q docs
        (map (\<lambda>i. (T model q (docs ! i), i)) (filter (\<lambda>i. slots ! i = None) [0..<length docs])) slots c1 =
        (c2, map Some ?ids)" and c2: "cache_sound view (pair_entry sha T) c2"
      using splice_spec [OF assms(1) own len, of c1 0] pr by (auto simp: comp_def)
    have "zip (map (T model q) (map (\<lambda>i. docs ! i) xs)) xs = map (\<lambda>i. (T model q (docs ! i), i)) xs" for xs
      by (simp add: zip_map1 zip_same_conv_map)
    then have "tokenize_with_cache m sha model ses q docs c =
        (Some (Inr ?ids), c2, [TokenCacheHit model (length (filter (\<lambda>h. h \<noteq> None) slots)),
           TokenCacheMiss model (length slots - length (filter (\<lambda>h. h \<noteq> None) slots)), RerankTokenizer model])"
      using False p sp len tok by (simp add: tokenize_with_cache_def Let_def del: map_map)
    moreover have "pair_entry sha T (model, hash_pair sha q (docs ! i)) (?ids ! i)" if "i < length docs" for i
      using pr own that by (auto split: option.splits)
    ultimately show ?thesis using c2 by auto
  qed
qed

lemma rerank_errors [simp]:
  "server_error msg \<noteq> respond_ok b" "rate_limited_response msg \<noteq> respond_ok b" "documents_too_many cap n \<noteq> respond_ok b"
  "status_of (server_error msg) = Some 500" "status_of (rate_limited_response msg) = Some 429"
  "status_of (documents_too_many cap n) = Some 400"
  by (simp_all add: server_error_def rate_limited_response_def documents_too_many_def http_simps)

lemma finish_rerank_simps [simp]:
  "finish_rerank model n ms label (respond_ok b) = (respond_ok b, ms @ [RerankRequestDone model label n])"
  "finish_rerank model n ms label (respond_err st ra msg ty) = (respond_err st ra msg ty, ms @ [RerankRequestDone model label n])"
  "finish_rerank model n ms label (server_error msg) = (server_error msg, ms @ [RerankRequestDone model label n])"
  "finish_rerank model n ms label (rate_limited_response msg) = (rate_limited_response msg, ms @ [RerankRequestDone model label n])"
  "fst (finish_rerank model n ms label r) = r"
  by (simp_all add: finish_rerank_def server_error_def rate_limited_response_def http_simps split: handled.splits)

text \<open>
  The tokenizer stage panics only if the tokenizer answers with fewer sequences than pairs;
  the handler then panics only if a session it needs is not loaded.
\<close>

lemma splice_fills:
  "length (filter (\<lambda>x. x = None) slots) \<le> length misses \<Longrightarrow>
   \<exists>vs. snd (splice_misses m sha model q docs misses slots c) = map Some vs"
proof (induction m sha model q docs misses slots c rule: splice_misses.induct)
  case (2 m sha model q docs misses v slots c)
  then obtain vs where "snd (splice_misses m sha model q docs misses slots c) = map Some vs" by auto
  then show ?case by (auto split: prod.splits intro!: exI [of _ "v # vs"])
next
  case (4 m sha model q docs ids i misses slots c)
  then obtain vs where "snd (splice_misses m sha model q docs misses slots (token_cache_insert m sha c model q (docs ! i) ids)) = map Some vs"
    by auto
  then show ?case by (auto split: prod.splits intro!: exI [of _ "ids # vs"])
qed simp_all

lemma length_none_indices: "length (filter (\<lambda>i. slots ! i = None) [0..<length slots]) = length (filter (\<lambda>x. x = None) slots)"
proof -
  have "filter (\<lambda>x. x = None) slots = filter (\<lambda>x. x = None) (map (nth slots) [0..<length slots])" by (simp add: map_nth)
  then show ?thesis by (simp add: filter_map comp_def)
qed

lemma tokenize_with_cache_total:
  assumes "\<And>ds ids. rk_tokenize_pairs ses q ds = Joined (Inr ids) \<Longrightarrow> length ids = length ds"
  shows "fst (tokenize_with_cache m sha model ses q docs c) \<noteq> None"
proof -
  obtain c1 slots where p: "probe m sha model q docs c = (c1, slots)" by fastforce
  let ?idx = "filter (\<lambda>i. slots ! i = None) [0..<length slots]"
  have some: "\<exists>vs. those slots = Some vs" if "length slots - length (filter (\<lambda>h. h \<noteq> None) slots) = 0"
  proof -
    have "\<not> length (filter (\<lambda>h. h \<noteq> None) slots) < length slots" using that by linarith
    then have "\<forall>x \<in> set slots. x \<noteq> None" using length_filter_less [of _ slots "\<lambda>h. h \<noteq> None"] by blast
    then show ?thesis by (intro those_filled) simp
  qed
  have "\<exists>vs. those (snd (splice_misses m sha model q docs (zip ids ?idx) slots c1)) = Some vs"
    if "rk_tokenize_pairs ses q (map ((!) docs) ?idx) = Joined (Inr ids)" for ids
    using splice_fills [of slots "zip ids ?idx" m sha model q docs c1] assms [OF that] length_none_indices [of slots] by auto
  with some p show ?thesis
    by (auto simp: tokenize_with_cache_def Let_def split: prod.splits joined.splits sum.splits)
qed

lemma rerank_answers:
  assumes "\<And>x entry. (x, entry) \<in> set (rerankers st) \<Longrightarrow> rk_worker_pool st = None \<Longrightarrow> \<exists>ses. rk_model entry = Some ses \<and>
      (\<forall>q ds ids. rk_tokenize_pairs ses q ds = Joined (Inr ids) \<longrightarrow> length ids = length ds)"
    and checked: "\<And>dispatch model q docs msl r. rk_worker_pool st = Some dispatch \<Longrightarrow>
        dispatch model q docs msl = Inr (RespRerank r) \<Longrightarrow> length (ro_scores r) = length docs"
  shows "status_of (fst (rerank fo m sha rid st req c)) \<noteq> None"
proof -
  have via: "status_of (fst (rerank_via_pool fo rid d model req docs)) \<noteq> None"
    if d: "rk_worker_pool st = Some d" for d model docs
  proof -
    have "\<exists>rp. rerank_respond fo rid model req docs (ro_scores r) = respond_ok rp"
      if "d model (rq_query req) docs 0 = Inr (RespRerank r)" for r
      using rerank_respond_eq checked [OF d that] by simp
    then show ?thesis
      by (fastforce simp: rerank_via_pool_def Let_def split: sum.splits WorkerResponse.splits DispatchError.splits)
  qed
  have local: "status_of (fst (rerank_in_process fo m sha rid entry model req docs c)) \<noteq> None"
    if ses: "rk_model entry = Some ses" and tok: "\<forall>q ds ids. rk_tokenize_pairs ses q ds = Joined (Inr ids) \<longrightarrow> length ids = length ds"
    for entry ses model docs
  proof -
    obtain t c1 ml where t: "tokenize_with_cache m sha model ses (rq_query req) docs c = (Some t, c1, ml)"
      using tokenize_with_cache_total [of ses "rq_query req" m sha model docs c] tok
      by (cases "tokenize_with_cache m sha model ses (rq_query req) docs c") auto
    have [simp]: "dispatch_inference entry ids n = None \<longleftrightarrow> False" for ids n
      using ses by (simp add: dispatch_inference_def split: option.splits)
    from ses t show ?thesis
      by (auto simp: rerank_in_process_def Let_def rerank_respond_eq
          split: option.splits sum.splits TokenizeError.splits InferenceError.splits)
  qed
  have key: "\<exists>entry. map_of (rerankers st) model = Some entry" if "resolve_reranker_name st (rq_model req) = Inr model" for model
    using that by (auto simp: resolve_reranker_name_def split: option.splits list.splits if_splits)
  show ?thesis
  proof (cases "resolve_reranker_name st (rq_model req)")
    case (Inl msg)
    then show ?thesis by (simp add: rerank_def Let_def documents_too_many_def)
  next
    case (Inr model)
    then obtain entry where e: "map_of (rerankers st) model = Some entry" using key by blast
    show ?thesis
    proof (cases "rk_worker_pool st")
      case None
      obtain ses where "rk_model entry = Some ses"
        "\<forall>q ds ids. rk_tokenize_pairs ses q ds = Joined (Inr ids) \<longrightarrow> length ids = length ds"
        using assms(1) [OF map_of_SomeD [OF e] None] by blast
      from local [OF this, of model "map into_text (rq_documents req)"] Inr e None show ?thesis
        by (auto simp: rerank_def Let_def documents_too_many_def split: prod.splits)
    next
      case (Some d)
      from via [OF Some, of model "map into_text (rq_documents req)"] Inr e Some show ?thesis
        by (auto simp: rerank_def Let_def documents_too_many_def split: prod.splits)
    qed
  qed
qed

text \<open>
  The scores the backend gives for a request: those of the worker's response, or those of the
  model in the process for the pairs as the token cache gives them.
\<close>

definition local_scores ::
  "('s, string \<times> 'h, token_seq) moka \<Rightarrow> (string \<Rightarrow> 'h) \<Rightarrow> string \<Rightarrow> RerankerEntry \<Rightarrow> string \<Rightarrow> string list \<Rightarrow>
   's option \<Rightarrow> f32 list option" where
  "local_scores m sha model entry q docs c =
     (case rk_model entry of
        None \<Rightarrow> None
      | Some ses \<Rightarrow> (case fst (tokenize_with_cache m sha model ses q docs c) of
            Some (Inr ids) \<Rightarrow> (case dispatch_inference entry ids (length docs) of Some (Inr scores) \<Rightarrow> Some scores | _ \<Rightarrow> None)
          | _ \<Rightarrow> None))"

definition backend_scores ::
  "('s, string \<times> 'h, token_seq) moka \<Rightarrow> (string \<Rightarrow> 'h) \<Rightarrow> RerankState \<Rightarrow> string \<Rightarrow> string \<Rightarrow> string list \<Rightarrow>
   's option \<Rightarrow> f32 list option" where
  "backend_scores m sha st model q docs c =
     (case rk_worker_pool st of
        Some dispatch \<Rightarrow> (case dispatch model q docs 0 of Inr (RespRerank r) \<Rightarrow> Some (ro_scores r) | _ \<Rightarrow> None)
      | None \<Rightarrow> (case map_of (rerankers st) model of None \<Rightarrow> None | Some entry \<Rightarrow> local_scores m sha model entry q docs c))"

text \<open>A success of either path comes from these scores.\<close>

lemma finish_rerank_ok: "finish_rerank model n ms label r = (respond_ok rp, ml) \<longleftrightarrow> r = respond_ok rp \<and> ml = ms @ [RerankRequestDone model label n]"
  by (auto simp: finish_rerank_def split: handled.splits)

lemma rerank_via_pool_ok:
  "rerank_via_pool fo rid dispatch model req docs = (respond_ok rp, ml) \<Longrightarrow>
   \<exists>r. dispatch model (rq_query req) docs 0 = Inr (RespRerank r) \<and>
     rerank_respond fo rid model req docs (ro_scores r) = respond_ok rp"
  by (auto simp: rerank_via_pool_def Let_def finish_rerank_ok split: sum.splits WorkerResponse.splits DispatchError.splits)

lemma rerank_in_process_ok:
  "rerank_in_process fo m sha rid entry model req docs c = (respond_ok rp, c', ml) \<Longrightarrow>
   \<exists>scores. local_scores m sha model entry (rq_query req) docs c = Some scores \<and> length scores = length docs \<and>
     rerank_respond fo rid model req docs scores = respond_ok rp"
  by (auto simp: rerank_in_process_def local_scores_def Let_def finish_rerank_ok split: option.splits prod.splits sum.splits
      TokenizeError.splits InferenceError.splits if_splits)

lemma rerank_ok:
  assumes checked: "\<And>dispatch model q docs msl r. rk_worker_pool st = Some dispatch \<Longrightarrow>
        dispatch model q docs msl = Inr (RespRerank r) \<Longrightarrow> length (ro_scores r) = length docs"
    and res: "rerank fo m sha rid st req c = (respond_ok rp, c', ml)"
  shows "\<exists>model raw. resolve_reranker_name st (rq_model req) = Inr model \<and>
    backend_scores m sha st model (rq_query req) (map into_text (rq_documents req)) c = Some raw \<and>
    length raw = length (rq_documents req) \<and>
    rerank_respond fo rid model req (map into_text (rq_documents req)) raw = respond_ok rp"
proof -
  let ?docs = "map into_text (rq_documents req)"
  obtain model entry where m: "resolve_reranker_name st (rq_model req) = Inr model" "map_of (rerankers st) model = Some entry"
    using res by (auto simp: rerank_def Let_def split: if_splits sum.splits option.splits)
  show ?thesis
  proof (cases "rk_worker_pool st")
    case None
    then have "\<exists>ml. rerank_in_process fo m sha rid entry model req ?docs c = (respond_ok rp, c', ml)"
      using res m by (auto simp: rerank_def Let_def split: if_splits prod.splits)
    then show ?thesis using m None rerank_in_process_ok by (fastforce simp: backend_scores_def)
  next
    case (Some d)
    then have "\<exists>ml. rerank_via_pool fo rid d model req ?docs = (respond_ok rp, ml)"
      using res m by (auto simp: rerank_def Let_def split: if_splits prod.splits)
    then obtain r where "d model (rq_query req) ?docs 0 = Inr (RespRerank r)"
      "rerank_respond fo rid model req ?docs (ro_scores r) = respond_ok rp"
      using rerank_via_pool_ok by blast
    then show ?thesis using m Some checked [OF Some] by (fastforce simp: backend_scores_def)
  qed
qed

section \<open>Properties\<close>

text \<open>
  C0. The ranking is the stable descending one, cut to \<open>top_n\<close>. Unless a document is asked for
  that the request does not have, which is a panic, the results are the first \<open>top_n\<close> (or all)
  elements of the one arrangement of all scored documents that is ordered by decreasing score
  in the total order of \<open>f32\<close> and, among equal scores, by position in the request; NaN scores
  included.
\<close>

theorem build_sorted_results_spec:
  "(build_sorted_results scores top_n docs = None \<longleftrightarrow> (\<exists>d. docs = Some d \<and> length d < length scores)) \<and>
   (\<forall>results. build_sorted_results scores top_n docs = Some results \<longrightarrow>
      (\<exists>!full. mset full = mset (map (\<lambda>i. \<lparr>rs_index = i, relevance_score = scores ! i, rs_document = map_option (\<lambda>d. d ! i) docs\<rparr>)
                                  [0..<length scores]) \<and>
         sorted_wrt (\<lambda>a b. relevance_score b < relevance_score a \<or>
            (relevance_score b = relevance_score a \<and> rs_index a < rs_index b)) full \<and>
         results = take (case top_n of None \<Rightarrow> length scores | Some n \<Rightarrow> n) full))"
proof -
  have uniq: "xs = ys" if "mset xs = mset ys" "sorted_wrt ranks_before xs" "sorted_wrt ranks_before ys" for xs ys
    using that
  proof (induction xs arbitrary: ys)
    case (Cons x xs)
    then obtain y zs where ys: "ys = y # zs" by (cases ys) auto
    have "x = y"
    proof (rule ccontr)
      assume "x \<noteq> y"
      then have "x \<in> set zs" "y \<in> set xs"
        using mset_eq_setD [OF Cons.prems(1)] ys by auto
      then have "ranks_before y x" "ranks_before x y" using Cons.prems ys by auto
      then show False by (auto simp: ranks_before_def)
    qed
    with Cons ys show ?case by auto
  qed simp
  have "mset (ranking scores docs) = mset (scored_list scores docs)" by (simp add: ranking_def)
  then have "\<exists>!full. mset full = mset (scored_list scores docs) \<and> sorted_wrt ranks_before full \<and>
      top_results scores top_n docs = take (case top_n of None \<Rightarrow> length scores | Some n \<Rightarrow> n) full"
    using ranking_sorted [of scores docs] uniq
    by (intro ex1I [of _ "ranking scores docs"]) (auto simp: top_results_def)
  then show ?thesis
    by (simp add: build_sorted_results_eq scored_list_def ranks_before_def [abs_def])
qed

text \<open>
  C11. What a successful rerank response contains, provided the worker client has checked that
  there are as many scores as documents: the model the request resolves to, as many results
  as \<open>top_n\<close> allows, ranked, with distinct indices into the request's documents and, when
  asked for, the text at that index. With the scores the backend gave for the request, every
  result carries the normalised score of the document at its own index, and a document that
  is not listed ranks after all that are.
\<close>

theorem rerank_ranking:
  assumes checked: "\<And>dispatch model q docs msl r. rk_worker_pool st = Some dispatch \<Longrightarrow>
        dispatch model q docs msl = Inr (RespRerank r) \<Longrightarrow> length (ro_scores r) = length docs"
    and res: "rerank fo m sha rid st req c = (respond_ok rp, c', ml)"
  shows "resolve_reranker_name st (rq_model req) = Inr (rp_model rp) \<and>
     length (rp_results rp) = min (case rq_top_n req of None \<Rightarrow> length (rq_documents req) | Some n \<Rightarrow> n) (length (rq_documents req)) \<and>
     sorted_wrt ranks_before (rp_results rp) \<and> distinct (map rs_index (rp_results rp)) \<and>
     (\<forall>r \<in> set (rp_results rp). rs_index r < length (rq_documents req) \<and>
        rs_document r = (if rq_return_documents req then Some (into_text (rq_documents req ! rs_index r)) else None)) \<and>
     (\<exists>raw scores. backend_scores m sha st (rp_model rp) (rq_query req) (map into_text (rq_documents req)) c = Some raw \<and>
        scores = apply_normalize fo raw (normalize_or_default (rq_normalize req)) \<and> length scores = length (rq_documents req) \<and>
        (\<forall>r \<in> set (rp_results rp). relevance_score r = scores ! rs_index r) \<and>
        (\<forall>i < length scores. i \<in> rs_index ` set (rp_results rp) \<or>
           (\<forall>r \<in> set (rp_results rp). ranks_before r \<lparr>rs_index = i, relevance_score = scores ! i, rs_document = None\<rparr>)))"
proof -
  let ?docs = "map into_text (rq_documents req)" and ?echo = "if rq_return_documents req then Some (map into_text (rq_documents req)) else None"
  have "\<exists>model raw. resolve_reranker_name st (rq_model req) = Inr model \<and>
      backend_scores m sha st model (rq_query req) ?docs c = Some raw \<and>
      length raw = length (rq_documents req) \<and> rerank_respond fo rid model req ?docs raw = respond_ok rp"
    by (rule rerank_ok [OF _ res]) (rule checked)
  then obtain model raw where m: "resolve_reranker_name st (rq_model req) = Inr model"
      "backend_scores m sha st model (rq_query req) ?docs c = Some raw"
    and raw: "length raw = length (rq_documents req)" "rerank_respond fo rid model req ?docs raw = respond_ok rp"
    by blast
  define scores where "scores = apply_normalize fo raw (normalize_or_default (rq_normalize req))"
  have n: "length scores = length (rq_documents req)"
    using raw(1) by (simp add: scores_def apply_normalize_def split: NormalizeMode.splits)
  have rp: "rp_model rp = model" "rp_results rp = top_results scores (rq_top_n req) ?echo"
    using raw by (auto simp: rerank_respond_eq scores_def)
  note props = top_results_props [of scores "rq_top_n req" ?echo]
  have entry: "\<exists>i < length scores. r = \<lparr>rs_index = i, relevance_score = scores ! i, rs_document = map_option (\<lambda>d. d ! i) ?echo\<rparr>"
    if "r \<in> set (rp_results rp)" for r
    using props(4) that unfolding rp scored_list_nth(3) [symmetric] by blast
  have "\<forall>r \<in> set (rp_results rp). relevance_score r = scores ! rs_index r" using entry by fastforce
  moreover have "\<forall>i < length scores. i \<in> rs_index ` set (rp_results rp) \<or>
      (\<forall>r \<in> set (rp_results rp). ranks_before r \<lparr>rs_index = i, relevance_score = scores ! i, rs_document = None\<rparr>)"
    unfolding rp using top_results_rest by blast
  moreover have "\<forall>r \<in> set (rp_results rp). rs_index r < length (rq_documents req) \<and>
      rs_document r = (if rq_return_documents req then Some (into_text (rq_documents req ! rs_index r)) else None)"
    using entry n by fastforce
  moreover have "length (rp_results rp) = min (case rq_top_n req of None \<Rightarrow> length (rq_documents req) | Some n \<Rightarrow> n) (length (rq_documents req))"
    "sorted_wrt ranks_before (rp_results rp)" "distinct (map rs_index (rp_results rp))"
    using props(1-3) n unfolding rp by (simp_all split: option.splits)
  ultimately show ?thesis using m n rp(1) scores_def by blast
qed

text \<open>
  C24. Tokenizing through the cache is transparent: if every entry of the token cache is the
  encoding of a pair with its key and the tokenizer encodes each pair on its own, the ids
  come back in document order, each the encoding of a pair with the key of the query and that
  document, and the cache still holds only such entries.
\<close>

theorem tokenize_with_cache_correct:
  assumes "lossy_store (mk_get m) (mk_insert m) view" and "cache_sound view (pair_entry sha T) c"
    and "\<And>ds. rk_tokenize_pairs ses q ds = Joined (Inr (map (T model q) ds))"
  shows "\<exists>ids c' ml. tokenize_with_cache m sha model ses q docs c = (Some (Inr ids), c', ml) \<and>
     length ids = length docs \<and> cache_sound view (pair_entry sha T) c' \<and>
     (\<forall>i < length docs. \<exists>q' d'. hash_pair sha q' d' = hash_pair sha q (docs ! i) \<and> ids ! i = T model q' d')"
  using tokenize_with_cache_spec [OF cache_backendI [OF assms(1)] assms(2,3)] by (simp add: pair_entry_def)

text \<open>
  The checks come in the order of the code: a request above the concurrency cap is refused
  with 429 whatever else is wrong with it, then a shutdown with 503, then a blank query, an
  empty or oversized document list and an unresolvable model with 400; nothing of this
  touches the token cache.
\<close>

lemma rerank_admission:
  "(available_permits st = Some 0 \<longrightarrow> status_of (fst (rerank fo m sha rid st req c)) = Some 429) \<and>
   (available_permits st \<noteq> Some 0 \<and> rk_shutdown_cancelled st \<longrightarrow> status_of (fst (rerank fo m sha rid st req c)) = Some 503) \<and>
   (available_permits st \<noteq> Some 0 \<and> \<not> rk_shutdown_cancelled st \<and>
      (query_blank (rq_query req) \<or> rq_documents req = [] \<or> rerank_max_input_docs st < length (rq_documents req) \<or>
       (\<exists>e. resolve_reranker_name st (rq_model req) = Inl e)) \<longrightarrow>
      status_of (fst (rerank fo m sha rid st req c)) = Some 400 \<and> fst (snd (rerank fo m sha rid st req c)) = c)"
  by (auto simp: rerank_def Let_def)

text \<open>
  Clamping makes the sigmoid flat: whatever the arithmetic, two logits above 50 get the
  same normalised score, so with the default normalisation a document with logit 55 that
  comes first is ranked before one with logit 60, while the raw ranking has them the other
  way round.
\<close>

lemma sigmoid_ties_above_clamp:
  "(f32_lt SIGMOID_CLAMP x \<longrightarrow> f32_lt SIGMOID_CLAMP y \<longrightarrow> sigmoid fo x = sigmoid fo y) \<and>
   map_option (map rs_index) (build_sorted_results (apply_normalize fo [F32 0x425C0000, F32 0x42700000] Sigmoid) None None) = Some [0, 1] \<and>
   map_option (map rs_index) (build_sorted_results (apply_normalize fo [F32 0x425C0000, F32 0x42700000] NormNone) None None) = Some [1, 0]"
proof -
  have hi: "f32_clamp z (f32_neg SIGMOID_CLAMP) SIGMOID_CLAMP = SIGMOID_CLAMP" if "f32_lt SIGMOID_CLAMP z" for z
    using that by (auto simp: f32_clamp_def f32_lt_def f32_neg_def SIGMOID_CLAMP_def f32_sm_def f32_u_def Let_def split: if_splits)
  have "f32_lt SIGMOID_CLAMP (F32 0x425C0000)" "f32_lt SIGMOID_CLAMP (F32 0x42700000)"
    by (simp_all add: f32_lt_def SIGMOID_CLAMP_def f32_sm_def f32_u_def f32_is_nan_def)
  then have "sigmoid fo (F32 0x425C0000) = sigmoid fo (F32 0x42700000)"
    by (simp add: sigmoid_def hi)
  then have "map_option (map rs_index) (build_sorted_results (apply_normalize fo [F32 0x425C0000, F32 0x42700000] Sigmoid) None None) = Some [0, 1]"
    by (simp add: apply_normalize_def build_sorted_results_def scored_results_def scored_result_def Let_def)
  moreover have "map_option (map rs_index) (build_sorted_results (apply_normalize fo [F32 0x425C0000, F32 0x42700000] NormNone) None None) = Some [1, 0]"
    by (simp add: apply_normalize_def build_sorted_results_def scored_results_def scored_result_def Let_def f32_key_def f32_u_def)
  ultimately show ?thesis by (simp add: sigmoid_def hi)
qed

section \<open>Witnesses\<close>

definition wit_fo :: float_ops where
  "wit_fo = \<lparr>fo_exp = id, fo_add = (\<lambda>_ x. x), fo_div = (\<lambda>_ x. f32_neg x)\<rparr>"

definition wit_rk_session :: rerank_session where
  "wit_rk_session = \<lparr>rk_tokenize_pairs = (\<lambda>q ds. Joined (Inr (map (\<lambda>d. map of_char (q @ d)) ds))),
     rk_score_pairs = (\<lambda>ids. Joined (Inr (map (\<lambda>t. F32 (of_nat (length t))) ids)))\<rparr>"

definition wit_rk_state :: RerankState where
  "wit_rk_state = \<lparr>rerankers = [(''r'', \<lparr>rk_model = Some wit_rk_session, rk_batcher = None\<rparr>)], rk_shutdown_cancelled = False,
     available_permits = Some 1, rerank_max_input_docs = 4, rk_worker_pool = None\<rparr>"

definition wit_rk_request :: RerankHttpRequest where
  "wit_rk_request = \<lparr>rq_model = None, rq_query = ''q'', rq_documents = [DocText ''a'', DocObject ''bcd'', DocText ''ef''],
     rq_top_n = Some 2, rq_return_documents = True, rq_normalize = Some NormNone\<rparr>"

lemma wit_rerank:
  "rerank wit_fo (lru_moka :: ((string \<times> string, token_seq) lru, string \<times> string, token_seq) moka) id ''id'' wit_rk_state
     wit_rk_request None =
   (respond_ok \<lparr>rp_id = ''id'', rp_model = ''r'',
      rp_results = [\<lparr>rs_index = 1, relevance_score = F32 4, rs_document = Some ''bcd''\<rparr>,
                    \<lparr>rs_index = 2, relevance_score = F32 3, rs_document = Some ''ef''\<rparr>]\<rparr>, None,
    [RerankInputDocsSize 3, TokenCacheHit ''r'' 0, TokenCacheMiss ''r'' 3, RerankTokenizer ''r'',
     RerankRequestDone ''r'' ''success'' 3])"
  by (simp add: rerank_def wit_rk_request_def wit_rk_state_def Let_def query_blank_def resolve_reranker_name_def
      rerank_in_process_def tokenize_with_cache_def token_cache_get_def token_cache_insert_def wit_rk_session_def upt_rec
      dispatch_inference_def rerank_respond_def normalize_or_default_def apply_normalize_def build_sorted_results_def
      scored_results_def scored_result_def finish_rerank_def http_simps f32_key_def f32_u_def)

theorem build_sorted_results_spec_witness:
  "build_sorted_results [F32 1, F32 4, F32 3] (Some 2) None =
      Some [\<lparr>rs_index = 1, relevance_score = F32 4, rs_document = None\<rparr>, \<lparr>rs_index = 2, relevance_score = F32 3, rs_document = None\<rparr>] \<and>
   (\<exists>full. mset full = mset (map (\<lambda>i. \<lparr>rs_index = i, relevance_score = [F32 1, F32 4, F32 3] ! i, rs_document = None\<rparr>) [0..<3]) \<and>
      take 2 full = [\<lparr>rs_index = 1, relevance_score = F32 4, rs_document = None\<rparr>, \<lparr>rs_index = 2, relevance_score = F32 3, rs_document = None\<rparr>])"
proof -
  have res: "build_sorted_results [F32 1, F32 4, F32 3] (Some 2) None =
      Some [\<lparr>rs_index = 1, relevance_score = F32 4, rs_document = None\<rparr>, \<lparr>rs_index = 2, relevance_score = F32 3, rs_document = None\<rparr>]"
    by (simp add: build_sorted_results_def scored_results_def scored_result_def upt_rec f32_key_def f32_u_def)
  from build_sorted_results_spec [THEN conjunct2, rule_format, OF res, THEN ex1_implies_ex]
  obtain full where "mset full = mset (map (\<lambda>i. \<lparr>rs_index = i, relevance_score = [F32 1, F32 4, F32 3] ! i,
        rs_document = map_option (\<lambda>d. d ! i) None\<rparr>) [0..<length [F32 1, F32 4, F32 3]])"
    "[\<lparr>rs_index = 1, relevance_score = F32 4, rs_document = None\<rparr>, \<lparr>rs_index = 2, relevance_score = F32 3, rs_document = None\<rparr>] =
      take (case Some 2 of None \<Rightarrow> length [F32 1, F32 4, F32 3] | Some n \<Rightarrow> n) full" by (elim exE conjE)
  then have "mset full = mset (map (\<lambda>i. \<lparr>rs_index = i, relevance_score = [F32 1, F32 4, F32 3] ! i, rs_document = None\<rparr>) [0..<3])"
    "take 2 full = [\<lparr>rs_index = 1, relevance_score = F32 4, rs_document = None\<rparr>, \<lparr>rs_index = 2, relevance_score = F32 3, rs_document = None\<rparr>]"
    by (simp_all only: option.map option.case list.size numeral_3_eq_3 One_nat_def add_Suc_right add_0_right)
  then show ?thesis using res by (intro conjI exI [of _ full])
qed

theorem rerank_ranking_witness:
  "sorted_wrt ranks_before [\<lparr>rs_index = 1, relevance_score = F32 4, rs_document = Some ''bcd''\<rparr>,
                    \<lparr>rs_index = 2, relevance_score = F32 3, rs_document = Some ''ef''\<rparr>]"
  using rerank_ranking [OF _ wit_rerank] by (auto simp: wit_rk_state_def)

theorem tokenize_with_cache_correct_witness:
  "\<exists>ids c' ml. tokenize_with_cache (lru_moka :: ((string \<times> string, token_seq) lru, string \<times> string, token_seq) moka) id
      ''r'' wit_rk_session ''q'' [''a'', ''b'', ''a''] (cache_new lru_moka 2) = (Some (Inr ids), c', ml) \<and> length ids = 3"
proof -
  have "cache_sound lru_view (pair_entry id (\<lambda>model q d. map of_char (q @ d))) (cache_new lru_moka 2 :: (string \<times> string, token_seq) lru option)"
    by (simp add: cache_sound_def cache_new_def lru_moka_def opt_view_def lru_view_def)
  from tokenize_with_cache_correct [OF lru.store.lossy_store_axioms this, of wit_rk_session "''q''" "''r''" "[''a'', ''b'', ''a'']"]
  show ?thesis by (auto simp: wit_rk_session_def)
qed

end
