(* ===== verification/Api_Splade.thy ===== *)
theory Api_Splade
  imports Embed_Model Api_Rerank
begin

text \<open>
  Sparse embeddings: the SPLADE model of \<open>src/src/model_splade.rs\<close> (tokenisation, round-robin
  choice of a session, max-pooled log weights, selection of the heaviest terms), the worker's
  \<open>StandaloneSplade\<close> of \<open>src/src/model.rs\<close> and the endpoint \<open>/embed_sparse\<close> of
  \<open>src/src/api_splade.rs\<close>. The tokenizer, the ONNX sessions, the natural logarithm and the
  unstable selection of the standard library are parameters.
\<close>

section \<open>The model\<close>

type_synonym sparse_vec = "(32 word \<times> f32) list"

text \<open>A session of the pool: the error of locking a poisoned mutex, or the run function.\<close>

type_synonym splade_session = "int list \<Rightarrow> int list \<Rightarrow> run_outcome"

record SpladeModel =
  sm_name :: string
  sm_sessions :: "(string + splade_session) list"
  sm_next :: nat
  sm_max_len :: nat
  sm_vocab_size :: nat

definition splade_tokenize :: "(string \<Rightarrow> string + token_seq) \<Rightarrow> SpladeModel \<Rightarrow> string \<Rightarrow> string + token_seq" where
  "splade_tokenize encode m text =
     (case encode text of Inl e \<Rightarrow> Inl (''tokenize: '' @ e)
      | Inr ids \<Rightarrow> Inr (take (min (length ids) (sm_max_len m)) ids))"

text \<open>One step of the sweep: the vocabulary weights after one sequence position.\<close>

definition sweep_position :: "(f32 \<Rightarrow> f32) \<Rightarrow> nat \<Rightarrow> f32 \<Rightarrow> f32 list \<Rightarrow> f32 list \<Rightarrow> f32 list" where
  "sweep_position lnf vocab mj row sparse =
     (if f32_sm mj = 0 then sparse
      else map (\<lambda>k. let lo = row ! k in
             if f32_lt f32_zero lo
             then let w = f32_mul (lnf (f32_add f32_one lo)) mj in if f32_lt (sparse ! k) w then w else sparse ! k
             else sparse ! k) [0..<vocab])"

definition sparse_weights :: "(f32 \<Rightarrow> f32) \<Rightarrow> nat \<Rightarrow> int list \<Rightarrow> f32 list list \<Rightarrow> f32 list" where
  "sparse_weights lnf vocab msk rows =
     fold (\<lambda>j. sweep_position lnf vocab (f32_of_int (msk ! j)) (rows ! j)) [0..<length msk] (replicate vocab f32_zero)"

text \<open>
  The same sweep as the code does it: in the accumulator that the thread keeps from request
  to request, cleared and resized first, then updated in place.
\<close>

definition sweep_cell :: "(f32 \<Rightarrow> f32) \<Rightarrow> f32 \<Rightarrow> f32 list \<Rightarrow> nat \<Rightarrow> f32 list \<Rightarrow> f32 list" where
  "sweep_cell lnf mj row k buf =
     (let lo = row ! k in
      if f32_lt f32_zero lo
      then let w = f32_mul (lnf (f32_add f32_one lo)) mj in if f32_lt (buf ! k) w then buf[k := w] else buf
      else buf)"

definition vec_resize :: "nat \<Rightarrow> 'a \<Rightarrow> 'a list \<Rightarrow> 'a list" where
  "vec_resize n x xs = take n xs @ replicate (n - length xs) x"

definition sweep_in_place :: "(f32 \<Rightarrow> f32) \<Rightarrow> nat \<Rightarrow> int list \<Rightarrow> f32 list list \<Rightarrow> f32 list \<Rightarrow> f32 list" where
  "sweep_in_place lnf vocab msk rows buf =
     (let cleared = take 0 buf;
          start = vec_resize vocab f32_zero cleared
      in fold (\<lambda>j buf. let mj = f32_of_int (msk ! j) in
                 if f32_sm mj = 0 then buf else fold (sweep_cell lnf mj (rows ! j)) [0..<vocab] buf) [0..<length msk] start)"

text \<open>
  The heaviest terms: \<open>sel n xs\<close> is \<open>select_nth_unstable_by\<close> at index \<open>n\<close> with the descending
  order of the weights.
\<close>

definition weight_key :: "32 word \<times> f32 \<Rightarrow> int" where
  "weight_key t = - f32_key (snd t)"

definition above_threshold :: "f32 list \<Rightarrow> f32 \<Rightarrow> sparse_vec" where
  "above_threshold ws min_weight = map (\<lambda>(i, w). (of_nat i, w)) (filter (\<lambda>(i, w). f32_lt min_weight w) (enumerate 0 ws))"

definition top_entries :: "(nat \<Rightarrow> sparse_vec \<Rightarrow> sparse_vec) \<Rightarrow> f32 list \<Rightarrow> nat \<Rightarrow> f32 \<Rightarrow> sparse_vec" where
  "top_entries sel ws top_k min_weight =
     (let entries = above_threshold ws min_weight;
          kept = (if top_k < length entries then take top_k (sel (top_k - 1) entries) else entries)
      in sort_key weight_key kept)"

definition encode_sparse ::
  "(f32 \<Rightarrow> f32) \<Rightarrow> (nat \<Rightarrow> sparse_vec \<Rightarrow> sparse_vec) \<Rightarrow> SpladeModel \<Rightarrow> token_seq \<Rightarrow> nat \<Rightarrow> f32 \<Rightarrow>
   (string + sparse_vec) option \<times> SpladeModel" where
  "encode_sparse lnf sel m ids top_k min_weight =
     (if ids = [] then (Some (Inr []), m)
      else if top_k = 0 then (Some (Inr []), m)
      else
        let seq_len = min (length ids) (sm_max_len m);
            ids_i64 = map uint (take seq_len ids);
            mask_i64 = replicate seq_len 1;
            m' = m\<lparr>sm_next := (sm_next m + 1) mod 2 ^ 64\<rparr>
        in if sm_sessions m = [] then (None, m')
           else
             let idx = sm_next m mod length (sm_sessions m) in
             (case sm_sessions m ! idx of
                Inl e \<Rightarrow> (Some (Inl (''lock session #'' @ show_nat idx @ '': '' @ e)), m')
              | Inr run \<Rightarrow>
                  (case run ids_i64 mask_i64 of
                     RunErr e \<Rightarrow> (Some (Inl (''splade inference: '' @ e)), m')
                   | ExtractErr e \<Rightarrow> (Some (Inl (''extract logits: '' @ e)), m')
                   | RunOk raw \<Rightarrow>
                       if ro_shape raw \<noteq> [1, seq_len, sm_vocab_size m]
                       then (Some (Inl (''unexpected splade output shape: '' @ show_shape (ro_shape raw) @ '', expected '' @
                                        show_shape [1, seq_len, sm_vocab_size m])), m')
                       else (Some (Inr (top_entries sel (sparse_weights lnf (sm_vocab_size m) mask_i64 (ro_rows raw ! 0))
                                          top_k min_weight)), m'))))"

text \<open>\<open>StandaloneSplade::encode\<close>: a \<open>top_k\<close> of 0 is unlimited; the first error ends the batch.\<close>

definition effective_top_k :: "32 word \<Rightarrow> nat" where
  "effective_top_k top_k = (if top_k = 0 then usize_max else unat top_k)"

fun standalone_encode ::
  "(f32 \<Rightarrow> f32) \<Rightarrow> (nat \<Rightarrow> sparse_vec \<Rightarrow> sparse_vec) \<Rightarrow> (string \<Rightarrow> string + token_seq) \<Rightarrow> SpladeModel \<Rightarrow> string list \<Rightarrow>
   32 word \<Rightarrow> f32 \<Rightarrow> (string + sparse_vec list) option \<times> SpladeModel" where
  "standalone_encode lnf sel encode m [] top_k min_weight = (Some (Inr []), m)"
| "standalone_encode lnf sel encode m (t # ts) top_k min_weight =
     (case splade_tokenize encode m t of
        Inl e \<Rightarrow> (Some (Inl e), m)
      | Inr ids \<Rightarrow>
          (case encode_sparse lnf sel m ids (effective_top_k top_k) min_weight of
             (None, m1) \<Rightarrow> (None, m1)
           | (Some (Inl e), m1) \<Rightarrow> (Some (Inl e), m1)
           | (Some (Inr v), m1) \<Rightarrow>
               (case standalone_encode lnf sel encode m1 ts top_k min_weight of
                  (Some (Inr vs), m2) \<Rightarrow> (Some (Inr (v # vs)), m2)
                | (r, m2) \<Rightarrow> (r, m2))))"

section \<open>The endpoint\<close>

record SparseEmbeddingsRequest =
  sq_model :: "string option"
  sq_input :: "string list"
  sq_top_k :: "nat option"
  sq_min_weight :: "f32 option"

record SparseEmbeddingItem =
  se_index :: nat
  se_indices :: "32 word list"
  se_values :: "f32 list"

record SparseEmbeddingsResponse =
  sr_model :: string
  sr_data :: "SparseEmbeddingItem list"

definition DEFAULT_TOP_K :: nat where "DEFAULT_TOP_K = 256"
definition DEFAULT_MIN_WEIGHT :: f32 where "DEFAULT_MIN_WEIGHT = f32_zero"

type_synonym splade_dispatch =
  "string \<Rightarrow> string list \<Rightarrow> 32 word \<Rightarrow> 32 word \<Rightarrow> f32 \<Rightarrow> DispatchError + WorkerResponse"

text \<open>The models in the iteration order of their map; an entry's model is absent in worker mode.\<close>

record SpladeState =
  splades :: "(string \<times> SpladeModel option) list"
  sp_shutdown_cancelled :: bool
  sp_worker_pool :: "splade_dispatch option"

definition resolve_splade_name :: "SpladeState \<Rightarrow> string option \<Rightarrow> string + string" where
  "resolve_splade_name st rqm =
     (case rqm of
        Some nm \<Rightarrow> if map_of (splades st) nm \<noteq> None then Inr nm
                   else Inl (''splade model '' @ quoted nm @ '' not found'')
      | None \<Rightarrow> (case splades st of
            [] \<Rightarrow> Inl ''no splade models configured''
          | [(nm, _)] \<Rightarrow> Inr nm
          | _ \<Rightarrow> Inl (CHR 0x60 # ''model'' @ CHR 0x60 # '' is required when multiple splade models are configured'')))"

definition splade_server_error :: "string \<Rightarrow> 'b handled" where
  "splade_server_error msg = respond_err 500 None msg ''server_error''"

text \<open>A worker's vector as a response item: filtered by the threshold, then cut.\<close>

definition pool_item :: "nat \<Rightarrow> f32 \<Rightarrow> nat \<Rightarrow> sparse_vec \<Rightarrow> SparseEmbeddingItem" where
  "pool_item top_k min_weight index pairs =
     (let kept = filter (\<lambda>(i, w). f32_lt min_weight w) pairs
      in \<lparr>se_index = index, se_indices = take top_k (map fst kept), se_values = take top_k (map snd kept)\<rparr>)"

definition local_item :: "nat \<Rightarrow> sparse_vec \<Rightarrow> SparseEmbeddingItem" where
  "local_item index entries = \<lparr>se_index = index, se_indices = map fst entries, se_values = map snd entries\<rparr>"

text \<open>The dispatch to a worker, with the reason of a recorded inference failure.\<close>

definition sparse_via_pool ::
  "splade_dispatch \<Rightarrow> string \<Rightarrow> string list \<Rightarrow> nat \<Rightarrow> f32 \<Rightarrow> SparseEmbeddingsResponse handled \<times> string option" where
  "sparse_via_pool dispatch model texts top_k min_weight =
     (case dispatch model texts 0 (of_nat top_k) min_weight of
        Inr (RespSplade s) \<Rightarrow>
          (respond_ok \<lparr>sr_model = model,
             sr_data = map (\<lambda>(i, pairs). pool_item top_k min_weight i pairs) (enumerate 0 (so_sparse s))\<rparr>, None)
      | Inr (RespErr i msg) \<Rightarrow> (splade_server_error ''splade failed'', Some (classify_worker_error msg))
      | Inr _ \<Rightarrow> (splade_server_error ''splade failed: unexpected response kind'', None)
      | Inl (Timeout _ _) \<Rightarrow>
          (respond_err 503 (Some ''5'') ''splade failed: worker respawning'' ''worker_unavailable'', None)
      | Inl _ \<Rightarrow> (splade_server_error ''splade failed'', None))"

text \<open>
  The sequential in-process path; \<open>panic_text\<close> is the text of a join error. \<open>Inl\<close> is the error
  response that ends the request.
\<close>

fun sparse_in_process ::
  "(f32 \<Rightarrow> f32) \<Rightarrow> (nat \<Rightarrow> sparse_vec \<Rightarrow> sparse_vec) \<Rightarrow> (string \<Rightarrow> string + token_seq) \<Rightarrow> string \<Rightarrow> SpladeModel \<Rightarrow> nat \<Rightarrow>
   string list \<Rightarrow> nat \<Rightarrow> f32 \<Rightarrow> (SparseEmbeddingsResponse handled + SparseEmbeddingItem list) \<times> SpladeModel" where
  "sparse_in_process lnf sel encode panic_text m index [] top_k min_weight = (Inr [], m)"
| "sparse_in_process lnf sel encode panic_text m index (t # ts) top_k min_weight =
     (case (case splade_tokenize encode m t of
              Inl e \<Rightarrow> (Some (Inl e), m)
            | Inr ids \<Rightarrow> encode_sparse lnf sel m ids top_k min_weight) of
        (None, m1) \<Rightarrow> (Inl (splade_server_error (''splade task panicked: '' @ panic_text)), m1)
      | (Some (Inl e), m1) \<Rightarrow> (Inl (splade_server_error e), m1)
      | (Some (Inr entries), m1) \<Rightarrow>
          (case sparse_in_process lnf sel encode panic_text m1 (Suc index) ts top_k min_weight of
             (Inl r, m2) \<Rightarrow> (Inl r, m2)
           | (Inr its, m2) \<Rightarrow> (Inr (local_item index entries # its), m2)))"

definition sparse_embeddings ::
  "(f32 \<Rightarrow> f32) \<Rightarrow> (nat \<Rightarrow> sparse_vec \<Rightarrow> sparse_vec) \<Rightarrow> (string \<Rightarrow> string + token_seq) \<Rightarrow> string \<Rightarrow> SpladeState \<Rightarrow>
   SparseEmbeddingsRequest \<Rightarrow> SparseEmbeddingsResponse handled \<times> SpladeModel option" where
  "sparse_embeddings lnf sel encode panic_text st req =
     (if sp_shutdown_cancelled st then (respond_err 503 (Some ''5'') ''server shutting down'' ''rate_limited'', None)
      else if sq_input req = [] then (error_json ''input must not be empty'', None)
      else if list_ex query_blank (sq_input req) then (error_json ''input texts must not be empty or whitespace-only'', None)
      else case resolve_splade_name st (sq_model req) of
        Inl msg \<Rightarrow> (error_json msg, None)
      | Inr model \<Rightarrow>
          (case map_of (splades st) model of
             None \<Rightarrow> (Panic ''resolve_splade_name validated key presence'', None)
           | Some entry \<Rightarrow>
               let top_k = (case sq_top_k req of None \<Rightarrow> DEFAULT_TOP_K | Some k \<Rightarrow> k);
                   min_weight = (case sq_min_weight req of None \<Rightarrow> DEFAULT_MIN_WEIGHT | Some w \<Rightarrow> w)
               in case sp_worker_pool st of
                    Some dispatch \<Rightarrow> (fst (sparse_via_pool dispatch model (sq_input req) top_k min_weight), None)
                  | None \<Rightarrow>
                      (case entry of
                         None \<Rightarrow> (Panic ''in-process SpladeModel session required but not loaded (EMBED_MULTI_PROCESS=1?)'', None)
                       | Some m \<Rightarrow>
                           (case sparse_in_process lnf sel encode panic_text m 0 (sq_input req) top_k min_weight of
                              (Inl r, m') \<Rightarrow> (r, Some m')
                            | (Inr its, m') \<Rightarrow> (respond_ok \<lparr>sr_model = model, sr_data = its\<rparr>, Some m')))))"

section \<open>Lemmas: the heaviest terms\<close>

text \<open>The contract of \<open>select_nth_unstable_by\<close>: a permutation split at the index.\<close>

definition select_ok :: "(nat \<Rightarrow> sparse_vec \<Rightarrow> sparse_vec) \<Rightarrow> bool" where
  "select_ok sel \<longleftrightarrow>
     (\<forall>n xs. n < length xs \<longrightarrow> mset (sel n xs) = mset xs \<and>
        (\<forall>i j. i \<le> n \<longrightarrow> n \<le> j \<longrightarrow> j < length xs \<longrightarrow> weight_key (sel n xs ! i) \<le> weight_key (sel n xs ! j)))"

lemma select_ok_sort: "select_ok (\<lambda>n. sort_key weight_key)"
proof -
  have "weight_key (sort_key weight_key xs ! i) \<le> weight_key (sort_key weight_key xs ! j)" if "i \<le> j" "j < length xs" for i j xs
    using sorted_nth_mono [OF sorted_sort_key that(1), of weight_key xs] that by simp
  then show ?thesis by (auto simp: select_ok_def)
qed

lemma set_above_threshold: "set (above_threshold ws mw) = {(of_nat k, ws ! k) | k. k < length ws \<and> f32_lt mw (ws ! k)}"
  by (auto simp: above_threshold_def in_set_enumerate_eq image_iff)

lemma length_filter_enumerate: "length (filter (\<lambda>(i, w). P w) (enumerate n ws)) = length (filter P ws)"
  by (induction ws arbitrary: n) auto

lemma distinct_above_threshold: "length ws \<le> 2 ^ 32 \<Longrightarrow> distinct (map fst (above_threshold ws mw))"
proof -
  assume len: "length ws \<le> 2 ^ 32"
  have "distinct (map fst (filter (\<lambda>(i, w). f32_lt mw w) (enumerate 0 ws)))"
    by (rule distinct_map_filter) simp
  moreover have "inj_on (of_nat :: nat \<Rightarrow> 32 word) {0..<length ws}"
    using len by (auto intro!: inj_onI simp: word_of_nat_eq_iff take_bit_nat_eq_self)
  moreover have "set (map fst (filter (\<lambda>(i, w). f32_lt mw w) (enumerate 0 ws))) \<subseteq> {0..<length ws}"
    by (auto simp: in_set_enumerate_eq)
  ultimately have "distinct (map of_nat (map fst (filter (\<lambda>(i, w). f32_lt mw w) (enumerate 0 ws))) :: 32 word list)"
    by (metis distinct_map inj_on_subset)
  then show ?thesis by (simp add: above_threshold_def comp_def case_prod_unfold)
qed

text \<open>What the selection keeps: a part of the candidates of the right size that nothing left out outweighs.\<close>

definition kept_of :: "sparse_vec \<Rightarrow> nat \<Rightarrow> sparse_vec \<Rightarrow> bool" where
  "kept_of es k kept \<longleftrightarrow>
     mset kept \<subseteq># mset es \<and> length kept = min k (length es) \<and>
     (\<forall>x \<in> set es. x \<in> set kept \<or> (\<forall>y \<in> set kept. weight_key y \<le> weight_key x))"

lemma select_kept:
  assumes "select_ok sel" "0 < k"
  shows "kept_of es k (if k < length es then take k (sel (k - 1) es) else es)"
proof (cases "k < length es")
  case True
  let ?s = "sel (k - 1) es"
  from assms True have m: "mset ?s = mset es"
    and le: "\<And>i j. i \<le> k - 1 \<Longrightarrow> k - 1 \<le> j \<Longrightarrow> j < length es \<Longrightarrow> weight_key (?s ! i) \<le> weight_key (?s ! j)"
    by (auto simp: select_ok_def)
  have len: "length ?s = length es" using m by (metis size_mset)
  have "mset es = mset (take k ?s) + mset (drop k ?s)"
    using m by (metis append_take_drop_id mset_append)
  moreover have "weight_key y \<le> weight_key x" if "y \<in> set (take k ?s)" "x \<in> set (drop k ?s)" for x y
    using that True len le assms(2) by (auto simp: in_set_conv_nth)
  moreover have "set es = set (take k ?s) \<union> set (drop k ?s)"
    using m by (metis append_take_drop_id set_append set_mset_mset)
  ultimately show ?thesis
    using True len by (auto simp: kept_of_def)
qed (auto simp: kept_of_def)

lemma top_entries_kept: "select_ok sel \<Longrightarrow> 0 < k \<Longrightarrow> kept_of (above_threshold ws mw) k (top_entries sel ws k mw)"
  using select_kept [of sel k "above_threshold ws mw"] by (simp add: top_entries_def Let_def kept_of_def)

lemma top_entries_sorted: "sorted (map weight_key (top_entries sel ws k mw))"
  by (simp add: top_entries_def Let_def)

lemma length_sparse_weights: "length (sparse_weights lnf vocab msk rows) = vocab"
proof -
  have "length s = vocab \<Longrightarrow> length (fold (\<lambda>j. sweep_position lnf vocab (f32_of_int (msk ! j)) (rows ! j)) js s) = vocab" for js s
    by (induction js arbitrary: s) (auto simp: sweep_position_def)
  then show ?thesis by (simp add: sparse_weights_def)
qed

text \<open>Whatever an earlier request left in the buffer, the sweep in place computes the weights.\<close>

lemma fold_update_cells:
  assumes "n \<le> length buf"
  shows "fold (\<lambda>k b. b[k := f k (b ! k)]) [0..<n] buf = map (\<lambda>k. f k (buf ! k)) [0..<n] @ drop n buf"
  using assms
proof (induction n)
  case (Suc n)
  then have "drop n buf = buf ! n # drop (Suc n) buf" by (simp add: Cons_nth_drop_Suc)
  with Suc show ?case by (simp add: nth_append list_update_append)
qed simp

lemma sweep_cells:
  assumes "length buf = vocab" and "f32_sm mj \<noteq> 0"
  shows "fold (sweep_cell lnf mj row) [0..<vocab] buf = sweep_position lnf vocab mj row buf"
proof -
  let ?f = "\<lambda>k x. let lo = row ! k in
             if f32_lt f32_zero lo then let w = f32_mul (lnf (f32_add f32_one lo)) mj in if f32_lt x w then w else x else x"
  have "sweep_cell lnf mj row = (\<lambda>k b. b[k := ?f k (b ! k)])"
    by (auto simp: fun_eq_iff sweep_cell_def Let_def)
  then have "fold (sweep_cell lnf mj row) [0..<vocab] buf = map (\<lambda>k. ?f k (buf ! k)) [0..<vocab]"
    using fold_update_cells [of vocab buf ?f] assms(1) by simp
  with assms(2) show ?thesis by (simp add: sweep_position_def)
qed

lemma length_sweep_position: "length s = vocab \<Longrightarrow> length (sweep_position lnf vocab mj row s) = vocab"
  "f32_sm mj = 0 \<Longrightarrow> sweep_position lnf vocab mj row s = s"
  by (simp_all add: sweep_position_def)

lemma sweep_in_place_eq: "sweep_in_place lnf vocab msk rows stale = sparse_weights lnf vocab msk rows"
proof -
  have "fold (\<lambda>j buf. let mj = f32_of_int (msk ! j) in
               if f32_sm mj = 0 then buf else fold (sweep_cell lnf mj (rows ! j)) [0..<vocab] buf) js buf =
        fold (\<lambda>j. sweep_position lnf vocab (f32_of_int (msk ! j)) (rows ! j)) js buf" if "length buf = vocab" for js buf
    using that
  proof (induction js arbitrary: buf)
    case (Cons j js)
    then show ?case
      by (cases "f32_sm (f32_of_int (msk ! j)) = 0")
        (simp_all add: sweep_cells length_sweep_position)
  qed simp
  then show ?thesis by (simp add: sweep_in_place_def sparse_weights_def vec_resize_def)
qed

text \<open>A successful encoding of a non-empty sequence: a session answered and its weights were selected from.\<close>

lemma encode_sparse_Inr:
  assumes "encode_sparse lnf sel m ids k mw = (Some (Inr es), m')" "ids \<noteq> []" "0 < k"
  shows "\<exists>run raw. Inr run \<in> set (sm_sessions m) \<and>
    run (map uint (take (sm_max_len m) ids)) (replicate (min (length ids) (sm_max_len m)) 1) = RunOk raw \<and>
    es = top_entries sel (sparse_weights lnf (sm_vocab_size m) (replicate (min (length ids) (sm_max_len m)) 1)
           (ro_rows raw ! 0)) k mw"
proof -
  let ?idx = "sm_next m mod length (sm_sessions m)"
  have ne: "sm_sessions m \<noteq> []" using assms by (auto simp: encode_sparse_def Let_def)
  then have mem: "sm_sessions m ! ?idx \<in> set (sm_sessions m)" by simp
  have take: "take (min (length ids) (sm_max_len m)) ids = take (sm_max_len m) ids" by (simp add: min_def)
  obtain run where run: "sm_sessions m ! ?idx = Inr run"
    using assms ne by (auto simp: encode_sparse_def Let_def split: sum.splits)
  with mem have "Inr run \<in> set (sm_sessions m)" by simp
  with assms ne run show ?thesis
    unfolding encode_sparse_def Let_def take by (auto split: run_outcome.splits if_splits intro!: exI [of _ run])
qed

lemma top_entries_bounds:
  assumes "select_ok sel" "0 < k"
  shows "length (top_entries sel ws k mw) \<le> k \<and> (\<forall>(i, w) \<in> set (top_entries sel ws k mw). f32_lt mw w)"
proof -
  have "set (top_entries sel ws k mw) \<subseteq> set (above_threshold ws mw)" and "length (top_entries sel ws k mw) \<le> k"
    using top_entries_kept [OF assms, of ws mw] by (auto simp: kept_of_def dest: mset_subset_eqD)
  then show ?thesis by (auto simp: set_above_threshold)
qed

lemma encode_sparse_trivial: "ids = [] \<or> k = 0 \<Longrightarrow> encode_sparse lnf sel m ids k mw = (Some (Inr []), m)"
  unfolding encode_sparse_def by (cases "ids = []") simp_all

lemma encode_sparse_bounds:
  assumes "select_ok sel" "encode_sparse lnf sel m ids k mw = (Some (Inr es), m')"
  shows "length es \<le> k \<and> (\<forall>(i, w) \<in> set es. f32_lt mw w)"
proof (cases "ids = [] \<or> k = 0")
  case True
  then show ?thesis using assms(2) by (simp add: encode_sparse_trivial)
next
  case False
  then obtain ws where "es = top_entries sel ws k mw"
    using encode_sparse_Inr [OF assms(2)] by blast
  with False show ?thesis using top_entries_bounds [OF assms(1), of k ws mw] by simp
qed

section \<open>Lemmas: what a batch encodes to\<close>

text \<open>
  Sessions that all compute the logits of a sequence from its tokens, and the terms of a
  sequence under such sessions. Which session the round-robin counter picks does not matter.
\<close>

definition splade_ok :: "SpladeModel \<Rightarrow> (int list \<Rightarrow> f32 list list) \<Rightarrow> bool" where
  "splade_ok m logits \<longleftrightarrow> sm_sessions m \<noteq> [] \<and>
     (\<forall>s \<in> set (sm_sessions m). \<exists>run. s = Inr run \<and> (\<forall>ids. ids \<noteq> [] \<longrightarrow>
        (\<exists>raw. run ids (replicate (length ids) 1) = RunOk raw \<and>
           ro_shape raw = [1, length ids, sm_vocab_size m] \<and> ro_rows raw ! 0 = logits ids)))"

definition sparse_terms ::
  "(f32 \<Rightarrow> f32) \<Rightarrow> (nat \<Rightarrow> sparse_vec \<Rightarrow> sparse_vec) \<Rightarrow> SpladeModel \<Rightarrow> (int list \<Rightarrow> f32 list list) \<Rightarrow> nat \<Rightarrow> f32 \<Rightarrow>
   token_seq \<Rightarrow> sparse_vec" where
  "sparse_terms lnf sel m logits k mw ids =
     (let xs = map uint (take (sm_max_len m) ids)
      in if xs = [] \<or> k = 0 then []
         else top_entries sel (sparse_weights lnf (sm_vocab_size m) (replicate (length xs) 1) (logits xs)) k mw)"

lemma splade_ok_next [simp]: "splade_ok (m\<lparr>sm_next := n\<rparr>) logits = splade_ok m logits"
  "sparse_terms lnf sel (m\<lparr>sm_next := n\<rparr>) logits = sparse_terms lnf sel m logits"
  by (simp_all add: splade_ok_def fun_eq_iff sparse_terms_def Let_def)

lemma encode_sparse_ok:
  assumes "splade_ok m logits"
  shows "\<exists>n. encode_sparse lnf sel m (take (sm_max_len m) ids) k mw =
    (Some (Inr (sparse_terms lnf sel m logits k mw ids)), m\<lparr>sm_next := n\<rparr>)"
proof (cases "take (sm_max_len m) ids = [] \<or> k = 0")
  case True
  then have "sparse_terms lnf sel m logits k mw ids = []" by (auto simp: sparse_terms_def Let_def)
  with True show ?thesis
    by (intro exI [of _ "sm_next m"]) (simp add: encode_sparse_trivial)
next
  case False
  let ?xs = "map uint (take (sm_max_len m) ids)" and ?idx = "sm_next m mod length (sm_sessions m)"
  have xs: "?xs \<noteq> []" "length ?xs = min (length ids) (sm_max_len m)" using False by auto
  have ne: "sm_sessions m \<noteq> []" using assms by (simp add: splade_ok_def)
  then have "sm_sessions m ! ?idx \<in> set (sm_sessions m)" by simp
  with assms xs(1) obtain run raw where run: "sm_sessions m ! ?idx = Inr run" "run ?xs (replicate (length ?xs) 1) = RunOk raw"
    "ro_shape raw = [1, length ?xs, sm_vocab_size m]" "ro_rows raw ! 0 = logits ?xs"
    unfolding splade_ok_def by metis
  have len: "min (length (take (sm_max_len m) ids)) (sm_max_len m) = length ?xs" by simp
  have ids: "take (length ?xs) (take (sm_max_len m) ids) = take (sm_max_len m) ids" by (simp add: min_def)
  have "sparse_terms lnf sel m logits k mw ids =
      top_entries sel (sparse_weights lnf (sm_vocab_size m) (replicate (length ?xs) 1) (ro_rows raw ! 0)) k mw"
    using False run(4) by (auto simp: sparse_terms_def Let_def)
  then show ?thesis
    using False run(1-3) ne unfolding encode_sparse_def Let_def len ids
    by (intro exI [of _ "(sm_next m + 1) mod 2 ^ 64"]) (simp del: length_map length_take)
qed

lemma sparse_terms_bounds:
  "select_ok sel \<Longrightarrow> length (sparse_terms lnf sel m logits k mw ids) \<le> k \<and>
    (\<forall>(i, w) \<in> set (sparse_terms lnf sel m logits k mw ids). f32_lt mw w)"
  by (auto simp: sparse_terms_def Let_def dest: top_entries_bounds)

lemma standalone_encode_map:
  assumes "splade_ok m logits" and tok: "\<And>t. encode t = Inr (tk t)"
  shows "\<exists>n. standalone_encode lnf sel encode m ts k mw =
    (Some (Inr (map (\<lambda>t. sparse_terms lnf sel m logits (effective_top_k k) mw (tk t)) ts)), m\<lparr>sm_next := n\<rparr>)"
  using assms(1)
proof (induction ts arbitrary: m)
  case (Cons t ts)
  have tk: "splade_tokenize encode m t = Inr (take (sm_max_len m) (tk t))"
    by (simp add: splade_tokenize_def tok min_def)
  obtain n where e: "encode_sparse lnf sel m (take (sm_max_len m) (tk t)) (effective_top_k k) mw =
      (Some (Inr (sparse_terms lnf sel m logits (effective_top_k k) mw (tk t))), m\<lparr>sm_next := n\<rparr>)"
    using encode_sparse_ok [OF Cons.prems] by blast
  obtain n' where "standalone_encode lnf sel encode (m\<lparr>sm_next := n\<rparr>) ts k mw =
      (Some (Inr (map (\<lambda>t. sparse_terms lnf sel m logits (effective_top_k k) mw (tk t)) ts)), m\<lparr>sm_next := n'\<rparr>)"
    using Cons.IH [of "m\<lparr>sm_next := n\<rparr>"] Cons.prems by auto
  with tk e show ?case by auto
next
  case Nil
  show ?case by (intro exI [of _ "sm_next m"]) simp
qed

section \<open>Lemmas: the two serving modes\<close>

lemma effective_top_k_of_nat: "k < 2 ^ 32 \<Longrightarrow> 0 < k \<Longrightarrow> effective_top_k (of_nat k) = k"
  by (auto simp: effective_top_k_def unat_of_nat word_of_nat_eq_0_iff dest: nat_dvd_not_less)

lemma pool_item_local:
  "length es \<le> k \<Longrightarrow> \<forall>(i, w) \<in> set es. f32_lt mw w \<Longrightarrow> pool_item k mw i es = local_item i es"
  by (simp add: pool_item_def local_item_def Let_def filter_id_conv [THEN iffD2] case_prod_beta)

text \<open>
  The worker's encoding of a batch against the handler's loop, with the same limit: they
  succeed together and the filtered worker vectors are the local items.
\<close>

lemma modes_agree:
  assumes "select_ok sel" "0 < k" "k < 2 ^ 32"
  shows "case standalone_encode lnf sel encode m ts (of_nat k) mw of
     (Some (Inr vs), m1) \<Rightarrow> sparse_in_process lnf sel encode pt m i ts k mw =
        (Inr (map (\<lambda>(j, v). pool_item k mw j v) (enumerate i vs)), m1)
   | (_, m1) \<Rightarrow> (\<exists>msg. sparse_in_process lnf sel encode pt m i ts k mw = (Inl (splade_server_error msg), m1))"
proof (induction ts arbitrary: m i)
  case (Cons t ts)
  note eff = effective_top_k_of_nat [OF assms(3,2)]
  show ?case
  proof (cases "splade_tokenize encode m t")
    case (Inr ids)
    note ids = Inr
    obtain r m1 where enc: "encode_sparse lnf sel m ids k mw = (r, m1)" by force
    show ?thesis
    proof (cases "\<exists>es. r = Some (Inr es)")
      case True
      then obtain es where es: "r = Some (Inr es)" by blast
      then have "pool_item k mw i es = local_item i es"
        using encode_sparse_bounds [OF assms(1)] enc by (intro pool_item_local) auto
      with es enc ids Cons.IH [of m1 "Suc i"] show ?thesis
        by (auto simp: eff split: prod.splits option.splits sum.splits)
    next
      case False
      then have "(case r of Some (Inr es) \<Rightarrow> False | _ \<Rightarrow> True)" by (auto split: option.splits sum.splits)
      with enc ids show ?thesis
        by (auto simp: eff split: option.splits sum.splits)
    qed
  qed (auto simp: splade_server_error_def)
qed simp

lemma respond_err_not_ok [simp]: "splade_server_error msg \<noteq> respond_ok b" "respond_ok b \<noteq> splade_server_error msg"
  by (simp_all add: splade_server_error_def)

text \<open>The handler panics only if a session it needs is not loaded.\<close>

lemma sparse_in_process_error: "fst (sparse_in_process lnf sel encode pt m i ts k mw) = Inl r \<Longrightarrow> status_of r \<noteq> None"
proof (induction lnf sel encode pt m i ts k mw rule: sparse_in_process.induct)
  case (2 lnf sel encode pt m i t ts k mw)
  then show ?case
    by (auto simp: splade_server_error_def split: prod.splits sum.splits option.splits)
qed simp

lemma sparse_answers:
  assumes "\<And>x entry. (x, entry) \<in> set (splades st) \<Longrightarrow> sp_worker_pool st = None \<Longrightarrow> entry \<noteq> None"
  shows "status_of (fst (sparse_embeddings lnf sel encode pt st req)) \<noteq> None"
proof -
  have via: "status_of (fst (sparse_via_pool d model texts k mw)) \<noteq> None" for d model texts k mw
    by (auto simp: sparse_via_pool_def splade_server_error_def split: sum.splits WorkerResponse.splits DispatchError.splits)
  have loaded: "\<exists>m. entry = Some m" if "map_of (splades st) model = Some entry" "sp_worker_pool st = None" for model entry
    using assms [OF map_of_SomeD [OF that(1)] that(2)] by blast
  have key: "\<exists>entry. map_of (splades st) model = Some entry" if "resolve_splade_name st (sq_model req) = Inr model" for model
    using that by (auto simp: resolve_splade_name_def split: option.splits list.splits if_splits)
  have local: "status_of r \<noteq> None" if "sparse_in_process lnf sel encode pt m i ts k mw = (Inl r, m')" for m i ts k mw r m'
    using sparse_in_process_error [of lnf sel encode pt m i ts k mw r] that by simp
  show ?thesis
  proof (cases "resolve_splade_name st (sq_model req)")
    case (Inl msg)
    then show ?thesis by (simp add: sparse_embeddings_def)
  next
    case (Inr model)
    then obtain entry where e: "map_of (splades st) model = Some entry" using key by blast
    show ?thesis
    proof (cases "sp_worker_pool st")
      case None
      then obtain m where "entry = Some m" using loaded [OF e] by blast
      with Inr e None show ?thesis
        by (auto simp: sparse_embeddings_def Let_def simp del: not_None_eq split: prod.splits sum.splits dest: local)
    next
      case (Some d)
      with Inr e via show ?thesis by (simp add: sparse_embeddings_def Let_def)
    qed
  qed
qed

lemma top_k_truncated: "0 < n \<Longrightarrow> n < 2 ^ 32 \<Longrightarrow> effective_top_k (of_nat (2 ^ 32 + n)) = n"
proof -
  assume n: "0 < n" "n < 2 ^ 32"
  have "(of_nat (2 ^ 32 + n) :: 32 word) = of_nat n"
    by (simp add: word_of_nat_eq_iff take_bit_eq_mod)
  with effective_top_k_of_nat [OF n(2,1)] show ?thesis by (simp only:)
qed

section \<open>Properties\<close>

text \<open>
  C26. The heaviest terms. A successful encoding of a non-empty sequence with a positive limit
  comes from a session of the pool; it lists, by descending weight and without repeating a
  term, terms of the vocabulary with the weights pooled from that session's logits, all above
  the threshold, as many as there are up to the limit, and no term left out outweighs one
  that is listed.
\<close>

theorem encode_sparse_spec:
  assumes "select_ok sel" and "sm_vocab_size m \<le> 2 ^ 32"
    and "encode_sparse lnf sel m ids k mw = (Some (Inr es), m')" and "ids \<noteq> []" and "0 < k"
  shows "\<exists>run raw ws. Inr run \<in> set (sm_sessions m) \<and>
     run (map uint (take (sm_max_len m) ids)) (replicate (min (length ids) (sm_max_len m)) 1) = RunOk raw \<and>
     ws = sparse_weights lnf (sm_vocab_size m) (replicate (min (length ids) (sm_max_len m)) 1) (ro_rows raw ! 0) \<and>
     sorted (map weight_key es) \<and> distinct (map fst es) \<and>
     length es = min k (length (filter (f32_lt mw) ws)) \<and>
     (\<forall>(i, w) \<in> set es. \<exists>v < sm_vocab_size m. i = of_nat v \<and> w = ws ! v \<and> f32_lt mw w) \<and>
     (\<forall>v < sm_vocab_size m. f32_lt mw (ws ! v) \<longrightarrow> (of_nat v, ws ! v) \<in> set es \<or> (\<forall>(i, w) \<in> set es. ws ! v \<le> w))"
proof -
  obtain run raw where run: "Inr run \<in> set (sm_sessions m)"
      "run (map uint (take (sm_max_len m) ids)) (replicate (min (length ids) (sm_max_len m)) 1) = RunOk raw"
    and es: "es = top_entries sel (sparse_weights lnf (sm_vocab_size m) (replicate (min (length ids) (sm_max_len m)) 1)
           (ro_rows raw ! 0)) k mw"
    using encode_sparse_Inr [OF assms(3-5)] by blast
  define ws where "ws = sparse_weights lnf (sm_vocab_size m) (replicate (min (length ids) (sm_max_len m)) 1) (ro_rows raw ! 0)"
  have lws: "length ws = sm_vocab_size m" by (simp add: ws_def length_sparse_weights)
  have kept: "kept_of (above_threshold ws mw) k es" and sorted: "sorted (map weight_key es)"
    using top_entries_kept [OF assms(1,5)] top_entries_sorted by (simp_all add: es ws_def)
  have "length (above_threshold ws mw) = length (filter (f32_lt mw) ws)"
    by (simp add: above_threshold_def length_filter_enumerate)
  moreover have "distinct (map fst es)"
    using kept distinct_above_threshold [of ws mw] assms(2) lws
    by (intro distinct_submset [of "map fst es" "map fst (above_threshold ws mw)"])
      (auto simp: kept_of_def image_mset_subseteq_mono)
  moreover have "set es \<subseteq> set (above_threshold ws mw)"
    using kept by (auto simp: kept_of_def dest: mset_subset_eqD)
  then have "\<forall>(i, w) \<in> set es. \<exists>v < sm_vocab_size m. i = of_nat v \<and> w = ws ! v \<and> f32_lt mw w"
    by (auto simp: set_above_threshold lws)
  moreover have "(of_nat v, ws ! v) \<in> set es \<or> (\<forall>(i, w) \<in> set es. ws ! v \<le> w)"
    if "v < sm_vocab_size m" "f32_lt mw (ws ! v)" for v
  proof -
    have "(of_nat v, ws ! v) \<in> set (above_threshold ws mw)"
      using that lws by (auto simp: set_above_threshold)
    then show ?thesis
      using kept by (fastforce simp: kept_of_def weight_key_def less_eq_f32_def)
  qed
  ultimately show ?thesis
    using run ws_def sorted kept
    by (intro exI [of _ run] exI [of _ raw] exI [of _ ws]) (simp add: kept_of_def)
qed


section \<open>Witnesses\<close>

definition wit_run :: splade_session where
  "wit_run ids msk = RunOk \<lparr>ro_shape = [1, length ids, 3], ro_rows = [map (\<lambda>_. [f32_one, f32_zero, f32_one]) ids]\<rparr>"

definition wit_splade :: SpladeModel where
  "wit_splade = \<lparr>sm_name = ''s'', sm_sessions = [Inr wit_run], sm_next = 0, sm_max_len = 2, sm_vocab_size = 3\<rparr>"

definition wit_splade_state :: SpladeState where
  "wit_splade_state = \<lparr>splades = [(''s'', Some wit_splade)], sp_shutdown_cancelled = False, sp_worker_pool = None\<rparr>"

definition wit_splade_request :: SparseEmbeddingsRequest where
  "wit_splade_request = \<lparr>sq_model = None, sq_input = [''a''], sq_top_k = Some 1, sq_min_weight = None\<rparr>"

definition wit_splade_dispatch :: splade_dispatch where
  "wit_splade_dispatch model texts msl k mw =
     (case fst (standalone_encode id (\<lambda>n. sort_key weight_key) (\<lambda>t. Inr [7]) wit_splade texts k mw) of
        Some (Inr vs) \<Rightarrow> Inr (RespSplade \<lparr>so_request_id = 9, so_sparse = vs\<rparr>)
      | _ \<Rightarrow> Inr (RespErr 9 ''failed''))"

definition wit_terms :: sparse_vec where
  "wit_terms = top_entries (\<lambda>n. sort_key weight_key) (sparse_weights id 3 [1] [[f32_one, f32_zero, f32_one]]) 1 f32_zero"

lemma wit_encode:
  "encode_sparse id (\<lambda>n. sort_key weight_key) wit_splade [7] 1 f32_zero = (Some (Inr wit_terms), wit_splade\<lparr>sm_next := 1\<rparr>)"
  by (simp add: encode_sparse_def wit_splade_def wit_run_def wit_terms_def Let_def)

theorem encode_sparse_spec_witness: "sorted (map weight_key wit_terms) \<and> distinct (map fst wit_terms)"
  using encode_sparse_spec [OF select_ok_sort _ wit_encode] by (auto simp: wit_splade_def)

lemma wit_local:
  "fst (sparse_embeddings id (\<lambda>n. sort_key weight_key) (\<lambda>t. Inr [7]) ''p'' wit_splade_state wit_splade_request) =
     respond_ok \<lparr>sr_model = ''s'', sr_data = [local_item 0 wit_terms]\<rparr>"
proof -
  have "splade_tokenize (\<lambda>t. Inr [7]) wit_splade ''a'' = Inr [7]"
    by (simp add: splade_tokenize_def wit_splade_def)
  then show ?thesis
    using wit_encode by (simp add: sparse_embeddings_def wit_splade_state_def wit_splade_request_def resolve_splade_name_def
        query_blank_def DEFAULT_MIN_WEIGHT_def)
qed


end
