(* ===== verification/Model_Load.thy ===== *)
theory Model_Load
  imports Onnx_Cache Reranker_Model Api_Splade
begin

text \<open>
  Loading and warming models: \<open>EmbedModel::load\<close> and \<open>SpladeModel::load\<close> over the session
  builder, and the warm-up passes of both (\<open>src/src/model.rs\<close>, \<open>src/src/model_splade.rs\<close>). The
  tokenizer library and the runtime are parameters; \<open>None\<close> is a panic.
\<close>

section \<open>The embedding model\<close>

definition build_evictable_pool ::
  "('b, 's) builder_ops \<Rightarrow> host \<Rightarrow> arena_state \<Rightarrow> string \<Rightarrow> build_cfg \<Rightarrow> path \<Rightarrow> nat \<Rightarrow> nat \<Rightarrow> fsys \<Rightarrow>
   ((string + 's MlockedSession EvictablePool) \<times> fsys) option" where
  "build_evictable_pool ops h arena nm cfg onnx_path pool_size idle fs =
     map_option (\<lambda>(r, fs'). (case r of Inl e \<Rightarrow> Inl e | Inr ss \<Rightarrow> Inr (from_items (ho_now h) ss idle), fs'))
       (fill_pool ops h arena nm cfg onnx_path [0..<pool_size] fs)"

text \<open>The tokenizer library: reading a file, and the check of truncation parameters.\<close>

record tokenizer_ops =
  to_from_file :: "path \<Rightarrow> string + tokenizer"
  to_with_truncation :: "nat option \<Rightarrow> string + unit"

text \<open>Creating run options and adding an entry to them, each with its possible error.\<close>

record run_option_ops =
  ro_new :: "string option"
  ro_add_entry :: "string \<Rightarrow> string \<Rightarrow> string option"

definition arena_run_options :: "run_option_ops \<Rightarrow> string \<Rightarrow> bool \<Rightarrow> string + bool" where
  "arena_run_options ro nm shrink =
     (if shrink
      then (case ro_new ro of
              Some e \<Rightarrow> Inl (''model '' @ nm @ '': failed to create RunOptions for arena shrinkage: '' @ e)
            | None \<Rightarrow>
                (case ro_add_entry ro ''memory.enable_memory_arena_shrinkage'' ''cpu:0'' of
                   Some e \<Rightarrow> Inl (''model '' @ nm @ '': failed to add arena shrinkage config entry: '' @ e)
                 | None \<Rightarrow> Inr True))
      else Inr False)"

text \<open>A loaded embedding model: its settings, its sessions and its tokenizer.\<close>

record 's loaded_embed =
  ld_settings :: EmbedModel
  ld_pool :: "'s MlockedSession EvictablePool"
  ld_tokenizer :: tokenizer
  ld_run_options :: bool

definition embed_cfg :: "env \<Rightarrow> ModelDef \<Rightarrow> nat \<Rightarrow> build_cfg" where
  "embed_cfg e d intra_threads =
     \<lparr>bc_opt_level = parse_opt_level e, bc_intra_threads = intra_threads,
      bc_allow_spinning = parse_intra_op_spinning e, bc_memory_pattern = md_memory_pattern d\<rparr>"

definition embed_load ::
  "('b, 's) builder_ops \<Rightarrow> tokenizer_ops \<Rightarrow> run_option_ops \<Rightarrow> (string \<Rightarrow> fl option) \<Rightarrow> host \<Rightarrow> arena_state \<Rightarrow>
   ModelDef \<Rightarrow> nat \<Rightarrow> bool \<Rightarrow> nat \<Rightarrow> nat \<Rightarrow> fsys \<Rightarrow> ((string + 's loaded_embed) \<times> fsys) option" where
  "embed_load ops tk ro parse_f32 h arena d intra_threads auto_truncate pool_size idle fs =
     (let onnx_path = path_join (md_dir d) (md_onnx_filename d);
          tok_path = path_join (md_dir d) ''tokenizer.json'';
          settings = load_settings parse_f32 (ho_env h) d pool_size idle
      in if fs onnx_path = None then Some (Inl (''ONNX file not found: '' @ onnx_path), fs)
         else if fs tok_path = None then Some (Inl (''tokenizer.json not found: '' @ tok_path), fs)
         else case build_evictable_pool ops h arena (md_name d) (embed_cfg (ho_env h) d intra_threads) onnx_path
                     (max pool_size 1) idle fs of
           None \<Rightarrow> None
         | Some (Inl e, fs') \<Rightarrow> Some (Inl e, fs')
         | Some (Inr p, fs') \<Rightarrow>
             Some (bind_res (map_err ''load tokenizer: '' (to_from_file tk tok_path)) (\<lambda>t0.
                   bind_res (configure_truncation (to_with_truncation tk) auto_truncate (md_max_len d) t0) (\<lambda>t.
                   bind_res (arena_run_options ro (md_name d) (em_arena_shrink settings)) (\<lambda>opts.
                     Inr \<lparr>ld_settings = settings, ld_pool = p, ld_tokenizer = t, ld_run_options = opts\<rparr>))), fs'))"

section \<open>The sparse model\<close>

definition show_int :: "int \<Rightarrow> string" where
  "show_int i = (if i < 0 then ''-'' @ show_nat (nat (- i)) else show_nat (nat i))"

definition show_dims :: "int list \<Rightarrow> string" where
  "show_dims ns = ''['' @ (case ns of [] \<Rightarrow> [] | n # r \<Rightarrow> show_int n @ concat (map (\<lambda>k. '', '' @ show_int k) r)) @ '']''"

text \<open>The vocabulary size from the metadata of the outputs: the shape of each, if it is a tensor.\<close>

definition discover_vocab :: "int list option list \<Rightarrow> string + nat" where
  "discover_vocab outputs =
     (case outputs of
        [] \<Rightarrow> Inl ''splade ONNX graph has no outputs''
      | None # _ \<Rightarrow> Inl ''splade output 0 is not a tensor''
      | Some dims # _ \<Rightarrow>
          let l = (if dims = [] then - 1 else last dims) in
          if l \<le> 0 then Inl (''splade output last dim must be a concrete vocab size, got shape '' @ show_dims dims)
          else Inr (nat l))"

record 's loaded_splade =
  ls_name :: string
  ls_sessions :: "'s MlockedSession list"
  ls_max_len :: nat
  ls_vocab_size :: nat
  ls_tokenizer :: tokenizer

definition splade_load ::
  "('b, 's) builder_ops \<Rightarrow> tokenizer_ops \<Rightarrow> ('s \<Rightarrow> int list option list) \<Rightarrow> host \<Rightarrow> arena_state \<Rightarrow>
   string \<Rightarrow> path \<Rightarrow> nat \<Rightarrow> nat \<Rightarrow> nat \<Rightarrow> fsys \<Rightarrow> ((string + 's loaded_splade) \<times> fsys) option" where
  "splade_load ops tk outputs h arena nm dir ml intra_threads pool_size fs =
     (let onnx_path = path_join dir ''model.onnx'';
          tok_path = path_join dir ''tokenizer.json'';
          e = ho_env h;
          cfg = \<lparr>bc_opt_level = parse_opt_level e, bc_intra_threads = intra_threads,
                 bc_allow_spinning = parse_intra_op_spinning e,
                 bc_memory_pattern = parse_memory_pattern (e (''EMBED_MEMORY_PATTERN_'' @ model_env_key nm))\<rparr>
      in if \<not> assert_arena_registered_before_session arena then None
         else if fs onnx_path = None then Some (Inl (''ONNX file not found: '' @ onnx_path), fs)
         else if fs tok_path = None then Some (Inl (''tokenizer.json not found: '' @ tok_path), fs)
         else case pool_loop ops h cfg (fst (from_env_for_model (ho_dirs h) e nm)) onnx_path [0..<max pool_size 1] fs of
           (Inl err, fs') \<Rightarrow> Some (Inl err, fs')
         | (Inr [], fs') \<Rightarrow> None
         | (Inr (s0 # ss), fs') \<Rightarrow>
             Some (bind_res (discover_vocab (outputs (ms_session s0))) (\<lambda>vocab.
                   bind_res (map_err ''load tokenizer: '' (to_from_file tk tok_path)) (\<lambda>t0.
                   bind_res (configure_truncation (to_with_truncation tk) True ml t0) (\<lambda>t.
                     Inr \<lparr>ls_name = nm, ls_sessions = s0 # ss, ls_max_len = ml, ls_vocab_size = vocab, ls_tokenizer = t\<rparr>))), fs'))"

text \<open>The loop of the warm-up over the sessions: failed passes are counted, a poisoned lock ends it.\<close>

fun splade_warm_sessions :: "nat \<Rightarrow> nat \<Rightarrow> (string + splade_session) list \<Rightarrow> int list \<Rightarrow> int list \<Rightarrow> (string + unit) \<times> nat" where
  "splade_warm_sessions batch i [] ids msk = (Inr (), 0)"
| "splade_warm_sessions batch i (Inl e # ss) ids msk =
     (Inl (''warmup lock session #'' @ show_nat i @ '' (batch='' @ show_nat batch @ ''): '' @ e), 0)"
| "splade_warm_sessions batch i (Inr run # ss) ids msk =
     (case splade_warm_sessions batch (Suc i) ss ids msk of
        (r, n) \<Rightarrow> (r, (case run ids msk of RunErr _ \<Rightarrow> Suc n | _ \<Rightarrow> n)))"

definition splade_warmup_at_shape ::
  "(string \<Rightarrow> string + token_seq) \<Rightarrow> SpladeModel \<Rightarrow> nat \<Rightarrow> (string + unit) \<times> nat" where
  "splade_warmup_at_shape encode m batch =
     (case splade_tokenize encode m ''warmup splade'' of
        Inl e \<Rightarrow> (Inl (''warmup tokenize (batch='' @ show_nat batch @ ''): '' @ e), 0)
      | Inr ids \<Rightarrow>
          if ids = [] then (Inl ''warmup tokens produced empty sequence'', 0)
          else let n = min (length ids) (sm_max_len m) in
            splade_warm_sessions batch 0 (sm_sessions m) (map uint (take n ids)) (replicate n 1))"

definition splade_warmup :: "(string \<Rightarrow> string + token_seq) \<Rightarrow> SpladeModel \<Rightarrow> nat list \<Rightarrow> nat \<times> nat" where
  "splade_warmup encode m shapes =
     (let rs = map (splade_warmup_at_shape encode m) shapes in
      (length (filter (\<lambda>(r, _). r \<noteq> Inr ()) rs), sum_list (map snd rs)))"

section \<open>Warm-up of the embedding model\<close>

text \<open>
  The guards are collected first, one call of \<open>acquire\<close> per slot; refused calls are skipped.
\<close>

fun acquire_all ::
  "(string + 'a) \<Rightarrow> nat \<Rightarrow> nat \<Rightarrow> 'a EvictablePool \<Rightarrow> ('a EvictableGuard list \<times> 'a EvictablePool) option" where
  "acquire_all factory now 0 p = Some ([], p)"
| "acquire_all factory now (Suc n) p =
     (case acquire factory now p of
        (p1, None, _) \<Rightarrow> None
      | (p1, Some (Inl _), _) \<Rightarrow> acquire_all factory now n p1
      | (p1, Some (Inr g), _) \<Rightarrow> map_option (\<lambda>(gs, p2). (g # gs, p2)) (acquire_all factory now n p1))"

definition embed_warmup_width :: "EmbedModel \<Rightarrow> nat option \<Rightarrow> nat" where
  "embed_warmup_width m warmup_seq_len =
     (case warmup_seq_len of None \<Rightarrow> em_max_len m | Some n \<Rightarrow> max (min n (em_max_len m)) 1)"

text \<open>\<open>run\<close> is the run function of a session; the number counts the failed passes.\<close>

definition embed_warmup_at_shape ::
  "(string list \<Rightarrow> string + token_seq list) \<Rightarrow> ('a \<Rightarrow> session_fn) \<Rightarrow> (string + 'a) \<Rightarrow> nat \<Rightarrow> EmbedModel \<Rightarrow> nat \<Rightarrow> nat option \<Rightarrow>
   'a EvictablePool \<Rightarrow> ((string + unit) \<times> nat \<times> 'a EvictablePool) option" where
  "embed_warmup_at_shape encode run factory now m batch warmup_seq_len p =
     (case tokenize encode m (replicate batch ''warmup'') of
        Inl e \<Rightarrow> Some (Inl e, 0, p)
      | Inr (ids, _) \<Rightarrow>
          if list_all (\<lambda>v. v = []) ids then Some (Inl ''warmup tokens produced empty sequence'', 0, p)
          else
            let w = embed_warmup_width m warmup_seq_len in
            case build_tensors_from_ids ids batch w (em_pad_id m) (em_has_token_type_ids m) of
              None \<Rightarrow> None
            | Some t \<Rightarrow>
                (case acquire_all factory now (em_pool_size m) p of
                   None \<Rightarrow> None
                 | Some (gs, p1) \<Rightarrow>
                     Some (Inr (),
                           length (filter (\<lambda>(i, it). case it of
                               Some s \<Rightarrow> (case run s (em_arena_shrink m) t batch w of RunErr _ \<Rightarrow> True | _ \<Rightarrow> False)
                             | None \<Rightarrow> False) gs),
                           fold (drop_guard now) gs p1)))"

text \<open>\<open>warmup\<close> always returns \<open>Ok\<close>; the numbers are the failed shapes and the failed passes.\<close>

fun embed_warmup ::
  "(string list \<Rightarrow> string + token_seq list) \<Rightarrow> ('a \<Rightarrow> session_fn) \<Rightarrow> (string + 'a) \<Rightarrow> nat \<Rightarrow> EmbedModel \<Rightarrow> nat list \<Rightarrow> nat option \<Rightarrow>
   'a EvictablePool \<Rightarrow> (nat \<times> nat \<times> 'a EvictablePool) option" where
  "embed_warmup encode run factory now m [] wsl p = Some (0, 0, p)"
| "embed_warmup encode run factory now m (b # shapes) wsl p =
     (case embed_warmup_at_shape encode run factory now m b wsl p of
        None \<Rightarrow> None
      | Some (r, n, p1) \<Rightarrow>
          map_option (\<lambda>(sf, pf, p2). ((case r of Inl _ \<Rightarrow> Suc sf | Inr _ \<Rightarrow> sf), n + pf, p2))
            (embed_warmup encode run factory now m shapes wsl p1))"

section \<open>Lemmas: warm-up\<close>

definition taken_slot :: "nat \<Rightarrow> 'a \<Rightarrow> 'a EvictableSlot" where
  "taken_slot now x = (fresh_slot now x)\<lparr>item := None, busy := True\<rparr>"

lemma acquire_from_next:
  "list_all busy bs \<Longrightarrow>
   acquire_from factory now i (bs @ fresh_slot t x # ss) =
     (bs @ taken_slot now x # ss, Some (Inr (i + length bs, Some x)), [])"
  by (induction bs arbitrary: i)
    (simp_all add: acquire_from.simps fresh_slot_def taken_slot_def check_section_def claim_section_def lock_log_def Let_def)

lemma busy_taken: "list_all busy (map (taken_slot now) xs)"
  by (simp add: list_all_iff taken_slot_def)

text \<open>On a pool of idle sessions the calls take every session, in order.\<close>

lemma acquire_all_fresh:
  "acquire_all factory now (length xs) p = Some (map (\<lambda>(i, x). (i, Some x)) (enumerate (length ys) xs), p\<lparr>slots := map (taken_slot now) (ys @ xs)\<rparr>)"
  if "slots p = map (taken_slot now) ys @ map (fresh_slot t) xs"
  using that
proof (induction xs arbitrary: ys p)
  case Nil
  then show ?case by (cases p) simp
next
  case (Cons x xs)
  let ?p = "p\<lparr>slots := map (taken_slot now) (ys @ [x]) @ map (fresh_slot t) xs\<rparr>"
  have "acquire factory now p = (?p, Some (Inr (length ys, Some x)), [])"
    using acquire_from_next [OF busy_taken, of factory now 0 now ys t x "map (fresh_slot t) xs"] Cons.prems
    by (simp add: acquire_def)
  moreover have "acquire_all factory now (length xs) ?p =
      Some (map (\<lambda>(i, x). (i, Some x)) (enumerate (length (ys @ [x])) xs), ?p\<lparr>slots := map (taken_slot now) ((ys @ [x]) @ xs)\<rparr>)"
    by (rule Cons.IH) simp
  ultimately show ?case by simp
qed

lemma drop_all_taken:
  "fold (drop_guard now) (map (\<lambda>(i, x). (i, Some x)) (enumerate (length ys) xs)) p = p\<lparr>slots := map (fresh_slot now) (ys @ xs)\<rparr>"
  if "slots p = map (fresh_slot now) ys @ map (taken_slot now) xs"
  using that
proof (induction xs arbitrary: ys p)
  case Nil
  then show ?case by (cases p) simp
next
  case (Cons x xs)
  let ?p = "p\<lparr>slots := map (fresh_slot now) (ys @ [x]) @ map (taken_slot now) xs\<rparr>"
  have "drop_guard now (length ys, Some x) p = ?p"
    using Cons.prems by (simp add: drop_guard_def drop_section_def taken_slot_def fresh_slot_def list_update_append nth_append)
  then show ?case
    using Cons.IH [of ?p "ys @ [x]"] by simp
qed

lemma embed_warmup_pass:
  assumes "slots p = map (fresh_slot t0) xs" "em_pool_size m = length xs"
    and "tokenize encode m (replicate batch ''warmup'') = Inr (ids, n)" "length ids = batch" "\<not> list_all (\<lambda>v. v = []) ids"
    and t: "build_tensors_from_ids ids batch (embed_warmup_width m wsl) (em_pad_id m) (em_has_token_type_ids m) = Some t"
  shows "embed_warmup_at_shape encode run factory now m batch wsl p =
    Some (Inr (), length (filter (\<lambda>x. \<exists>e. run x (em_arena_shrink m) t batch (embed_warmup_width m wsl) = RunErr e) xs),
          p\<lparr>slots := map (fresh_slot now) xs\<rparr>)"
proof -
  let ?failed = "\<lambda>x. \<exists>e. run x (em_arena_shrink m) t batch (embed_warmup_width m wsl) = RunErr e"
  have f: "length (filter (\<lambda>(i, it). case it of
        Some s \<Rightarrow> (case run s (em_arena_shrink m) t batch (embed_warmup_width m wsl) of RunErr _ \<Rightarrow> True | _ \<Rightarrow> False)
      | None \<Rightarrow> False) (map (\<lambda>(i, x). (i, Some x)) (enumerate k xs))) = length (filter ?failed xs)" for k
    by (induction xs arbitrary: k) (auto split: run_outcome.splits)
  have a: "acquire_all factory now (em_pool_size m) p =
      Some (map (\<lambda>(i, x). (i, Some x)) (enumerate 0 xs), p\<lparr>slots := map (taken_slot now) xs\<rparr>)"
    using acquire_all_fresh [of p now "[]" t0 xs factory] assms(1,2) by simp
  have d: "fold (drop_guard now) (map (\<lambda>(i, x). (i, Some x)) (enumerate 0 xs)) (p\<lparr>slots := map (taken_slot now) xs\<rparr>) =
      p\<lparr>slots := map (fresh_slot now) xs\<rparr>"
    using drop_all_taken [of "p\<lparr>slots := map (taken_slot now) xs\<rparr>" now "[]" xs] by simp
  show ?thesis
    unfolding embed_warmup_at_shape_def
    using assms(3,5) t a d f [of 0] by (simp add: Let_def)
qed

end
