(* ===== verification/Supervisor.thy ===== *)
theory Supervisor
  imports Http "HOL-Library.AList"
begin

text \<open>
  The supervisor of worker processes: environment helpers (\<open>src/src/supervisor/util.rs\<close>), the
  supervisor actor with its watchdog, respawn backoff and heartbeat
  (\<open>src/src/supervisor/handle.rs\<close>) and the routing pool (\<open>src/src/supervisor/pool.rs\<close>).
  Durations are natural numbers of milliseconds. What the operating system and the clock answer is an
  argument: the outcome of a probe, of a spawn attempt, of each poll.
\<close>

section \<open>Environment helpers\<close>

text \<open>The duration and the keys for which a fallback metric is recorded.\<close>

definition resolve_duration_secs_env :: "env \<Rightarrow> string \<Rightarrow> nat \<Rightarrow> nat \<times> string list" where
  "resolve_duration_secs_env e key dflt =
     (case e key of
        None \<Rightarrow> (dflt, [])
      | Some raw \<Rightarrow> (case parse_u64 (trim raw) of
          Some n \<Rightarrow> if 0 < n then (n * 1000, []) else (dflt, [key])
        | None \<Rightarrow> (dflt, [key])))"

definition resolve_spawn_stagger_ms :: "env \<Rightarrow> string \<Rightarrow> nat \<Rightarrow> nat option" where
  "resolve_spawn_stagger_ms e key default_ms =
     (let fallback = (if default_ms = 0 then None else Some default_ms)
      in case e key of
           None \<Rightarrow> fallback
         | Some raw \<Rightarrow> (case parse_u64 (trim raw) of
             Some n \<Rightarrow> if n = 0 then None else Some n
           | None \<Rightarrow> fallback))"

section \<open>Constants and configuration\<close>

definition INITIAL_BACKOFF :: nat where "INITIAL_BACKOFF = 2 * 1000"
definition MAX_BACKOFF :: nat where "MAX_BACKOFF = 60 * 1000"
definition SOCKET_WAIT_SECS :: nat where "SOCKET_WAIT_SECS = 60"
definition HEARTBEAT_INTERVAL_SECS :: nat where "HEARTBEAT_INTERVAL_SECS = 30"
definition HEARTBEAT_MAX_FAILS :: nat where "HEARTBEAT_MAX_FAILS = 3"
definition HEARTBEAT_PROBE_TIMEOUT_MS :: nat where "HEARTBEAT_PROBE_TIMEOUT_MS = 15000"

definition next_backoff :: "nat \<Rightarrow> nat" where
  "next_backoff current = min (current * 2) MAX_BACKOFF"

definition freshness_window_is_inert :: "nat \<Rightarrow> nat \<Rightarrow> bool" where
  "freshness_window_is_inert window probe_timeout \<longleftrightarrow> window < probe_timeout"

datatype WorkerKind = KEmbed | KRerank | KSplade

fun kind_as_str :: "WorkerKind \<Rightarrow> string" where
  "kind_as_str KEmbed = ''embed''"
| "kind_as_str KRerank = ''rerank''"
| "kind_as_str KSplade = ''splade''"

record SpawnSpec =
  spec_model :: string
  spec_kind :: WorkerKind
  spec_worker_bin :: string
  spec_socket_dir :: string
  spec_pool_size :: nat
  spec_intra_threads :: nat
  spec_env_extra :: "(string \<times> string) list"

record HeartbeatConfig =
  socket_wait :: nat
  heartbeat_interval :: nat
  heartbeat_max_fails :: nat
  heartbeat_probe_timeout :: nat
  heartbeat_freshness_window :: nat

text \<open>The positive-integer variables \<open>launch\<close> parses in place.\<close>

definition positive_env :: "nat \<Rightarrow> env \<Rightarrow> string \<Rightarrow> nat \<Rightarrow> nat" where
  "positive_env w e key dflt =
     (case e key of None \<Rightarrow> dflt
      | Some s \<Rightarrow> (case parse_uint w (trim s) of
          Some n \<Rightarrow> if n = 0 then dflt else n | None \<Rightarrow> dflt))"

text \<open>\<open>Duration::checked_mul(3)\<close> fails when the seconds exceed 64 bits.\<close>

definition default_freshness_window :: "nat \<Rightarrow> nat" where
  "default_freshness_window interval =
     (if interval * 3 div 1000 < 2 ^ 64 then interval * 3 else interval)"

text \<open>The configuration \<open>launch\<close> resolves, with the keys reported as fallbacks.\<close>

definition launch_config :: "env \<Rightarrow> HeartbeatConfig \<times> string list" where
  "launch_config e =
     (let (sw, k1) = resolve_duration_secs_env e ''EMBED_WORKER_SOCKET_WAIT_SECS'' (SOCKET_WAIT_SECS * 1000);
          (hi, k2) = resolve_duration_secs_env e ''EMBED_WORKER_HEARTBEAT_INTERVAL_SECS'' (HEARTBEAT_INTERVAL_SECS * 1000);
          mf = positive_env 32 e ''EMBED_WORKER_HEARTBEAT_MAX_FAILS'' HEARTBEAT_MAX_FAILS;
          pt = positive_env 64 e ''EMBED_WORKER_HEARTBEAT_PROBE_TIMEOUT_MS'' HEARTBEAT_PROBE_TIMEOUT_MS;
          (fw, k3) = resolve_duration_secs_env e ''EMBED_WORKER_HEARTBEAT_FRESHNESS_WINDOW_SECS'' (default_freshness_window hi);
          k4 = (if hi \<noteq> 0 \<and> freshness_window_is_inert fw pt then [''EMBED_WORKER_HEARTBEAT_FRESHNESS_WINDOW_SECS''] else [])
      in (\<lparr>socket_wait = sw, heartbeat_interval = hi, heartbeat_max_fails = mf, heartbeat_probe_timeout = pt,
           heartbeat_freshness_window = fw\<rparr>, k1 @ k2 @ k3 @ k4))"

section \<open>The supervisor's state\<close>

record WorkerSupervisor =
  sup_spec :: SpawnSpec
  client_slot :: "WorkerClient option"
  restart_count :: "64 word"
  current_pid :: nat
  last_success_ms :: nat

definition record_success :: "nat \<Rightarrow> WorkerSupervisor \<Rightarrow> WorkerSupervisor" where
  "record_success now s = s\<lparr>last_success_ms := now\<rparr>"

definition clear_on_exit :: "WorkerSupervisor \<Rightarrow> WorkerSupervisor" where
  "clear_on_exit s = s\<lparr>current_pid := 0\<rparr>\<lparr>client_slot := None\<rparr>"

section \<open>Spawning\<close>

text \<open>
  The wait for the socket: each poll reads the clock, tests the socket file and asks whether the
  child has exited (\<open>Inl\<close> an error of \<open>try_wait\<close>). \<open>None\<close>: still polling when the
  observations end.
\<close>

record poll =
  poll_now :: nat
  poll_exists :: bool
  poll_exit :: "string + string option"

fun wait_socket :: "string \<Rightarrow> nat \<Rightarrow> nat \<Rightarrow> poll list \<Rightarrow> (string + unit) option" where
  "wait_socket model deadline wait_secs [] = None"
| "wait_socket model deadline wait_secs (p # ps) =
     (if deadline \<le> poll_now p
      then Some (Inl (''worker '' @ model @ '' did not create socket within '' @ show_nat wait_secs @ ''s''))
      else if poll_exists p then Some (Inr ())
      else case poll_exit p of
          Inl e \<Rightarrow> Some (Inl e)
        | Inr (Some st) \<Rightarrow> Some (Inl (''worker '' @ model @ '' exited before socket appeared: status='' @ st))
        | Inr None \<Rightarrow> wait_socket model deadline wait_secs ps)"

text \<open>
  \<open>spawn_one\<close>: \<open>forked\<close> is the outcome of \<open>Command::spawn\<close> (the process id of the child),
  \<open>probe\<close> the outcome of the connection probe; \<open>worker_env\<close> is the environment of the child, in
  which a later entry overrides an earlier one.
\<close>

fun io_display :: "io_error \<Rightarrow> string" where
  "io_display (InvalidData m) = m"
| "io_display (InvalidInput m) = m"
| "io_display UnexpectedEof = ''early eof''"
| "io_display (OsError m) = m"

definition worker_env :: "SpawnSpec \<Rightarrow> string \<Rightarrow> (string \<times> string) list" where
  "worker_env spec sock =
     [(''EMBED_WORKER_MODEL'', spec_model spec), (''EMBED_WORKER_KIND'', kind_as_str (spec_kind spec)),
      (''EMBED_WORKER_SOCKET'', sock), (''EMBED_WORKER_POOL_SIZE'', show_nat (spec_pool_size spec)),
      (''EMBED_WORKER_INTRA_THREADS'', show_nat (spec_intra_threads spec))] @ spec_env_extra spec"

definition spawn_one ::
  "SpawnSpec \<Rightarrow> nat \<Rightarrow> nat \<Rightarrow> string + nat option \<Rightarrow> poll list \<Rightarrow> io_error option \<Rightarrow>
   (string + nat option \<times> WorkerClient) option" where
  "spawn_one spec wait start forked polls probe =
     (let sock = spec_socket_dir spec @ ''/'' @ spec_model spec @ ''.sock'' in
      case forked of
        Inl e \<Rightarrow> Some (Inl e)
      | Inr pid \<Rightarrow> (case wait_socket (spec_model spec) (start + wait) (wait div 1000) polls of
            None \<Rightarrow> None
          | Some (Inl e) \<Rightarrow> Some (Inl e)
          | Some (Inr _) \<Rightarrow> Some (case connect probe sock (spec_pool_size spec) of
                Inl e \<Rightarrow> Inl (''worker client connect failed: '' @ io_display e)
              | Inr c \<Rightarrow> Inr (pid, c))))"

text \<open>\<open>WorkerSupervisor::launch\<close> up to the start of its two tasks: the first spawn is not retried.\<close>

definition launch ::
  "env \<Rightarrow> SpawnSpec \<Rightarrow> nat \<Rightarrow> string + nat option \<Rightarrow> poll list \<Rightarrow> io_error option \<Rightarrow> (string + WorkerSupervisor) option" where
  "launch e spec start forked polls probe =
     map_option (\<lambda>r. bind_res r (\<lambda>(pid, c).
         Inr \<lparr>sup_spec = spec, client_slot = Some c, restart_count = 0,
              current_pid = (case pid of None \<Rightarrow> 0 | Some n \<Rightarrow> n), last_success_ms = 0\<rparr>))
       (spawn_one spec (socket_wait (fst (launch_config e))) start forked polls probe)"

lemma launch_spec: "launch e spec start forked polls probe = Some (Inr s) \<Longrightarrow> sup_spec s = spec \<and> client_slot s \<noteq> None"
  by (auto simp: launch_def bind_res_Inr_iff)

section \<open>Watchdog\<close>

text \<open>
  The respawn loop after an exit: each attempt sleeps the current backoff first; the result is
  the list of sleeps and, if an attempt succeeded, the supervisor with the new worker.
\<close>

definition adopt :: "nat option \<times> WorkerClient \<Rightarrow> WorkerSupervisor \<Rightarrow> WorkerSupervisor" where
  "adopt pc s = (case pc of (pid, c) \<Rightarrow>
     (let s1 = (case pid of Some p \<Rightarrow> s\<lparr>current_pid := p\<rparr> | None \<Rightarrow> s)
      in s1\<lparr>client_slot := Some c, restart_count := restart_count s1 + 1\<rparr>))"

fun respawn ::
  "nat \<Rightarrow> (string + nat option \<times> WorkerClient) list \<Rightarrow> WorkerSupervisor \<Rightarrow>
   nat list \<times> WorkerSupervisor option" where
  "respawn backoff [] s = ([], None)"
| "respawn backoff (Inr pc # _) s = ([backoff], Some (adopt pc s))"
| "respawn backoff (Inl e # attempts) s =
     (case respawn (next_backoff backoff) attempts s of (sl, r) \<Rightarrow> (backoff # sl, r))"

text \<open>
  The watchdog over a sequence of child exits, each with the attempts that follow it: the
  backoff starts at its initial value for every exit, since a success resets it.
\<close>

fun watchdog_loop ::
  "(string + nat option \<times> WorkerClient) list list \<Rightarrow> WorkerSupervisor \<Rightarrow> nat list list \<times> WorkerSupervisor option" where
  "watchdog_loop [] s = ([], Some s)"
| "watchdog_loop (attempts # exits) s =
     (case respawn INITIAL_BACKOFF attempts (clear_on_exit s) of
        (sl, None) \<Rightarrow> ([sl], None)
      | (sl, Some s') \<Rightarrow> (case watchdog_loop exits s' of (sls, r) \<Rightarrow> (sl # sls, r)))"

section \<open>Heartbeat\<close>

datatype HeartbeatOutcome = Skipped | HbOk | Failed | Killed | Suppressed

text \<open>The probe request for the kind of the worker; 0.01 is the bit pattern of that \<open>f32\<close>.\<close>

definition probe_request :: "SpawnSpec \<Rightarrow> 64 word \<Rightarrow> WorkerRequest" where
  "probe_request spec i =
     (case spec_kind spec of
        KEmbed \<Rightarrow> ReqEmbed \<lparr>em_request_id = i, em_model = spec_model spec, em_texts = [''test''], em_max_seq_len = 8\<rparr>
      | KRerank \<Rightarrow> ReqRerank \<lparr>rr_request_id = i, rr_model = spec_model spec, rr_query = ''test'', rr_documents = [''doc''],
                              rr_max_seq_len = 8\<rparr>
      | KSplade \<Rightarrow> ReqSplade \<lparr>sp_request_id = i, sp_model = spec_model spec, sp_texts = [''test''], sp_max_seq_len = 8,
                              sp_top_k = 64, sp_min_weight = F32 0x3C23D70A\<rparr>)"

text \<open>What a tick observes: the client slot, the outcome of the probe, the clock, and the two atomics.\<close>

record tick =
  tk_client :: bool
  tk_probe :: "(io_error + WorkerResponse) timed"
  tk_now :: nat
  tk_last :: nat
  tk_pid :: nat

fun probe_result :: "(io_error + WorkerResponse) timed \<Rightarrow> bool \<times> string" where
  "probe_result (InTime (Inr (RespErr _ _))) = (True, ''error'')"
| "probe_result (InTime (Inr _)) = (False, ''ok'')"
| "probe_result (InTime (Inl _)) = (True, ''error'')"
| "probe_result TimedOut = (True, ''timeout'')"

definition fresh :: "HeartbeatConfig \<Rightarrow> tick \<Rightarrow> bool" where
  "fresh cfg t \<longleftrightarrow> 0 < tk_last t \<and> sat_sub (tk_now t) (tk_last t) < heartbeat_freshness_window cfg mod 2 ^ 64"

text \<open>
  One tick: what it did, the new failure count, the heartbeat metrics and the process that is
  sent a SIGKILL.
\<close>

definition heartbeat_tick ::
  "HeartbeatConfig \<Rightarrow> tick \<Rightarrow> nat \<Rightarrow> HeartbeatOutcome \<times> nat \<times> string list \<times> nat option" where
  "heartbeat_tick cfg t fails =
     (if \<not> tk_client t then (Skipped, 0, [], None)
      else case probe_result (tk_probe t) of (failed, label) \<Rightarrow>
        if \<not> failed then (HbOk, 0, [label], None)
        else if fresh cfg t then (Suppressed, fails, [label, ''suppressed''], None)
        else
          let fails' = fails + 1 in
          if fails' < heartbeat_max_fails cfg then (Failed, fails', [label], None)
          else if tk_pid t = 0 then (Skipped, 0, [label], None)
          else (Killed, 0, [label, ''kill''], Some (tk_pid t)))"

text \<open>The loop over a sequence of ticks.\<close>

fun heartbeat_loop :: "HeartbeatConfig \<Rightarrow> nat \<Rightarrow> tick list \<Rightarrow> HeartbeatOutcome list" where
  "heartbeat_loop cfg fails [] = []"
| "heartbeat_loop cfg fails (t # ts) =
     (case heartbeat_tick cfg t fails of (out, fails', _, _) \<Rightarrow> out # heartbeat_loop cfg fails' ts)"

section \<open>Routing\<close>

record WorkerPool =
  workers :: "(string \<times> WorkerSupervisor) list"
  dispatch_timeout :: nat

definition pool_new :: "env \<Rightarrow> WorkerPool \<times> string list" where
  "pool_new e = (case resolve_duration_secs_env e ''EMBED_DISPATCH_TIMEOUT_SECS'' (30 * 1000) of
     (d, k) \<Rightarrow> (\<lparr>workers = [], dispatch_timeout = d\<rparr>, k))"

definition pool_add :: "WorkerSupervisor \<Rightarrow> WorkerPool \<Rightarrow> WorkerPool" where
  "pool_add s p = p\<lparr>workers := AList.update (spec_model (sup_spec s)) s (workers p)\<rparr>"

text \<open>
  The poll for a live client: each poll observes the client slot and then, if it is empty, the clock.
  \<open>None\<close>: still polling when the observations end.
\<close>

fun poll_client :: "string \<Rightarrow> nat \<Rightarrow> nat \<Rightarrow> (WorkerClient option \<times> nat) list \<Rightarrow> (DispatchError + WorkerClient) option" where
  "poll_client model deadline secs [] = None"
| "poll_client model deadline secs ((slot, now) # obs) =
     (case slot of
        Some c \<Rightarrow> Some (Inr c)
      | None \<Rightarrow> if deadline \<le> now then Some (Inl (Timeout model secs)) else poll_client model deadline secs obs)"

definition get_client ::
  "WorkerPool \<Rightarrow> string \<Rightarrow> nat \<Rightarrow> (WorkerClient option \<times> nat) list \<Rightarrow> (DispatchError + WorkerSupervisor \<times> WorkerClient) option" where
  "get_client p model start obs =
     (case map_of (workers p) model of
        None \<Rightarrow> Some (Inl (NoWorker model))
      | Some s \<Rightarrow> map_option (\<lambda>r. bind_res r (\<lambda>c. Inr (s, c)))
            (poll_client model (start + dispatch_timeout p) (dispatch_timeout p div 1000) obs))"

text \<open>
  What the three dispatches do with the client's answer: an IPC error is passed on, a response
  that is not an error stamps the supervisor.
\<close>

definition finish_dispatch ::
  "nat \<Rightarrow> io_error + WorkerResponse \<Rightarrow> WorkerSupervisor \<Rightarrow> (DispatchError + WorkerResponse) \<times> WorkerSupervisor" where
  "finish_dispatch now r s =
     (case r of
        Inl e \<Rightarrow> (Inl (IpcError e), s)
      | Inr resp \<Rightarrow> (Inr resp, case resp of RespErr _ _ \<Rightarrow> s | _ \<Rightarrow> record_success now s))"

text \<open>
  The common body of the three dispatches. The deadline bounds only the wait for a client; the
  call of the client is awaited without a limit. \<open>None\<close>: the dispatch has not returned, because
  it still polls when the observations end or because the call of the client never returns.
\<close>

definition pool_dispatch ::
  "(WorkerClient \<Rightarrow> (io_error + WorkerResponse) option \<times> WorkerClient) \<Rightarrow> WorkerPool \<Rightarrow> string \<Rightarrow> nat \<Rightarrow>
   (WorkerClient option \<times> nat) list \<Rightarrow> nat \<Rightarrow> ((DispatchError + WorkerResponse) \<times> WorkerPool) option" where
  "pool_dispatch call p model start obs now =
     (case get_client p model start obs of
        None \<Rightarrow> None
      | Some (Inl e) \<Rightarrow> Some (Inl e, p)
      | Some (Inr (s, c)) \<Rightarrow>
          (case fst (call c) of
             None \<Rightarrow> None
           | Some r \<Rightarrow> (case finish_dispatch now r s of
               (out, s') \<Rightarrow> Some (out, p\<lparr>workers := AList.update model s' (workers p)\<rparr>))))"

definition pool_dispatch_embed ::
  "wire \<Rightarrow> string list \<Rightarrow> 32 word \<Rightarrow> WorkerPool \<Rightarrow> string \<Rightarrow> nat \<Rightarrow> (WorkerClient option \<times> nat) list \<Rightarrow> nat \<Rightarrow>
   ((DispatchError + WorkerResponse) \<times> WorkerPool) option" where
  "pool_dispatch_embed w texts msl p model = pool_dispatch (client_dispatch_embed w model texts msl) p model"

definition pool_dispatch_rerank ::
  "wire \<Rightarrow> string \<Rightarrow> string list \<Rightarrow> 32 word \<Rightarrow> WorkerPool \<Rightarrow> string \<Rightarrow> nat \<Rightarrow> (WorkerClient option \<times> nat) list \<Rightarrow> nat \<Rightarrow>
   ((DispatchError + WorkerResponse) \<times> WorkerPool) option" where
  "pool_dispatch_rerank w q docs msl p model = pool_dispatch (client_dispatch_rerank w model q docs msl) p model"

definition pool_dispatch_splade ::
  "wire \<Rightarrow> string list \<Rightarrow> 32 word \<Rightarrow> 32 word \<Rightarrow> f32 \<Rightarrow> WorkerPool \<Rightarrow> string \<Rightarrow> nat \<Rightarrow> (WorkerClient option \<times> nat) list \<Rightarrow> nat \<Rightarrow>
   ((DispatchError + WorkerResponse) \<times> WorkerPool) option" where
  "pool_dispatch_splade w texts msl k mw p model = pool_dispatch (client_dispatch_splade w model texts msl k mw) p model"

definition worker_pids :: "WorkerPool \<Rightarrow> (string \<times> nat) list" where
  "worker_pids p = List.map_filter (\<lambda>(_, s). if current_pid s \<noteq> 0 then Some (spec_model (sup_spec s), current_pid s) else None)
     (workers p)"

section \<open>The supervisor as a concurrent machine\<close>

text \<open>
  The watchdog task, the heartbeat task and the operating system, interleaved. A process id is
  held by a process until it is reaped, then it may be given to any other process. The table
  says who holds a process id: the worker with a serial number of this supervisor, running or
  dead but not yet reaped, or a process of somebody else. A handle is a serial number with the
  process id the worker was given.

  \<open>mc_pid\<close> and \<open>mc_slot\<close> are the shared atomics; \<open>mc_child\<close> is the handle in the variable
  \<open>child\<close> of the watchdog and \<open>mc_wait_failed\<close> says that waiting for it gave an error;
  \<open>mc_target\<close> is the process id the heartbeat has read and is about to signal, with the serial
  number of the worker it was published for; \<open>mc_hits\<close> records for every signal that worker
  and the process that received it.
\<close>

datatype holder = Own nat bool | Other

type_synonym handle = "nat \<times> nat"

datatype phase =
    PWait
  | PWaited
  | PPidCleared
  | PRespawn nat
  | PStarting nat handle
  | PPidSet handle
  | PPublished handle

record machine =
  mc_pid :: nat
  mc_slot :: bool
  mc_child :: handle
  mc_wait_failed :: bool
  mc_phase :: phase
  mc_target :: "(nat \<times> nat) option"
  mc_table :: "nat \<Rightarrow> holder option"
  mc_next :: nat
  mc_hits :: "(nat \<times> holder option) list"

text \<open>The handle of a worker that is not yet, or only just, taken over.\<close>

fun new_handle :: "phase \<Rightarrow> handle option" where
  "new_handle (PStarting _ h) = Some h"
| "new_handle (PPidSet h) = Some h"
| "new_handle (PPublished h) = Some h"
| "new_handle _ = None"

definition held :: "machine \<Rightarrow> handle \<Rightarrow> bool" where
  "held s h \<longleftrightarrow> h = mc_child s \<or> new_handle (mc_phase s) = Some h"

text \<open>
  A \<open>SIGKILL\<close> ends a worker; its process id stays taken until it is reaped. A handle that is
  dropped kills its worker if that has not been reaped (\<open>kill_on_drop\<close>).
\<close>

definition sigkill :: "nat \<Rightarrow> (nat \<Rightarrow> holder option) \<Rightarrow> nat \<Rightarrow> holder option" where
  "sigkill p t = (case t p of Some (Own x _) \<Rightarrow> t(p \<mapsto> Own x False) | _ \<Rightarrow> t)"

definition drop_handle :: "handle \<Rightarrow> (nat \<Rightarrow> holder option) \<Rightarrow> nat \<Rightarrow> holder option" where
  "drop_handle h t =
     (case t (snd h) of Some (Own x a) \<Rightarrow> if x = fst h then t(snd h \<mapsto> Own x False) else t | _ \<Rightarrow> t)"

text \<open>
  The operating system: workers exit, other processes start and end, and dropped workers that
  are dead are reaped in the background.
\<close>

inductive os_step :: "machine \<Rightarrow> machine \<Rightarrow> bool" where
  os_exit: "mc_table s p = Some (Own x True) \<Longrightarrow> os_step s (s\<lparr>mc_table := (mc_table s)(p \<mapsto> Own x False)\<rparr>)"
| os_other_start: "mc_table s p = None \<Longrightarrow> p \<noteq> 0 \<Longrightarrow> os_step s (s\<lparr>mc_table := (mc_table s)(p \<mapsto> Other)\<rparr>)"
| os_other_end: "mc_table s p = Some Other \<Longrightarrow> os_step s (s\<lparr>mc_table := (mc_table s)(p := None)\<rparr>)"
| os_orphan: "mc_table s p = Some (Own x False) \<Longrightarrow> \<not> held s (x, p) \<Longrightarrow>
    os_step s (s\<lparr>mc_table := (mc_table s)(p := None)\<rparr>)"

text \<open>
  The watchdog. Waiting for the child reaps it if it is dead; it may also give an error, after
  which the watchdog goes on although the child may run. A respawn forks, waits for the socket
  and then takes the new worker over: process id, client slot and last the handle, when the
  old one is dropped. A worker that does not come up is dropped.
\<close>

inductive wd_step :: "machine \<Rightarrow> machine \<Rightarrow> bool" where
  wd_wait: "mc_phase s = PWait \<Longrightarrow> mc_child s = (x, p) \<Longrightarrow> mc_table s p = Some (Own x False) \<Longrightarrow>
    wd_step s (s\<lparr>mc_table := (mc_table s)(p := None), mc_phase := PWaited\<rparr>)"
| wd_wait_err: "mc_phase s = PWait \<Longrightarrow> wd_step s (s\<lparr>mc_wait_failed := True, mc_phase := PWaited\<rparr>)"
| wd_clear_pid: "mc_phase s = PWaited \<Longrightarrow> wd_step s (s\<lparr>mc_pid := 0, mc_phase := PPidCleared\<rparr>)"
| wd_clear_slot: "mc_phase s = PPidCleared \<Longrightarrow> wd_step s (s\<lparr>mc_slot := False, mc_phase := PRespawn INITIAL_BACKOFF\<rparr>)"
| wd_fork_fail: "mc_phase s = PRespawn b \<Longrightarrow> wd_step s (s\<lparr>mc_phase := PRespawn (next_backoff b)\<rparr>)"
| wd_fork: "mc_phase s = PRespawn b \<Longrightarrow> mc_table s p = None \<Longrightarrow> p \<noteq> 0 \<Longrightarrow>
    wd_step s (s\<lparr>mc_table := (mc_table s)(p \<mapsto> Own (mc_next s) True), mc_next := Suc (mc_next s),
      mc_phase := PStarting b (mc_next s, p)\<rparr>)"
| wd_start_fail: "mc_phase s = PStarting b h \<Longrightarrow>
    wd_step s (s\<lparr>mc_table := drop_handle h (mc_table s), mc_phase := PRespawn (next_backoff b)\<rparr>)"
| wd_set_pid: "mc_phase s = PStarting b h \<Longrightarrow> wd_step s (s\<lparr>mc_pid := snd h, mc_phase := PPidSet h\<rparr>)"
| wd_publish: "mc_phase s = PPidSet h \<Longrightarrow> wd_step s (s\<lparr>mc_slot := True, mc_phase := PPublished h\<rparr>)"
| wd_hand_over: "mc_phase s = PPublished h \<Longrightarrow>
    wd_step s (s\<lparr>mc_table := drop_handle (mc_child s) (mc_table s), mc_child := h, mc_wait_failed := False, mc_phase := PWait\<rparr>)"

text \<open>The worker whose process id is published.\<close>

definition published :: "machine \<Rightarrow> nat" where
  "published s = (case mc_phase s of PPidSet h \<Rightarrow> fst h | PPublished h \<Rightarrow> fst h | _ \<Rightarrow> fst (mc_child s))"

text \<open>The kill of the heartbeat: the process id is read, and the signal goes to whoever holds it then.\<close>

inductive hb_step :: "machine \<Rightarrow> machine \<Rightarrow> bool" where
  hb_read: "mc_target s = None \<Longrightarrow> mc_pid s \<noteq> 0 \<Longrightarrow> hb_step s (s\<lparr>mc_target := Some (mc_pid s, published s)\<rparr>)"
| hb_kill: "mc_target s = Some (p, x) \<Longrightarrow>
    hb_step s (s\<lparr>mc_table := sigkill p (mc_table s), mc_target := None, mc_hits := (x, mc_table s p) # mc_hits s\<rparr>)"

definition sup_step :: "machine \<Rightarrow> machine \<Rightarrow> bool" where
  "sup_step s t \<longleftrightarrow> wd_step s t \<or> hb_step s t \<or> os_step s t"

text \<open>A supervisor that has been launched: its first worker runs and is published.\<close>

definition sup_start :: "nat \<Rightarrow> machine" where
  "sup_start p = \<lparr>mc_pid = p, mc_slot = True, mc_child = (0, p), mc_wait_failed = False, mc_phase = PWait, mc_target = None,
     mc_table = [p \<mapsto> Own 0 True], mc_next = 1, mc_hits = []\<rparr>"

definition sup_init :: "machine \<Rightarrow> bool" where
  "sup_init s \<longleftrightarrow> (\<exists>p. p \<noteq> 0 \<and> s = sup_start p)"

text \<open>
  The invariant: the atomics follow the phase; a worker holds one process id, the one of its
  handle; the workers that run are those with a handle in use, the child only if it has not
  been waited for or waiting failed; and the worker the heartbeat aims at holds the process id
  that was read, unless it has been reaped.
\<close>

fun phase_ok :: "machine \<Rightarrow> phase \<Rightarrow> bool" where
  "phase_ok s PWait = (mc_pid s = snd (mc_child s) \<and> mc_slot s \<and> \<not> mc_wait_failed s)"
| "phase_ok s PWaited = (mc_pid s = snd (mc_child s) \<and> mc_slot s)"
| "phase_ok s PPidCleared = (mc_pid s = 0 \<and> mc_slot s)"
| "phase_ok s (PRespawn b) = (mc_pid s = 0 \<and> \<not> mc_slot s \<and> INITIAL_BACKOFF \<le> b \<and> b \<le> MAX_BACKOFF)"
| "phase_ok s (PStarting b h) = (mc_pid s = 0 \<and> \<not> mc_slot s \<and> INITIAL_BACKOFF \<le> b \<and> b \<le> MAX_BACKOFF)"
| "phase_ok s (PPidSet h) = (mc_pid s = snd h \<and> \<not> mc_slot s)"
| "phase_ok s (PPublished h) = (mc_pid s = snd h \<and> mc_slot s)"

definition reaped :: "machine \<Rightarrow> nat \<Rightarrow> bool" where
  "reaped s x \<longleftrightarrow> (\<forall>q a. mc_table s q \<noteq> Some (Own x a))"

definition handle_ok :: "machine \<Rightarrow> handle \<Rightarrow> bool" where
  "handle_ok s h \<longleftrightarrow> snd h \<noteq> 0 \<and> fst h < mc_next s \<and> (\<forall>q a. mc_table s q = Some (Own (fst h) a) \<longrightarrow> q = snd h)"

definition serials_ok :: "machine \<Rightarrow> bool" where
  "serials_ok s \<longleftrightarrow> (\<forall>q x a. mc_table s q = Some (Own x a) \<longrightarrow> x < mc_next s) \<and>
     (\<forall>p x. mc_target s = Some (p, x) \<longrightarrow> x < mc_next s \<and> (\<forall>q a. mc_table s q = Some (Own x a) \<longrightarrow> q = p))"

definition sup_inv :: "machine \<Rightarrow> bool" where
  "sup_inv s \<longleftrightarrow> phase_ok s (mc_phase s) \<and> serials_ok s \<and>
     handle_ok s (mc_child s) \<and> (\<forall>h. new_handle (mc_phase s) = Some h \<longrightarrow> handle_ok s h \<and> fst h \<noteq> fst (mc_child s)) \<and>
     (\<forall>q x. mc_table s q = Some (Own x True) \<longrightarrow> held s (x, q)) \<and>
     (mc_phase s \<noteq> PWait \<and> \<not> mc_wait_failed s \<longrightarrow> reaped s (fst (mc_child s)))"

text \<open>
  Steps that only kill or reap workers, or concern other processes, keep the invariant.
\<close>

definition shrinks :: "(nat \<Rightarrow> holder option) \<Rightarrow> (nat \<Rightarrow> holder option) \<Rightarrow> bool" where
  "shrinks t t' \<longleftrightarrow> (\<forall>q x a. t' q = Some (Own x a) \<longrightarrow> (\<exists>b. t q = Some (Own x b) \<and> (a \<longrightarrow> b)))"

lemma phase_ok_cong:
  "mc_pid s' = mc_pid s \<Longrightarrow> mc_slot s' = mc_slot s \<Longrightarrow> mc_child s' = mc_child s \<Longrightarrow> mc_wait_failed s' = mc_wait_failed s \<Longrightarrow>
   phase_ok s' ph = phase_ok s ph"
  by (cases ph) simp_all

text \<open>The parts of the invariant.\<close>

lemma sup_invD:
  assumes "sup_inv s"
  shows "phase_ok s (mc_phase s)" "serials_ok s" "handle_ok s (mc_child s)"
    "new_handle (mc_phase s) = Some h \<Longrightarrow> handle_ok s h" "new_handle (mc_phase s) = Some h \<Longrightarrow> fst h \<noteq> fst (mc_child s)"
    "mc_table s q = Some (Own x True) \<Longrightarrow> held s (x, q)"
    "mc_phase s \<noteq> PWait \<Longrightarrow> \<not> mc_wait_failed s \<Longrightarrow> reaped s (fst (mc_child s))"
  using assms unfolding sup_inv_def by blast+

lemma sup_invI:
  assumes "phase_ok s (mc_phase s)" "serials_ok s" "handle_ok s (mc_child s)"
    "\<And>h. new_handle (mc_phase s) = Some h \<Longrightarrow> handle_ok s h" "\<And>h. new_handle (mc_phase s) = Some h \<Longrightarrow> fst h \<noteq> fst (mc_child s)"
    "\<And>q x. mc_table s q = Some (Own x True) \<Longrightarrow> held s (x, q)"
    "mc_phase s \<noteq> PWait \<Longrightarrow> \<not> mc_wait_failed s \<Longrightarrow> reaped s (fst (mc_child s))"
  shows "sup_inv s"
  using assms unfolding sup_inv_def by blast

lemma serials_okD:
  assumes "serials_ok s"
  shows "mc_table s q = Some (Own x a) \<Longrightarrow> x < mc_next s" "mc_target s = Some (p, x) \<Longrightarrow> x < mc_next s"
    "mc_target s = Some (p, x) \<Longrightarrow> mc_table s q = Some (Own x a) \<Longrightarrow> q = p"
  using assms unfolding serials_ok_def by blast+

lemma serials_okI:
  assumes "\<And>q x a. mc_table s q = Some (Own x a) \<Longrightarrow> x < mc_next s" "\<And>p x. mc_target s = Some (p, x) \<Longrightarrow> x < mc_next s"
    "\<And>p x q a. mc_target s = Some (p, x) \<Longrightarrow> mc_table s q = Some (Own x a) \<Longrightarrow> q = p"
  shows "serials_ok s"
  using assms unfolding serials_ok_def by blast

lemma serials_ok_cong:
  assumes "mc_table s' = mc_table s" "mc_next s' = mc_next s" "mc_target s' = mc_target s \<or> mc_target s' = None" "serials_ok s"
  shows "serials_ok s'"
proof (rule serials_okI)
  have t: "mc_target s = Some y" if "mc_target s' = Some y" for y using assms(3) that by auto
  show "x < mc_next s'" if "mc_table s' q = Some (Own x a)" for q x a
    using serials_okD(1) [OF assms(4)] that unfolding assms(1,2) .
  show "x < mc_next s'" if "mc_target s' = Some (p, x)" for p x
    using serials_okD(2) [OF assms(4) t [OF that]] unfolding assms(2) .
  show "q = p" if "mc_target s' = Some (p, x)" "mc_table s' q = Some (Own x a)" for p x q a
    using serials_okD(3) [OF assms(4) t [OF that(1)]] that(2) unfolding assms(1) .
qed

lemma handle_ok_cong: "mc_table s' = mc_table s \<Longrightarrow> mc_next s' = mc_next s \<Longrightarrow> handle_ok s' h = handle_ok s h"
  by (simp add: handle_ok_def)

lemma reaped_cong: "mc_table s' = mc_table s \<Longrightarrow> reaped s' x = reaped s x"
  by (simp add: reaped_def)

lemma held_cong: "mc_child s' = mc_child s \<Longrightarrow> new_handle (mc_phase s') = new_handle (mc_phase s) \<Longrightarrow> held s' h = held s h"
  by (simp add: held_def)

lemma sup_inv_shrinks:
  assumes inv: "sup_inv s" and "shrinks (mc_table s) t"
  shows "sup_inv (s\<lparr>mc_table := t\<rparr>)" (is "sup_inv ?s")
proof (rule sup_invI)
  have own: "\<exists>b. mc_table s q = Some (Own x b) \<and> (a \<longrightarrow> b)" if "t q = Some (Own x a)" for q x a
    using assms(2) that by (auto simp: shrinks_def)
  have h: "handle_ok ?s h" if "handle_ok s h" for h using that own by (fastforce simp: handle_ok_def)
  have "phase_ok ?s (mc_phase s) = phase_ok s (mc_phase s)" by (rule phase_ok_cong) simp_all
  then show "phase_ok ?s (mc_phase ?s)" using sup_invD(1) [OF inv] by simp
  show "handle_ok ?s (mc_child ?s)" using h [OF sup_invD(3) [OF inv]] by simp
  show "handle_ok ?s k" "fst k \<noteq> fst (mc_child ?s)" if "new_handle (mc_phase ?s) = Some k" for k
    using h [OF sup_invD(4) [OF inv]] sup_invD(5) [OF inv] that by simp_all
  show "reaped ?s (fst (mc_child ?s))" if "mc_phase ?s \<noteq> PWait" "\<not> mc_wait_failed ?s"
    using sup_invD(7) [OF inv] that own by (fastforce simp: reaped_def)
  show "serials_ok ?s"
  proof (rule serials_okI)
    note ok = serials_okD [OF sup_invD(2) [OF inv]]
    show "x < mc_next ?s" if "mc_table ?s q = Some (Own x a)" for q x a using own [of q x a] that ok(1) [of q x] by auto
    show "x < mc_next ?s" if "mc_target ?s = Some (p, x)" for p x using that ok(2) [of p x] by simp
    show "q = p" if "mc_target ?s = Some (p, x)" "mc_table ?s q = Some (Own x a)" for p x q a
      using own [of q x a] that ok(3) [of p x q] by auto
  qed
  show "held ?s (x, q)" if "mc_table ?s q = Some (Own x True)" for q x
    using own that sup_invD(6) [OF inv] by (fastforce simp: held_def)
qed

lemma shrinks_sigkill: "shrinks t (sigkill p t)"
  by (auto simp: shrinks_def sigkill_def split: option.splits holder.splits if_splits)

lemma shrinks_drop: "shrinks t (drop_handle h t)"
  by (auto simp: shrinks_def drop_handle_def split: option.splits holder.splits if_splits)

lemma shrinks_update: "v = None \<or> v = Some Other \<or> (\<exists>x b. t p = Some (Own x b) \<and> v = Some (Own x False)) \<Longrightarrow> shrinks t (t(p := v))"
  by (auto simp: shrinks_def)

lemma os_step_inv: "os_step s t \<Longrightarrow> sup_inv s \<Longrightarrow> sup_inv t"
  by (induction rule: os_step.induct) (auto intro!: sup_inv_shrinks shrinks_update)

lemma published_handle:
  assumes "sup_inv s" "mc_pid s \<noteq> 0"
  shows "\<exists>h. handle_ok s h \<and> published s = fst h \<and> mc_pid s = snd h"
  using sup_invD(1,3,4) [OF assms(1)] assms(2) by (cases "mc_phase s") (auto simp: published_def)

text \<open>A step that leaves the table and the handles alone.\<close>

lemma sup_inv_phase:
  assumes inv: "sup_inv s" and tab: "mc_table s' = mc_table s" "mc_child s' = mc_child s" "mc_next s' = mc_next s"
    and tgt: "mc_target s' = mc_target s \<or> mc_target s' = None"
    and ph: "phase_ok s' (mc_phase s')" "new_handle (mc_phase s') = new_handle (mc_phase s)"
    and waited: "mc_phase s' \<noteq> PWait \<Longrightarrow> \<not> mc_wait_failed s' \<Longrightarrow> mc_phase s \<noteq> PWait \<and> \<not> mc_wait_failed s"
  shows "sup_inv s'"
proof (rule sup_invI)
  note cong = handle_ok_cong [OF tab(1,3)] reaped_cong [OF tab(1)] held_cong [OF tab(2) ph(2)]
  show "phase_ok s' (mc_phase s')" by (rule ph)
  show "handle_ok s' (mc_child s')" using sup_invD(3) [OF inv] by (simp add: cong tab(2))
  show "handle_ok s' h" "fst h \<noteq> fst (mc_child s')" if "new_handle (mc_phase s') = Some h" for h
    using sup_invD(4,5) [OF inv] that by (simp_all add: cong tab(2) ph(2))
  show "held s' (x, q)" if "mc_table s' q = Some (Own x True)" for q x using sup_invD(6) [OF inv] that by (simp add: cong tab(1))
  show "reaped s' (fst (mc_child s'))" if "mc_phase s' \<noteq> PWait" "\<not> mc_wait_failed s'"
    using sup_invD(7) [OF inv] waited [OF that] by (simp add: cong tab(2))
  show "serials_ok s'" using tab(1,3) tgt sup_invD(2) [OF inv] by (rule serials_ok_cong)
qed

lemma read_inv:
  assumes inv: "sup_inv s" and "mc_pid s \<noteq> 0"
  shows "sup_inv (s\<lparr>mc_target := Some (mc_pid s, published s)\<rparr>)" (is "sup_inv ?t")
proof -
  obtain h where h: "handle_ok s h" "published s = fst h" "mc_pid s = snd h"
    using published_handle [OF assms] by blast
  have "handle_ok ?t = handle_ok s" "held ?t = held s" "reaped ?t = reaped s"
    by (simp_all add: handle_ok_def held_def reaped_def fun_eq_iff)
  note same = this
  show ?thesis
  proof (rule sup_invI)
    show "phase_ok ?t (mc_phase ?t)" using sup_invD(1) [OF inv] by (cases "mc_phase s") simp_all
    show "serials_ok ?t" using sup_invD(2) [OF inv] h by (simp add: serials_ok_def handle_ok_def)
  qed (use sup_invD(3-7) [OF inv] in \<open>simp_all add: same\<close>)
qed

lemma hb_step_inv: "hb_step s t \<Longrightarrow> sup_inv s \<Longrightarrow> sup_inv t"
proof (induction rule: hb_step.induct)
  case (hb_read s)
  then show ?case by (intro read_inv)
next
  case (hb_kill s p x)
  have "sup_inv (s\<lparr>mc_table := sigkill p (mc_table s)\<rparr>)" (is "sup_inv ?u")
    using hb_kill(2) by (rule sup_inv_shrinks [OF _ shrinks_sigkill])
  moreover have "phase_ok (?u\<lparr>mc_target := None, mc_hits := hs\<rparr>) (mc_phase s) = phase_ok ?u (mc_phase s)" for hs
    by (rule phase_ok_cong) simp_all
  ultimately show ?case using sup_invD(1) [of ?u] by - (rule sup_inv_phase [of ?u], simp_all)
qed

lemma wait_inv:
  assumes inv: "sup_inv s" and ph: "mc_phase s = PWait" and c: "mc_child s = (x, p)"
  shows "sup_inv (s\<lparr>mc_table := (mc_table s)(p := None), mc_phase := PWaited\<rparr>)" (is "sup_inv ?t")
proof -
  have u: "sup_inv (s\<lparr>mc_table := (mc_table s)(p := None)\<rparr>)" (is "sup_inv ?u")
    using inv by (rule sup_inv_shrinks) (rule shrinks_update, simp)
  have r: "reaped ?t x" using sup_invD(3) [OF inv] c by (auto simp: reaped_def handle_ok_def)
  show ?thesis
  proof (rule sup_invI)
    show "phase_ok ?t (mc_phase ?t)" using sup_invD(1) [OF inv] ph by simp
    show "reaped ?t (fst (mc_child ?t))" using r c by simp
    show "held ?t (y, q)" if "mc_table ?t q = Some (Own y True)" for q y
      using sup_invD(6) [OF u] that ph by (simp add: held_def)
    show "handle_ok ?t (mc_child ?t)" using sup_invD(3) [OF u] by (simp add: handle_ok_def)
    show "serials_ok ?t" by (rule serials_ok_cong [OF _ _ _ sup_invD(2) [OF u]]) simp_all
  qed simp_all
qed

lemma fork_inv:
  assumes inv: "sup_inv s" and ph: "mc_phase s = PRespawn b" and p: "mc_table s p = None" "p \<noteq> 0"
  shows "sup_inv (s\<lparr>mc_table := (mc_table s)(p \<mapsto> Own (mc_next s) True), mc_next := Suc (mc_next s), mc_phase := PStarting b (mc_next s, p)\<rparr>)"
    (is "sup_inv ?t")
proof -
  have fresh: "mc_table s q \<noteq> Some (Own (mc_next s) a)" for q a using serials_okD(1) [OF sup_invD(2) [OF inv], of q "mc_next s" a] by blast
  have own: "mc_table ?t q = Some (Own x a) \<longleftrightarrow> (if q = p then x = mc_next s \<and> a else mc_table s q = Some (Own x a))" for q x a
    by auto
  have old: "handle_ok s h \<Longrightarrow> handle_ok ?t h" for h
    using p(1) by (auto simp: handle_ok_def split: if_splits)
  have new: "handle_ok ?t (mc_next s, p)" using p(2) fresh by (auto simp: handle_ok_def split: if_splits)
  have lt: "fst (mc_child s) < mc_next s" using sup_invD(3) [OF inv] by (simp add: handle_ok_def)
  show ?thesis
  proof (rule sup_invI)
    show "phase_ok ?t (mc_phase ?t)" using sup_invD(1) [OF inv] ph by simp
    show "handle_ok ?t (mc_child ?t)" using old [OF sup_invD(3) [OF inv]] by simp
    show "serials_ok ?t"
    proof (rule serials_okI)
      note ok = serials_okD [OF sup_invD(2) [OF inv]]
      show "x < mc_next ?t" if "mc_table ?t q = Some (Own x a)" for q x a
        using that ok(1) [of q x a] unfolding own by (auto split: if_splits)
      show less: "x < mc_next ?t" if "mc_target ?t = Some (r, x)" for r x using that ok(2) [of r x] by simp
      show "q = r" if "mc_target ?t = Some (r, x)" "mc_table ?t q = Some (Own x a)" for r x q a
        using that ok(2) [of r x] ok(3) [of r x q a] unfolding own by (auto split: if_splits)
    qed
    show "handle_ok ?t h" "fst h \<noteq> fst (mc_child ?t)" if "new_handle (mc_phase ?t) = Some h" for h
      using that new lt by auto
    show "held ?t (x, q)" if "mc_table ?t q = Some (Own x True)" for q x
      using that sup_invD(6) [OF inv] ph unfolding own by (auto simp: held_def split: if_splits)
    show "reaped ?t (fst (mc_child ?t))" if "mc_phase ?t \<noteq> PWait" "\<not> mc_wait_failed ?t"
      using that sup_invD(7) [OF inv] ph lt by (auto simp: reaped_def)
  qed
qed

text \<open>A handle that is dropped leaves no running worker behind.\<close>

lemma drop_dead: "handle_ok s h \<Longrightarrow> drop_handle h (mc_table s) q \<noteq> Some (Own (fst h) True)"
  by (auto simp: handle_ok_def drop_handle_def split: option.splits holder.splits if_splits)

lemma start_fail_inv:
  assumes inv: "sup_inv s" and ph: "mc_phase s = PStarting b h"
  shows "sup_inv (s\<lparr>mc_table := drop_handle h (mc_table s), mc_phase := PRespawn (next_backoff b)\<rparr>)" (is "sup_inv ?t")
proof -
  have u: "sup_inv (s\<lparr>mc_table := drop_handle h (mc_table s)\<rparr>)" (is "sup_inv ?u")
    using inv by (rule sup_inv_shrinks [OF _ shrinks_drop])
  have h: "handle_ok s h" using sup_invD(4) [OF inv] ph by simp
  show ?thesis
  proof (rule sup_invI)
    show "phase_ok ?t (mc_phase ?t)"
      using sup_invD(1) [OF inv] ph by (simp add: next_backoff_def INITIAL_BACKOFF_def MAX_BACKOFF_def)
    show "held ?t (x, q)" if "mc_table ?t q = Some (Own x True)" for q x
      using sup_invD(6) [OF u, of q x] that ph drop_dead [OF h, of q] by (auto simp: held_def)
    show "handle_ok ?t (mc_child ?t)" using sup_invD(3) [OF u] by (simp add: handle_ok_def)
    show "reaped ?t (fst (mc_child ?t))" if "\<not> mc_wait_failed ?t" using sup_invD(7) [OF u] that ph by (simp add: reaped_def)
    show "serials_ok ?t" by (rule serials_ok_cong [OF _ _ _ sup_invD(2) [OF u]]) simp_all
  qed simp_all
qed

lemma hand_over_inv:
  assumes inv: "sup_inv s" and ph: "mc_phase s = PPublished h"
  shows "sup_inv (s\<lparr>mc_table := drop_handle (mc_child s) (mc_table s), mc_child := h, mc_wait_failed := False, mc_phase := PWait\<rparr>)"
    (is "sup_inv ?t")
proof -
  have u: "sup_inv (s\<lparr>mc_table := drop_handle (mc_child s) (mc_table s)\<rparr>)" (is "sup_inv ?u")
    using inv by (rule sup_inv_shrinks [OF _ shrinks_drop])
  show ?thesis
  proof (rule sup_invI)
    show "phase_ok ?t (mc_phase ?t)" using sup_invD(1) [OF inv] ph by simp
    show "held ?t (x, q)" if "mc_table ?t q = Some (Own x True)" for q x
    proof -
      have "held ?u (x, q)" using sup_invD(6) [OF u] that by simp
      moreover have "x \<noteq> fst (mc_child s)"
        using drop_dead [OF sup_invD(3) [OF inv], of q] that by (cases "x = fst (mc_child s)") simp_all
      ultimately show ?thesis using ph by (cases "mc_child s") (auto simp: held_def)
    qed
    show "handle_ok ?t (mc_child ?t)" using sup_invD(4) [OF u, of h] ph by (simp add: handle_ok_def)
    show "serials_ok ?t" by (rule serials_ok_cong [OF _ _ _ sup_invD(2) [OF u]]) simp_all
  qed simp_all
qed

lemma wd_step_inv: "wd_step s t \<Longrightarrow> sup_inv s \<Longrightarrow> sup_inv t"
proof (induction rule: wd_step.induct)
  case (wd_wait s x p)
  then show ?case by (intro wait_inv)
next
  case (wd_wait_err s)
  then show ?case using sup_invD(1) [of s] by - (rule sup_inv_phase [of s], simp_all)
next
  case (wd_clear_pid s)
  then show ?case using sup_invD(1) [of s] by - (rule sup_inv_phase [of s], simp_all)
next
  case (wd_clear_slot s)
  then show ?case using sup_invD(1) [of s] by - (rule sup_inv_phase [of s], simp_all add: INITIAL_BACKOFF_def MAX_BACKOFF_def)
next
  case (wd_fork_fail s b)
  then show ?case using sup_invD(1) [of s]
    by - (rule sup_inv_phase [of s], simp_all add: next_backoff_def INITIAL_BACKOFF_def MAX_BACKOFF_def)
next
  case (wd_fork s b p)
  then show ?case by (intro fork_inv)
next
  case (wd_start_fail s b h)
  then show ?case by (intro start_fail_inv)
next
  case (wd_set_pid s b h)
  then show ?case using sup_invD(1) [of s] by - (rule sup_inv_phase [of s], simp_all)
next
  case (wd_publish s h)
  then show ?case using sup_invD(1) [of s] by - (rule sup_inv_phase [of s], simp_all)
next
  case (wd_hand_over s h)
  then show ?case by (intro hand_over_inv)
qed

interpretation supervisor: invariant_system sup_init sup_step sup_inv
proof
  fix s
  assume "sup_init s"
  then show "sup_inv s" by (auto simp: sup_init_def sup_start_def sup_inv_def serials_ok_def handle_ok_def held_def split: if_splits)
next
  fix s t
  assume "sup_step s t" and "sup_inv s"
  then show "sup_inv t" by (auto simp: sup_step_def intro: wd_step_inv hb_step_inv os_step_inv)
qed

text \<open>The workers that run.\<close>

definition running :: "machine \<Rightarrow> nat set" where
  "running s = {x. \<exists>p. mc_table s p = Some (Own x True)}"

lemma running_handles:
  assumes "sup_inv s"
  shows "running s \<subseteq> insert (fst (mc_child s)) (fst ` set_option (new_handle (mc_phase s)))"
proof
  fix x assume "x \<in> running s"
  then obtain p where "held s (x, p)" using sup_invD(6) [OF assms] by (auto simp: running_def)
  then show "x \<in> insert (fst (mc_child s)) (fst ` set_option (new_handle (mc_phase s)))"
    by (cases "mc_child s") (auto simp: held_def image_iff)
qed

lemma running_one:
  assumes "sup_inv s" "\<not> mc_wait_failed s"
  shows "\<exists>y. running s \<subseteq> {y}"
proof (cases "mc_phase s = PWait")
  case True
  then show ?thesis using running_handles [OF assms(1)] by auto
next
  case False
  then have "fst (mc_child s) \<notin> running s"
    using sup_invD(7) [OF assms(1)] assms(2) by (auto simp: reaped_def running_def)
  then show ?thesis using running_handles [OF assms(1)] by (cases "new_handle (mc_phase s)") auto
qed

section \<open>Lemmas on backoff and heartbeat\<close>

lemma respawn_sleeps:
  "k < length (fst (respawn b attempts s)) \<Longrightarrow> b \<le> MAX_BACKOFF \<Longrightarrow>
   fst (respawn b attempts s) ! k = min (b * 2 ^ k) MAX_BACKOFF"
proof (induction b attempts s arbitrary: k rule: respawn.induct)
  case (3 b e attempts s)
  have "min (next_backoff b * 2 ^ j) MAX_BACKOFF = min (b * 2 ^ Suc j) MAX_BACKOFF" for j
  proof (cases "b * 2 \<le> MAX_BACKOFF")
    case False
    then have "MAX_BACKOFF \<le> b * 2 ^ Suc j"
      by (metis mult.assoc mult_le_mono2 nat_le_linear one_le_numeral one_le_power order_trans mult_1_right power_Suc)
    moreover have "MAX_BACKOFF \<le> next_backoff b * 2 ^ j"
      using False by (simp add: next_backoff_def)
    ultimately show ?thesis by simp
  qed (simp add: next_backoff_def)
  with 3 show ?case
    by (cases k) (auto simp: next_backoff_def split: prod.splits)
qed auto

text \<open>The failures since the last good, skipped or killing tick, most recent outcome first.\<close>

fun streak :: "HeartbeatOutcome list \<Rightarrow> nat" where
  "streak (Failed # os) = Suc (streak os)"
| "streak (Suppressed # os) = streak os"
| "streak _ = 0"

fun heartbeat_fails :: "HeartbeatConfig \<Rightarrow> nat \<Rightarrow> tick list \<Rightarrow> nat" where
  "heartbeat_fails cfg fails [] = fails"
| "heartbeat_fails cfg fails (t # ts) = heartbeat_fails cfg (fst (snd (heartbeat_tick cfg t fails))) ts"

lemma heartbeat_tick_streak:
  "fails = streak hist \<Longrightarrow> fst (snd (heartbeat_tick cfg t fails)) = streak (fst (heartbeat_tick cfg t fails) # hist)"
  by (auto simp: heartbeat_tick_def Let_def split: prod.splits)

lemma heartbeat_fails_streak:
  "fails = streak hist \<Longrightarrow> heartbeat_fails cfg fails ts = streak (rev (heartbeat_loop cfg fails ts) @ hist)"
proof (induction ts arbitrary: fails hist)
  case (Cons t ts)
  from Cons.IH [OF heartbeat_tick_streak [OF Cons.prems], of cfg t] show ?case
    by (simp split: prod.splits)
qed simp

lemma heartbeat_loop_append:
  "heartbeat_loop cfg fails (ts @ us) =
     heartbeat_loop cfg fails ts @ heartbeat_loop cfg (heartbeat_fails cfg fails ts) us"
  by (induction ts arbitrary: fails) (auto split: prod.splits)

lemma heartbeat_loop_kills:
  assumes "\<forall>t \<in> set ts. tk_client t \<and> fst (probe_result (tk_probe t)) \<and> \<not> fresh cfg t \<and> tk_pid t \<noteq> 0"
    and "heartbeat_max_fails cfg \<le> fails + length ts" and "fails < heartbeat_max_fails cfg"
  shows "Killed \<in> set (heartbeat_loop cfg fails ts)"
  using assms
proof (induction ts arbitrary: fails)
  case (Cons t ts)
  then have t: "heartbeat_tick cfg t fails =
      (if fails + 1 < heartbeat_max_fails cfg then (Failed, fails + 1, [snd (probe_result (tk_probe t))], None)
       else (Killed, 0, [snd (probe_result (tk_probe t)), ''kill''], Some (tk_pid t)))"
    by (auto simp: heartbeat_tick_def Let_def split: prod.splits)
  with Cons show ?case by simp
qed simp

text \<open>A rerank response that comes out of a dispatch has as many scores as there are documents.\<close>

lemma pool_dispatch_rerank_checked:
  "pool_dispatch_rerank w q docs msl p model start obs now = Some (Inr (RespRerank r), p') \<Longrightarrow> length (ro_scores r) = length docs"
  using client_dispatch_Inr(2) [where resp = "RespRerank r"]
  by (fastforce simp: pool_dispatch_rerank_def pool_dispatch_def finish_dispatch_def split: option.splits sum.splits prod.splits)

lemma finish_dispatch_stamp:
  "finish_dispatch now r s = (out, s') \<Longrightarrow>
   s' = (case out of Inr (RespErr _ _) \<Rightarrow> s | Inr _ \<Rightarrow> record_success now s | Inl _ \<Rightarrow> s)"
  by (auto simp: finish_dispatch_def split: sum.splits WorkerResponse.splits)

section \<open>Properties\<close>

text \<open>
  C14. When the heartbeat kills. Over any history of ticks, a tick sends SIGKILL exactly when a
  client is connected, the probe failed (timed out, failed to dispatch or was answered with
  an error), no real inference succeeded within the freshness window, the worker's process
  id is known, and it is at least the configured number of failures since the last good,
  skipped or killing tick, suppressed failures not counted.
\<close>

theorem heartbeat_kill_iff:
  "last (heartbeat_loop cfg 0 (ts @ [t])) = Killed \<longleftrightarrow>
     tk_client t \<and> fst (probe_result (tk_probe t)) \<and> \<not> fresh cfg t \<and> tk_pid t \<noteq> 0 \<and>
     heartbeat_max_fails cfg \<le> Suc (streak (rev (heartbeat_loop cfg 0 ts)))"
proof -
  have "heartbeat_fails cfg 0 ts = streak (rev (heartbeat_loop cfg 0 ts))"
    using heartbeat_fails_streak [of 0 "[]"] by simp
  then show ?thesis
    by (auto simp: heartbeat_loop_append heartbeat_tick_def Let_def split: prod.splits)
qed

text \<open>
  C15. A wedged worker is killed: if from some point on every probe of a connected worker with
  a known process id fails and no real inference is fresh, a kill happens within as many
  ticks as the configured number of failures.
\<close>

theorem heartbeat_detects_wedge:
  assumes "\<forall>t \<in> set ts. tk_client t \<and> fst (probe_result (tk_probe t)) \<and> \<not> fresh cfg t \<and> tk_pid t \<noteq> 0"
    and "length ts = heartbeat_max_fails cfg" and "0 < heartbeat_max_fails cfg"
  shows "Killed \<in> set (drop (length before) (heartbeat_loop cfg 0 (before @ ts)))"
proof -
  have len: "length (heartbeat_loop cfg f us) = length us" for f us
    by (induction us arbitrary: f) (auto split: prod.splits)
  have "Killed \<in> set (heartbeat_loop cfg f ts)" for f
  proof (cases "f < heartbeat_max_fails cfg")
    case True
    then show ?thesis using assms by (intro heartbeat_loop_kills) auto
  next
    case False
    with assms show ?thesis by (cases ts) (auto simp: heartbeat_tick_def Let_def split: prod.splits)
  qed
  then show ?thesis by (simp add: heartbeat_loop_append len)
qed


text \<open>
  C0. The heartbeat can kill a process that is no worker. If the worker exits and is reaped
  between the moment its process id is read and the signal, the process id may be given to
  another process, and that receives the \<open>SIGKILL\<close>: such a state is reachable from every
  launched supervisor.
\<close>

theorem heartbeat_pid_reuse:
  assumes "p \<noteq> 0"
  shows "\<exists>s. sup_step\<^sup>*\<^sup>* (sup_start p) s \<and> (0, Some Other) \<in> set (mc_hits s)"
proof -
  let ?s1 = "(sup_start p)\<lparr>mc_target := Some (p, 0)\<rparr>"
  let ?s2 = "?s1\<lparr>mc_table := [p \<mapsto> Own 0 False]\<rparr>"
  let ?s3 = "?s1\<lparr>mc_table := Map.empty, mc_phase := PWaited\<rparr>"
  let ?s4 = "?s3\<lparr>mc_table := [p \<mapsto> Other]\<rparr>"
  let ?s5 = "?s4\<lparr>mc_target := None, mc_hits := [(0, Some Other)]\<rparr>"
  have "sup_step (sup_start p) ?s1"
    using hb_read [of "sup_start p"] assms by (simp add: sup_step_def sup_start_def published_def)
  moreover have "sup_step ?s1 ?s2" using os_exit [of ?s1 p 0] by (simp add: sup_step_def sup_start_def)
  moreover have "sup_step ?s2 ?s3" using wd_wait [of ?s2 0 p] by (simp add: sup_step_def sup_start_def)
  moreover have "sup_step ?s3 ?s4" using os_other_start [of ?s3 p] assms by (simp add: sup_step_def sup_start_def)
  moreover have "sup_step ?s4 ?s5" using hb_kill [of ?s4 p 0] by (simp add: sup_step_def sup_start_def sigkill_def)
  ultimately have "sup_step\<^sup>*\<^sup>* (sup_start p) ?s5"
    by (meson converse_rtranclp_into_rtranclp r_into_rtranclp)
  then show ?thesis by (intro exI [of _ ?s5]) simp
qed

text \<open>
  The respawn schedule: after an exit the attempts wait 2, 4, 8, 16, 32 and then always
  60 seconds, whatever happened before; the loop ends with the first successful attempt,
  which publishes the worker and counts one restart.
\<close>

lemma respawn_schedule:
  "(k < length (fst (respawn INITIAL_BACKOFF attempts s)) \<longrightarrow>
      fst (respawn INITIAL_BACKOFF attempts s) ! k = min (2000 * 2 ^ k) 60000) \<and>
   respawn INITIAL_BACKOFF (map Inl errs @ Inr (pid, c) # rest) s =
     (fst (respawn INITIAL_BACKOFF (map Inl errs @ [Inr (pid, c)]) s), Some (adopt (pid, c) s)) \<and>
   length (fst (respawn INITIAL_BACKOFF (map Inl errs @ [Inr (pid, c)]) s)) = Suc (length errs) \<and>
   client_slot (adopt (pid, c) s) = Some c \<and> restart_count (adopt (pid, c) s) = restart_count s + 1"
proof -
  have "respawn b (map Inl errs @ Inr (pid, c) # rest) s =
      (fst (respawn b (map Inl errs @ [Inr (pid, c)]) s), Some (adopt (pid, c) s)) \<and>
      length (fst (respawn b (map Inl errs @ [Inr (pid, c)]) s)) = Suc (length errs)" for b
    by (induction errs arbitrary: b) (simp_all add: case_prod_beta)
  moreover have "client_slot (adopt (pid, c) s) = Some c \<and> restart_count (adopt (pid, c) s) = restart_count s + 1"
    by (auto simp: adopt_def Let_def split: option.splits)
  ultimately show ?thesis
    using respawn_sleeps [of k INITIAL_BACKOFF attempts s] by (simp add: INITIAL_BACKOFF_def MAX_BACKOFF_def)
qed


text \<open>
  The heartbeat cannot be switched off by the environment: whatever the variables hold, the
  resolved interval, failure budget, probe timeout, freshness window and socket wait are
  positive; in particular an interval of 0 is replaced by the default of 30 seconds and
  reported.
\<close>

lemma launch_config_positive:
  "case launch_config e of (cfg, keys) \<Rightarrow>
     0 < heartbeat_interval cfg \<and> 0 < heartbeat_max_fails cfg \<and> 0 < heartbeat_probe_timeout cfg \<and>
     0 < heartbeat_freshness_window cfg \<and> 0 < socket_wait cfg \<and>
     (e ''EMBED_WORKER_HEARTBEAT_INTERVAL_SECS'' = Some ''0'' \<longrightarrow>
        heartbeat_interval cfg = 30000 \<and> ''EMBED_WORKER_HEARTBEAT_INTERVAL_SECS'' \<in> set keys)"
proof -
  have pos: "0 < d \<Longrightarrow> 0 < fst (resolve_duration_secs_env e k d)" for k d
    by (auto simp: resolve_duration_secs_env_def split: option.splits)
  have "0 < d \<Longrightarrow> 0 < positive_env w e k d" for w k d
    by (auto simp: positive_env_def split: option.splits)
  moreover have "0 < d \<Longrightarrow> 0 < default_freshness_window d" for d
    by (auto simp: default_freshness_window_def)
  moreover have "resolve_duration_secs_env e k d = (d, [k])" if "e k = Some ''0''" for k d
    using that by (simp add: resolve_duration_secs_env_def trim_def is_ws_def parse_uint_def is_digit_def)
  ultimately show ?thesis
    using pos
    by (auto simp: launch_config_def Let_def SOCKET_WAIT_SECS_def HEARTBEAT_INTERVAL_SECS_def HEARTBEAT_MAX_FAILS_def
        HEARTBEAT_PROBE_TIMEOUT_MS_def split: prod.splits) (metis fst_conv zero_less_numeral)+
qed

section \<open>Witnesses\<close>

definition wit_hb_config :: HeartbeatConfig where
  "wit_hb_config = \<lparr>socket_wait = 60000, heartbeat_interval = 30000, heartbeat_max_fails = 2,
     heartbeat_probe_timeout = 15000, heartbeat_freshness_window = 90000\<rparr>"

definition wit_tick :: "nat \<Rightarrow> tick" where
  "wit_tick l = \<lparr>tk_client = True, tk_probe = TimedOut, tk_now = 500000, tk_last = l, tk_pid = 42\<rparr>"

theorem heartbeat_detects_wedge_witness:
  "Killed \<in> set (drop (length [wit_tick 499000]) (heartbeat_loop wit_hb_config 0 ([wit_tick 499000] @ [wit_tick 0, wit_tick 0])))"
  by (rule heartbeat_detects_wedge) (simp_all add: wit_tick_def wit_hb_config_def fresh_def)


theorem heartbeat_pid_reuse_witness: "\<exists>s. sup_step\<^sup>*\<^sup>* (sup_start 7) s \<and> (0, Some Other) \<in> set (mc_hits s)"
  by (rule heartbeat_pid_reuse) simp

definition wit_sup :: WorkerSupervisor where
  "wit_sup = \<lparr>sup_spec = \<lparr>spec_model = ''m'', spec_kind = KEmbed, spec_worker_bin = ''w'', spec_socket_dir = ''/run'', spec_pool_size = 1,
       spec_intra_threads = 1, spec_env_extra = []\<rparr>,
     client_slot = None, restart_count = 0, current_pid = 0, last_success_ms = 0\<rparr>"

definition wit_client :: WorkerClient where
  "wit_client = \<lparr>socket_path = ''s'', permits = 1, request_counter = 0\<rparr>"


end
