(* ===== verification/Api_Health.thy ===== *)
theory Api_Health
  imports Api_Embeddings Supervisor
begin

text \<open>
  Liveness and readiness (\<open>src/src/api_health.rs\<close>). The readiness probe embeds one word with
  the default model, through the worker pool or in the process, and maps every outcome of the
  three nested results to a status. Whether the probe ends within its limit is a parameter.
\<close>

section \<open>The endpoints\<close>

definition health :: string where "health = ''ok''"

record ReadyResponse =
  ry_status :: string
  ry_model :: "string option"
  ry_error :: "string option"

fun dispatch_display :: "DispatchError \<Rightarrow> string" where
  "dispatch_display (NoWorker model) = ''no worker for model '' @ model"
| "dispatch_display (Timeout model secs) =
     ''worker for model '' @ model @ '' unavailable after '' @ show_nat secs @ ''s (respawn in progress)''"
| "dispatch_display (IpcError e) = io_display e"

text \<open>Status code, body and the label of the probe metric.\<close>

type_synonym ready_answer = "nat \<times> ReadyResponse \<times> string"

definition not_ready :: "string option \<Rightarrow> string \<Rightarrow> string \<Rightarrow> ready_answer" where
  "not_ready model err label = (503, \<lparr>ry_status = ''not ready'', ry_model = model, ry_error = Some err\<rparr>, label)"

definition is_ready :: "string option \<Rightarrow> string option \<Rightarrow> ready_answer" where
  "is_ready model err = (200, \<lparr>ry_status = ''ready'', ry_model = model, ry_error = err\<rparr>, ''ok'')"

text \<open>\<open>tokio::time::timeout\<close>: the future's value if it completes within the limit.\<close>

definition with_timeout :: "(nat \<Rightarrow> bool) \<Rightarrow> nat \<Rightarrow> 'a \<Rightarrow> 'a timed" where
  "with_timeout completes limit x = (if completes limit then InTime x else TimedOut)"

definition ready_via_pool :: "(nat \<Rightarrow> bool) \<Rightarrow> nat \<Rightarrow> embed_dispatch \<Rightarrow> string \<Rightarrow> ready_answer" where
  "ready_via_pool completes limit dispatch model =
     (case with_timeout completes limit (dispatch model [''test''] 8) of
        InTime (Inr (RespEmbed _)) \<Rightarrow> is_ready (Some model) None
      | InTime (Inr (RespErr _ msg)) \<Rightarrow> not_ready (Some model) (''worker error: '' @ msg) ''error''
      | InTime (Inr _) \<Rightarrow> not_ready (Some model) ''unexpected response kind'' ''error''
      | InTime (Inl e) \<Rightarrow> not_ready (Some model) (''dispatch failed: '' @ dispatch_display e) ''error''
      | TimedOut \<Rightarrow> not_ready (Some model)
          (''probe timed out after '' @ show_nat limit @ ''ms (worker may be wedged)'') ''timeout'')"

text \<open>The blocking task of the in-process probe.\<close>

definition probe_task :: "embed_session \<Rightarrow> (string + fvec list) joined" where
  "probe_task ses =
     (case ses_tokenize ses [''test''] of
        JoinPanic e \<Rightarrow> JoinPanic e
      | Joined (Inl e) \<Rightarrow> Joined (Inl e)
      | Joined (Inr ids) \<Rightarrow> ses_embed ses ids)"

definition ready_in_process :: "(nat \<Rightarrow> bool) \<Rightarrow> nat \<Rightarrow> embed_session \<Rightarrow> string \<Rightarrow> ready_answer" where
  "ready_in_process completes limit ses model =
     (case with_timeout completes limit (probe_task ses) of
        InTime (Joined (Inr _)) \<Rightarrow> is_ready (Some model) None
      | InTime (Joined (Inl e)) \<Rightarrow> not_ready (Some model) (''inference failed: '' @ e) ''error''
      | InTime (JoinPanic e) \<Rightarrow> not_ready (Some model) (''probe task panicked: '' @ e) ''error''
      | TimedOut \<Rightarrow> not_ready (Some model)
          (''probe timed out after '' @ show_nat limit @ ''ms (model may be wedged)'') ''timeout'')"

definition ready :: "(nat \<Rightarrow> bool) \<Rightarrow> nat \<Rightarrow> AppState \<Rightarrow> ready_answer" where
  "ready completes limit st =
     (if shutdown_cancelled st then not_ready None ''shutting down'' ''shutdown''
      else case worker_pool st of
        Some dispatch \<Rightarrow> ready_via_pool completes limit dispatch (default_model st)
      | None \<Rightarrow>
          (case app_models st (default_model st) of
             None \<Rightarrow> is_ready None (Some ''no models configured'')
           | Some entry \<Rightarrow>
               (case me_model entry of
                  None \<Rightarrow> not_ready (Some (default_model st)) ''no in-process model and no worker pool'' ''error''
                | Some ses \<Rightarrow> ready_in_process completes limit ses (default_model st))))"

section \<open>Readiness\<close>

lemma ready_answer_status [simp]:
  "fst (not_ready model err label) = 503" "fst (is_ready model err') = 200"
  "snd (snd (not_ready model err label)) = label" "snd (snd (is_ready model err')) = ''ok''"
  by (simp_all add: not_ready_def is_ready_def)

lemma ready_via_pool_cases:
  "ready_via_pool completes limit dispatch model = is_ready (Some model) None \<and>
     completes limit \<and> (\<exists>ok. dispatch model [''test''] 8 = Inr (RespEmbed ok)) \<or>
   (\<exists>err label. ready_via_pool completes limit dispatch model = not_ready (Some model) err label \<and> label \<in> {''error'', ''timeout''}) \<and>
     \<not> (completes limit \<and> (\<exists>ok. dispatch model [''test''] 8 = Inr (RespEmbed ok)))"
  unfolding ready_via_pool_def with_timeout_def
  by (cases "dispatch model [''test''] 8"; cases "completes limit") (auto split: WorkerResponse.split)

lemma ready_in_process_cases:
  "ready_in_process completes limit ses model = is_ready (Some model) None \<and>
     completes limit \<and> (\<exists>v. probe_task ses = Joined (Inr v)) \<or>
   (\<exists>err label. ready_in_process completes limit ses model = not_ready (Some model) err label \<and> label \<in> {''error'', ''timeout''}) \<and>
     \<not> (completes limit \<and> (\<exists>v. probe_task ses = Joined (Inr v)))"
  unfolding ready_in_process_def with_timeout_def
  by (cases "probe_task ses"; cases "completes limit") (auto split: sum.split)

text \<open>
  C34. The readiness probe tells the truth. It answers 200 or 503, the metric says \<open>ok\<close> exactly
  with 200, and 200 means: the server is not shutting down and the test embedding with the
  default model came back as vectors within the limit, from its worker or from the model in
  the process; or the process has no worker pool and the default model is not registered.
  A failed inference, a panic, an answer of another kind, a dispatch error and a probe that
  does not end in time all give 503.
\<close>

theorem ready_iff:
  "fst (ready completes limit st) \<in> {200, 503} \<and>
   (snd (snd (ready completes limit st)) = ''ok'' \<longleftrightarrow> fst (ready completes limit st) = 200) \<and>
   (fst (ready completes limit st) = 200 \<longleftrightarrow>
      \<not> shutdown_cancelled st \<and>
      (case worker_pool st of
         Some dispatch \<Rightarrow> completes limit \<and> (\<exists>ok. dispatch (default_model st) [''test''] 8 = Inr (RespEmbed ok))
       | None \<Rightarrow> (case app_models st (default_model st) of
           None \<Rightarrow> True
         | Some entry \<Rightarrow> (\<exists>ses v. me_model entry = Some ses \<and> completes limit \<and> probe_task ses = Joined (Inr v)))))"
proof (cases "shutdown_cancelled st")
  case False
  note pool_cases = ready_via_pool_cases [of completes limit _ "default_model st"]
  note local_cases = ready_in_process_cases [of completes limit _ "default_model st"]
  show ?thesis
  proof (cases "worker_pool st")
    case (Some dispatch)
    then show ?thesis using False pool_cases [of dispatch] by (auto simp: ready_def)
  next
    case None
    then show ?thesis
    proof (cases "app_models st (default_model st)")
      case entry: (Some entry)
      show ?thesis
      proof (cases "me_model entry")
        case ses: (Some ses)
        then show ?thesis using None False entry local_cases [of ses] by (auto simp: ready_def)
      qed (use None False entry in \<open>simp add: ready_def\<close>)
    qed (use False in \<open>simp add: ready_def\<close>)
  qed
qed (simp add: ready_def)

end
