(* ===== verification/Worker.thy ===== *)
theory Worker
  imports Supervisor Api_Splade
begin

text \<open>
  The worker process (\<open>src/src/bin/worker.rs\<close>, \<open>src/src/worker_waiters.rs\<close>): its start-up, the
  answer to one request, one connection served to its end, and the admission of concurrent
  connections by the waiter counter and the semaphore as a transition system. A loaded model
  is its inference function; \<open>JoinPanic\<close> is a panic inside \<open>spawn_blocking\<close>.
\<close>

section \<open>Settings\<close>

definition INTRA_THREADS :: nat where "INTRA_THREADS = 2"
definition POOL_SIZE :: nat where "POOL_SIZE = 1"
definition WAITERS_POOL_MULTIPLIER :: nat where "WAITERS_POOL_MULTIPLIER = 8"
definition WAITERS_FLOOR :: nat where "WAITERS_FLOOR = 16"

definition resolve_max_waiters_for_model :: "env \<Rightarrow> nat \<Rightarrow> string \<Rightarrow> nat" where
  "resolve_max_waiters_for_model e pool_size model_name =
     (let formula_default = max (sat_mul pool_size WAITERS_POOL_MULTIPLIER) WAITERS_FLOOR;
          global = (case e ''EMBED_MAX_WAITERS'' of
              None \<Rightarrow> formula_default
            | Some raw \<Rightarrow> (case parse_usize (trim raw) of
                Some n \<Rightarrow> if 0 < n then n else formula_default
              | None \<Rightarrow> formula_default))
      in case e (''EMBED_MAX_WAITERS_'' @ model_env_key model_name) of
           None \<Rightarrow> global
         | Some raw \<Rightarrow> (case parse_usize (trim raw) of
             Some n \<Rightarrow> if 0 < n then n else global
           | None \<Rightarrow> global))"

definition require_env :: "env \<Rightarrow> string \<Rightarrow> string + string" where
  "require_env e var = (case e var of Some v \<Rightarrow> Inr v | None \<Rightarrow> Inl (''required env var missing: '' @ var))"

text \<open>The result of the registration and whether the failure counter is incremented.\<close>

definition handle_arena_registration :: "string + unit \<Rightarrow> (string + unit) \<times> bool" where
  "handle_arena_registration r =
     (case r of Inr u \<Rightarrow> (Inr u, False) | Inl e \<Rightarrow> (Inl (''shared arena registration failed: '' @ e), True))"

section \<open>Loading\<close>

datatype LoadedModel =
    LoadedEmbed "string list \<Rightarrow> 32 word \<Rightarrow> (string + f32 list list \<times> 32 word) joined"
  | LoadedRerank "string \<Rightarrow> string list \<Rightarrow> 32 word \<Rightarrow> (string + f32 list) joined"
  | LoadedSplade "string list \<Rightarrow> 32 word \<Rightarrow> 32 word \<Rightarrow> f32 \<Rightarrow> (string + sparse_vec list) joined"

fun loaded_kind :: "LoadedModel \<Rightarrow> string" where
  "loaded_kind (LoadedEmbed _) = ''embed''"
| "loaded_kind (LoadedRerank _) = ''rerank''"
| "loaded_kind (LoadedSplade _) = ''splade''"

text \<open>
  The three \<open>load\<close> functions: the definition is looked up by name, then the model files are
  loaded, which is the parameter (with the threads and the pool size).
\<close>

record loaders =
  ld_embed :: "ModelDef \<Rightarrow> nat \<Rightarrow> bool \<Rightarrow> nat \<Rightarrow> nat \<Rightarrow> string + LoadedModel"
  ld_rerank :: "RerankerModelDef \<Rightarrow> nat \<Rightarrow> nat \<Rightarrow> string + LoadedModel"
  ld_splade :: "SpladeModelDef \<Rightarrow> nat \<Rightarrow> nat \<Rightarrow> string + LoadedModel"

definition load_embed :: "loaders \<Rightarrow> string \<Rightarrow> Config \<Rightarrow> nat \<Rightarrow> nat \<Rightarrow> string + LoadedModel" where
  "load_embed ld nm cfg intra psz =
     (case List.find (\<lambda>d. md_name d = nm) (cfg_models cfg) of
        None \<Rightarrow> Inl (''model '' @ nm @ '' not found in EMBED_MODELS'')
      | Some d \<Rightarrow> ld_embed ld d intra (cfg_auto_truncate cfg) psz (cfg_idle_evict_secs cfg))"

definition load_rerank :: "loaders \<Rightarrow> string \<Rightarrow> Config \<Rightarrow> nat \<Rightarrow> nat \<Rightarrow> string + LoadedModel" where
  "load_rerank ld nm cfg intra psz =
     (case List.find (\<lambda>d. rd_name d = nm) (cfg_rerankers cfg) of
        None \<Rightarrow> Inl (''reranker '' @ nm @ '' not found in RERANKER_MODELS'')
      | Some d \<Rightarrow> ld_rerank ld d intra psz)"

definition load_splade :: "loaders \<Rightarrow> string \<Rightarrow> Config \<Rightarrow> nat \<Rightarrow> nat \<Rightarrow> string + LoadedModel" where
  "load_splade ld nm cfg intra psz =
     (case List.find (\<lambda>d. sd_name d = nm) (cfg_splades cfg) of
        None \<Rightarrow> Inl (''splade '' @ nm @ '' not found in SPLADE_MODELS'')
      | Some d \<Rightarrow> ld_splade ld d intra psz)"

definition env_number :: "env \<Rightarrow> string \<Rightarrow> nat \<Rightarrow> string + nat" where
  "env_number e var dflt =
     (case parse_int 64 (env_or e var (show_nat dflt)) of Inr n \<Rightarrow> Inr n | Inl k \<Rightarrow> Inl (int_error_text k))"

text \<open>
  The start-up of \<open>main\<close> up to the listening socket: the loaded model, the size of the
  semaphore and the waiter cap, or the error the process exits with.
\<close>

definition worker_start :: "loaders \<Rightarrow> (string \<Rightarrow> string + unit) \<Rightarrow> env \<Rightarrow> string + LoadedModel \<times> nat \<times> nat" where
  "worker_start ld register_arena e =
     (let kind = env_or e ''EMBED_WORKER_KIND'' ''embed'' in
      bind_res (require_env e ''EMBED_WORKER_MODEL'') (\<lambda>nm.
      bind_res (require_env e ''EMBED_WORKER_SOCKET'') (\<lambda>_.
      bind_res (env_number e ''EMBED_WORKER_INTRA_THREADS'' INTRA_THREADS) (\<lambda>intra.
      bind_res (env_number e ''EMBED_WORKER_POOL_SIZE'' POOL_SIZE) (\<lambda>psz.
        let max_waiters = resolve_max_waiters_for_model e psz nm in
        bind_res (case from_env e of Inl x \<Rightarrow> Inl (''config: '' @ x) | Inr c \<Rightarrow> Inr c) (\<lambda>cfg.
        bind_res (fst (handle_arena_registration (register_arena nm))) (\<lambda>_.
        let load_failed = (\<lambda>r. case r of Inl x \<Rightarrow> Inl (''load failed: '' @ x) | Inr l \<Rightarrow> Inr l) in
        bind_res (if kind = ''embed'' then load_failed (load_embed ld nm cfg intra psz)
                  else if kind = ''rerank'' then load_failed (load_rerank ld nm cfg intra psz)
                  else if kind = ''splade'' then load_failed (load_splade ld nm cfg intra psz)
                  else Inl (''unknown EMBED_WORKER_KIND: '' @ kind)) (\<lambda>loaded.
          Inr (loaded, psz, max_waiters)))))))))"

section \<open>One request\<close>

text \<open>The blocking task: the match on the loaded model and the request.\<close>

definition reply_with :: "64 word \<Rightarrow> ('a \<Rightarrow> WorkerResponse) \<Rightarrow> (string + 'a) joined \<Rightarrow> WorkerResponse" where
  "reply_with i ok r =
     (case r of
        Joined (Inr x) \<Rightarrow> ok x
      | Joined (Inl e) \<Rightarrow> RespErr i e
      | JoinPanic e \<Rightarrow> RespErr i (''spawn_blocking join error: '' @ e))"

fun serve_request :: "LoadedModel \<Rightarrow> WorkerRequest \<Rightarrow> WorkerResponse" where
  "serve_request (LoadedEmbed infer) (ReqEmbed r) =
     reply_with (em_request_id r)
       (\<lambda>(vectors, dims). RespEmbed \<lparr>eo_request_id = em_request_id r, eo_vectors = vectors, eo_dims = dims\<rparr>)
       (infer (em_texts r) (em_max_seq_len r))"
| "serve_request (LoadedRerank score) (ReqRerank r) =
     reply_with (rr_request_id r) (\<lambda>scores. RespRerank \<lparr>ro_request_id = rr_request_id r, ro_scores = scores\<rparr>)
       (score (rr_query r) (rr_documents r) (rr_max_seq_len r))"
| "serve_request (LoadedSplade encode) (ReqSplade r) =
     reply_with (sp_request_id r) (\<lambda>sparse. RespSplade \<lparr>so_request_id = sp_request_id r, so_sparse = sparse\<rparr>)
       (encode (sp_texts r) (sp_max_seq_len r) (sp_top_k r) (sp_min_weight r))"
| "serve_request l req =
     RespErr (req_request_id req) (''kind mismatch: model is '' @ loaded_kind l @ '', request is '' @ req_kind req)"

definition overflow_response :: "WorkerRequest \<Rightarrow> WorkerResponse" where
  "overflow_response req = RespErr (req_request_id req) ''worker queue overflow''"

text \<open>The batch size recorded with the inference time: completed embeddings only.\<close>

definition inference_recorded :: "WorkerRequest \<Rightarrow> WorkerResponse \<Rightarrow> nat option" where
  "inference_recorded req resp =
     (case req of ReqEmbed r \<Rightarrow> (case resp of RespErr _ _ \<Rightarrow> None | _ \<Rightarrow> Some (length (em_texts r))) | _ \<Rightarrow> None)"

section \<open>One connection\<close>

text \<open>
  A connection without contention: frames are read until one cannot be, each is answered, and
  an answer that cannot be written ends the connection. The fuel bounds the number of
  frames; every frame takes at least four bytes, so the length of the stream is enough.
\<close>

record codec =
  dec_req :: "bytes \<Rightarrow> string + WorkerRequest"
  enc_resp :: "WorkerResponse \<Rightarrow> string + bytes"

fun serve_connection :: "nat \<Rightarrow> codec \<Rightarrow> LoadedModel \<Rightarrow> bytes \<Rightarrow> bytes" where
  "serve_connection 0 cd l s = []"
| "serve_connection (Suc n) cd l s =
     (case read_frame (dec_req cd) s of
        Inl _ \<Rightarrow> []
      | Inr (req, s') \<Rightarrow>
          (case write_frame (enc_resp cd) (serve_request l req) of
             Inl _ \<Rightarrow> []
           | Inr out \<Rightarrow> out @ serve_connection n cd l s'))"

definition worker_peer :: "codec \<Rightarrow> LoadedModel \<Rightarrow> bytes \<Rightarrow> (io_error + bytes) option" where
  "worker_peer cd l s = Some (Inr (serve_connection (length s) cd l s))"

section \<open>Concurrent connections\<close>

text \<open>
  The task of a connection: reading a frame; rejecting after the counter was found at its cap;
  waiting for a permit; holding a permit with the counter not yet decremented; inferring;
  writing an answer with or without a permit; closed.
\<close>

datatype conn =
    CRead | CReject WorkerRequest | CWait WorkerRequest | CGranted WorkerRequest | CInfer WorkerRequest
  | CWrite bool WorkerRequest WorkerResponse | CClosed

record wstate =
  w_waiters :: nat
  w_permits :: nat
  w_conns :: "conn list"
  w_answers :: "(WorkerRequest \<times> WorkerResponse) list"

text \<open>The steps of one task on the shared counter and semaphore; the last component is what is answered.\<close>

inductive conn_step ::
  "LoadedModel \<Rightarrow> nat \<Rightarrow> nat \<Rightarrow> nat \<Rightarrow> conn \<Rightarrow> nat \<Rightarrow> nat \<Rightarrow> conn \<Rightarrow> (WorkerRequest \<times> WorkerResponse) list \<Rightarrow> bool"
  for l maxw where
  cs_admit: "w < maxw \<Longrightarrow> conn_step l maxw w p CRead (w + 1) p (CWait req) []"
| cs_overflow: "maxw \<le> w \<Longrightarrow> conn_step l maxw w p CRead (w + 1) p (CReject req) []"
| cs_reject: "conn_step l maxw w p (CReject req) (w - 1) p (CWrite False req (overflow_response req)) []"
| cs_acquire: "0 < p \<Longrightarrow> conn_step l maxw w p (CWait req) w (p - 1) (CGranted req) []"
| cs_granted: "conn_step l maxw w p (CGranted req) (w - 1) p (CInfer req) []"
| cs_infer: "conn_step l maxw w p (CInfer req) w p (CWrite True req (serve_request l req)) []"
| cs_written: "conn_step l maxw w p (CWrite h req resp) w (p + of_bool h) CRead [(req, resp)]"
| cs_write_failed: "conn_step l maxw w p (CWrite True req resp) w (p + 1) CClosed []"
| cs_reject_unsent: "conn_step l maxw w p (CWrite False req resp) w p CRead []"
| cs_eof: "conn_step l maxw w p CRead w p CClosed []"

inductive worker_step :: "LoadedModel \<Rightarrow> nat \<Rightarrow> wstate \<Rightarrow> wstate \<Rightarrow> bool" for l maxw where
  ws_accept: "worker_step l maxw s (s\<lparr>w_conns := w_conns s @ [CRead]\<rparr>)"
| ws_conn: "t < length (w_conns s) \<Longrightarrow> conn_step l maxw (w_waiters s) (w_permits s) (w_conns s ! t) w p c' ans \<Longrightarrow>
    worker_step l maxw s (s\<lparr>w_waiters := w, w_permits := p, w_conns := (w_conns s)[t := c'], w_answers := ans @ w_answers s\<rparr>)"

definition worker_init :: "nat \<Rightarrow> wstate \<Rightarrow> bool" where
  "worker_init psz s \<longleftrightarrow> s = \<lparr>w_waiters = 0, w_permits = psz, w_conns = [], w_answers = []\<rparr>"

inductive_cases conn_stepE: "conn_step l maxw w p c w' p' c' ans"

section \<open>Lemmas: admission\<close>

fun counted :: "conn \<Rightarrow> bool" where
  "counted (CReject _) = True"
| "counted (CWait _) = True"
| "counted (CGranted _) = True"
| "counted _ = False"

fun admitted :: "conn \<Rightarrow> bool" where
  "admitted (CWait _) = True"
| "admitted (CGranted _) = True"
| "admitted _ = False"

fun holds_permit :: "conn \<Rightarrow> bool" where
  "holds_permit (CGranted _) = True"
| "holds_permit (CInfer _) = True"
| "holds_permit (CWrite h _ _) = h"
| "holds_permit _ = False"

fun answer_ok :: "LoadedModel \<Rightarrow> conn \<Rightarrow> bool" where
  "answer_ok l (CWrite h req resp) = (resp = (if h then serve_request l req else overflow_response req))"
| "answer_ok l _ = True"

definition count_conns :: "(conn \<Rightarrow> bool) \<Rightarrow> wstate \<Rightarrow> nat" where
  "count_conns P s = length (filter P (w_conns s))"

definition worker_inv :: "LoadedModel \<Rightarrow> nat \<Rightarrow> nat \<Rightarrow> wstate \<Rightarrow> bool" where
  "worker_inv l maxw psz s \<longleftrightarrow>
     w_waiters s = count_conns counted s \<and> count_conns admitted s \<le> maxw \<and>
     w_permits s + count_conns holds_permit s = psz \<and>
     list_all (answer_ok l) (w_conns s) \<and>
     list_all (\<lambda>(req, resp). resp = serve_request l req \<or> resp = overflow_response req) (w_answers s)"

lemma admitted_counted: "count_conns admitted s \<le> count_conns counted s"
proof -
  have "length (filter admitted cs) \<le> length (filter counted cs)" for cs
    by (induction cs) (auto elim: admitted.elims)
  then show ?thesis by (simp add: count_conns_def)
qed

text \<open>The change of the three counts by one step of one task.\<close>

lemma conn_step_counts:
  assumes "conn_step l maxw w p c w' p' c' ans"
  shows "of_bool (counted c) \<le> w \<Longrightarrow> w' + of_bool (counted c) = w + of_bool (counted c')"
    and "p' + of_bool (holds_permit c') = p + of_bool (holds_permit c)"
    and "admitted c' \<Longrightarrow> admitted c \<or> w < maxw"
    and "answer_ok l c \<Longrightarrow> answer_ok l c' \<and> list_all (\<lambda>(req, resp). resp = serve_request l req \<or> resp = overflow_response req) ans"
  using assms by (cases rule: conn_step.cases; auto split: if_splits)+

lemma counted_pos: "t < length cs \<Longrightarrow> of_bool (P (cs ! t)) \<le> length (filter P cs)"
  by (cases "P (cs ! t)") (auto simp: Suc_le_eq filter_empty_conv)

interpretation worker: invariant_system "worker_init psz" "worker_step l maxw" "worker_inv l maxw psz"
proof
  fix s
  assume "worker_init psz s"
  then show "worker_inv l maxw psz s" by (simp add: worker_init_def worker_inv_def count_conns_def)
next
  fix s s'
  assume "worker_step l maxw s s'" and inv: "worker_inv l maxw psz s"
  then show "worker_inv l maxw psz s'"
  proof cases
    case ws_accept
    then show ?thesis using inv by (simp add: worker_inv_def count_conns_def)
  next
    case (ws_conn t w p c' ans)
    let ?cs = "w_conns s" and ?c = "w_conns s ! t"
    note upd = length_filter_update [OF ws_conn(2), where y = c']
    have w: "of_bool (counted ?c) \<le> w_waiters s"
      using inv counted_pos [OF ws_conn(2)] by (simp add: worker_inv_def count_conns_def)
    have adm: "length (filter admitted (?cs[t := c'])) \<le> maxw"
      using upd [of admitted] conn_step_counts(3) [OF ws_conn(3)] inv admitted_counted [of s]
      by (cases "admitted c'") (auto simp: worker_inv_def count_conns_def split: if_splits)
    have "answer_ok l ?c"
      using inv ws_conn(2) by (simp add: worker_inv_def list_all_length)
    with conn_step_counts(4) [OF ws_conn(3)] have ans: "answer_ok l c'"
        "list_all (\<lambda>(req, resp). resp = serve_request l req \<or> resp = overflow_response req) ans" by auto
    have "list_all (answer_ok l) (?cs[t := c'])"
      using inv ans(1) ws_conn(2) by (auto simp: worker_inv_def list_all_length nth_list_update)
    then show ?thesis
      using inv adm ans(2) conn_step_counts(1) [OF ws_conn(3) w] conn_step_counts(2) [OF ws_conn(3)]
        upd [of counted] upd [of holds_permit]
      by (auto simp: ws_conn(1) worker_inv_def count_conns_def)
  qed
qed

section \<open>Lemmas: answers\<close>

lemma serve_request_id: "resp_request_id (serve_request l req) = req_request_id req"
  by (cases "(l, req)" rule: serve_request.cases) (auto simp: reply_with_def split: joined.splits sum.splits)

lemma overflow_response_id: "resp_request_id (overflow_response req) = req_request_id req"
  by (simp add: overflow_response_def)

lemma resolve_max_waiters_pos: "0 < resolve_max_waiters_for_model e psz nm"
  by (auto simp: resolve_max_waiters_for_model_def Let_def WAITERS_FLOOR_def split: option.splits)

fun busy_conn :: "conn \<Rightarrow> bool" where
  "busy_conn CRead = False"
| "busy_conn CClosed = False"
| "busy_conn _ = True"

fun inferring :: "conn \<Rightarrow> bool" where
  "inferring (CInfer _) = True"
| "inferring _ = False"

lemma inferring_holds: "count_conns inferring s \<le> count_conns holds_permit s"
proof -
  have "length (filter inferring cs) \<le> length (filter holds_permit cs)" for cs
    by (induction cs) (auto elim: inferring.elims)
  then show ?thesis by (simp add: count_conns_def)
qed

definition can_step :: "LoadedModel \<Rightarrow> nat \<Rightarrow> wstate \<Rightarrow> conn \<Rightarrow> bool" where
  "can_step l maxw s c \<longleftrightarrow> (\<exists>w' p' c' ans. conn_step l maxw (w_waiters s) (w_permits s) c w' p' c' ans)"

lemma can_stepI: "conn_step l maxw (w_waiters s) (w_permits s) c w' p' c' ans \<Longrightarrow> can_step l maxw s c"
  by (auto simp: can_step_def)

text \<open>A busy task can step unless it waits and no permit is free.\<close>

lemma busy_conn_step: "busy_conn c \<Longrightarrow> 0 < w_permits s \<or> \<not> (\<exists>req. c = CWait req) \<Longrightarrow> can_step l maxw s c"
  by (cases c) (auto intro: conn_step.intros [THEN can_stepI])

lemma holds_busy: "holds_permit c \<Longrightarrow> busy_conn c \<and> \<not> (\<exists>req. c = CWait req)"
  by (cases c) auto

lemma worker_progress:
  assumes inv: "worker_inv l maxw psz s" and "0 < psz" and c: "c \<in> set (w_conns s)" "busy_conn c"
  shows "\<exists>c \<in> set (w_conns s). busy_conn c \<and> can_step l maxw s c"
proof (cases "w_permits s = 0")
  case True
  with inv \<open>0 < psz\<close> have "filter holds_permit (w_conns s) \<noteq> []"
    by (auto simp: worker_inv_def count_conns_def)
  then obtain c where "c \<in> set (w_conns s)" "holds_permit c"
    by (auto simp: filter_empty_conv)
  then show ?thesis using holds_busy busy_conn_step by blast
next
  case False
  with c show ?thesis using busy_conn_step by blast
qed

section \<open>Lemmas: connections\<close>

text \<open>A panic of the inference inside the blocking task.\<close>

definition joined_of :: "string \<Rightarrow> 'a option \<Rightarrow> 'a joined" where
  "joined_of panic_text r = (case r of None \<Rightarrow> JoinPanic panic_text | Some x \<Rightarrow> Joined x)"

text \<open>Requests sent one after the other are answered one after the other, with enough fuel.\<close>

lemma serve_connection_frames:
  assumes "list_all2 (\<lambda>r out. write_frame enc r = Inr out) reqs outs"
    and "list_all2 (\<lambda>r bk. write_frame (enc_resp cd) (serve_request l r) = Inr bk) reqs bks"
    and "\<And>r bs. enc r = Inr bs \<Longrightarrow> dec_req cd bs = Inr r" and "length reqs \<le> n"
  shows "serve_connection n cd l (concat outs) = concat bks"
  using assms
proof (induction reqs arbitrary: n outs bks)
  case Nil
  then show ?case by (cases n) (simp_all add: read_frame_def)
next
  case (Cons r reqs)
  obtain out outs' bk bks' where o: "outs = out # outs'" "write_frame enc r = Inr out"
      "list_all2 (\<lambda>r out. write_frame enc r = Inr out) reqs outs'"
    and b: "bks = bk # bks'" "write_frame (enc_resp cd) (serve_request l r) = Inr bk"
      "list_all2 (\<lambda>r bk. write_frame (enc_resp cd) (serve_request l r) = Inr bk) reqs bks'"
    using Cons.prems(1,2) by (auto simp: list_all2_Cons1)
  obtain n' where n: "n = Suc n'" using Cons.prems(4) by (cases n) auto
  have "read_frame (dec_req cd) (out @ concat outs') = Inr (r, concat outs')"
    using o(2) Cons.prems(3) by (rule read_write_frame)
  then show ?case
    using Cons.IH [OF o(3) b(3) Cons.prems(3)] Cons.prems(4) by (simp add: o b n)
qed

lemma write_frame_length: "write_frame enc v = Inr out \<Longrightarrow> 4 \<le> length out"
  by (auto simp: write_frame_def u32_le_def split: sum.splits if_splits)

lemma worker_peer_one:
  assumes "write_frame enc req = Inr out" and "write_frame (enc_resp cd) (serve_request l req) = Inr bk"
    and "\<And>r bs. enc r = Inr bs \<Longrightarrow> dec_req cd bs = Inr r"
  shows "worker_peer cd l out = Some (Inr bk)"
  using serve_connection_frames [of enc "[req]" "[out]" cd l "[bk]" "length out"] assms write_frame_length [OF assms(1)]
  by (simp add: worker_peer_def)

lemma send_request_worker:
  assumes "write_frame (enc_req w) req = Inr out" and "write_frame (enc_resp cd) (serve_request l req) = Inr bk"
    and "\<And>r bs. enc_req w r = Inr bs \<Longrightarrow> dec_req cd bs = Inr r" and "\<And>r bs. enc_resp cd r = Inr bs \<Longrightarrow> dec_resp w bs = Inr r"
    and "peer w = worker_peer cd l"
  shows "send_request w req = Some (Inr (serve_request l req))"
proof -
  have "read_frame (dec_resp w) (bk @ []) = Inr (serve_request l req, [])"
    using assms(2,4) by (rule read_write_frame)
  then show ?thesis
    using worker_peer_one [OF assms(1-3)] by (simp add: send_request_def accept_response_def assms serve_request_id)
qed

section \<open>Properties\<close>

text \<open>
  C28. Admission in a worker, for every interleaving of its connections: the waiter counter is
  exactly the number of connections between the increment and the decrement; never more
  admitted requests wait than the cap (which is positive) allows, and never more inferences
  run than the semaphore has permits; every answer carries the id of its request and is
  either the model's answer to it or the overflow error; and with at least one permit no
  state with an unanswered request is stuck.
\<close>

theorem worker_admission:
  assumes "reach (worker_init psz) (worker_step l maxw) s"
  shows "w_waiters s = count_conns counted s \<and> count_conns admitted s \<le> maxw \<and> count_conns inferring s \<le> psz \<and>
    0 < resolve_max_waiters_for_model e psz nm \<and>
    (\<forall>(req, resp) \<in> set (w_answers s). resp_request_id resp = req_request_id req \<and>
       (resp = serve_request l req \<or> resp = overflow_response req)) \<and>
    (0 < psz \<longrightarrow> (\<exists>c \<in> set (w_conns s). busy_conn c) \<longrightarrow> (\<exists>c \<in> set (w_conns s). busy_conn c \<and> can_step l maxw s c))"
proof -
  have inv: "worker_inv l maxw psz s" using assms by (rule worker.reach_inv)
  have "resp_request_id resp = req_request_id req \<and> (resp = serve_request l req \<or> resp = overflow_response req)"
    if "(req, resp) \<in> set (w_answers s)" for req resp
    using inv that by (auto simp: worker_inv_def list_all_iff serve_request_id overflow_response_id dest!: bspec [of _ _ "(req, resp)"])
  moreover have "count_conns inferring s \<le> psz"
    using inv inferring_holds [of s] by (simp add: worker_inv_def)
  ultimately show ?thesis
    using inv worker_progress [OF inv] resolve_max_waiters_pos by (auto simp: worker_inv_def)
qed

section \<open>Witnesses\<close>

definition wit_loaded :: LoadedModel where
  "wit_loaded = LoadedEmbed (\<lambda>texts msl. Joined (Inr (map (\<lambda>_. [f32_one]) texts, 1)))"

definition wit_req :: WorkerRequest where
  "wit_req = ReqEmbed \<lparr>em_request_id = 5, em_model = ''m'', em_texts = [''t''], em_max_seq_len = 0\<rparr>"

lemma wit_worker_reach:
  "reach (worker_init 1) (worker_step wit_loaded 1)
     \<lparr>w_waiters = 1, w_permits = 1, w_conns = [CWait wit_req], w_answers = []\<rparr>"
proof -
  have "reach (worker_init 1) (worker_step wit_loaded 1) \<lparr>w_waiters = 0, w_permits = 1, w_conns = [], w_answers = []\<rparr>"
    by (rule reach_init) (simp add: worker_init_def)
  then have "reach (worker_init 1) (worker_step wit_loaded 1) \<lparr>w_waiters = 0, w_permits = 1, w_conns = [CRead], w_answers = []\<rparr>"
    by (rule reach_step) (use ws_accept [of wit_loaded 1 "\<lparr>w_waiters = 0, w_permits = 1, w_conns = [], w_answers = []\<rparr>"] in simp)
  then show ?thesis
    by (rule reach_step)
      (use ws_conn [of 0 "\<lparr>w_waiters = 0, w_permits = 1, w_conns = [CRead], w_answers = []\<rparr>" wit_loaded 1 1 1 "CWait wit_req" "[]"]
           cs_admit [of 0 1 wit_loaded 1 wit_req] in simp)
qed

theorem worker_admission_witness:
  "count_conns admitted \<lparr>w_waiters = 1, w_permits = 1, w_conns = [CWait wit_req], w_answers = []\<rparr> \<le> 1 \<and>
   can_step wit_loaded 1 \<lparr>w_waiters = 1, w_permits = 1, w_conns = [CWait wit_req], w_answers = []\<rparr> (CWait wit_req)"
  using worker_admission [OF wit_worker_reach] by auto

end
