(* ===== verification/Boot.thy ===== *)
theory Boot
  imports Model_Load Api_Health Worker
begin

text \<open>
  The wiring of \<open>src/src/main.rs\<close>: the registries of models in both modes, the batchers, the
  concurrency cap of the rerank endpoint, the specifications of the workers and the pool that
  routes to them, the routes, and the draining of batchers. The functions that load a model
  and launch a worker are parameters; \<open>Inl\<close> is an exit of the process with a message.
\<close>

section \<open>Variables the server warns about\<close>

definition ignored_vars :: "string list \<Rightarrow> string list" where
  "ignored_vars vars =
     filter (\<lambda>k. starts_with k ''RERANKER_SESSION_POOL_SIZE_'' \<or> starts_with k ''SPLADE_SESSION_POOL_SIZE_'') vars"

definition known_keys :: "Config \<Rightarrow> string set" where
  "known_keys cfg = set (map (model_env_key \<circ> md_name) (cfg_models cfg) @ map (model_env_key \<circ> rd_name) (cfg_rerankers cfg) @
     map (model_env_key \<circ> sd_name) (cfg_splades cfg))"

definition unknown_waiters :: "Config \<Rightarrow> string list \<Rightarrow> string list" where
  "unknown_waiters cfg vars =
     filter (\<lambda>k. starts_with k ''EMBED_MAX_WAITERS_'' \<and> drop (length ''EMBED_MAX_WAITERS_'') k \<notin> known_keys cfg) vars"

section \<open>Registries\<close>

type_synonym batch_fn = "token_seq list \<Rightarrow> BatchError + fvec list"

text \<open>\<open>HashMap::insert\<close> for each pair in turn.\<close>

definition insert_all :: "(string \<times> 'v) list \<Rightarrow> (string \<times> 'v) list" where
  "insert_all kvs = fold (\<lambda>(k, v) m. AList.update k v m) kvs []"

definition exit_on :: "string \<Rightarrow> string \<Rightarrow> string + 'a \<Rightarrow> string + 'a" where
  "exit_on what nm r = map_err (''failed to load '' @ what @ '' '' @ [CHR 0x27] @ nm @ [CHR 0x27] @ '': '') r"

text \<open>The batchers of the two kinds of model, with the settings each gets.\<close>

definition embed_batcher :: "(string \<Rightarrow> fl option) \<Rightarrow> env \<Rightarrow> Config \<Rightarrow> ModelDef \<Rightarrow> (DynamicBatcher \<times> BatcherConfig \<times> bool) option" where
  "embed_batcher parse_f64 e cfg d =
     with_tokens_and_max_len parse_f64 e (md_name d) (cfg_batch_max_tokens cfg) (cfg_batch_max cfg) (md_batch_max_seq d) True
       (cfg_batch_wait_ms cfg) (cfg_max_queue_size cfg) (md_max_len d)"

definition reranker_batcher ::
  "(string \<Rightarrow> fl option) \<Rightarrow> env \<Rightarrow> Config \<Rightarrow> RerankerModelDef \<Rightarrow> (DynamicBatcher \<times> BatcherConfig \<times> bool) option" where
  "reranker_batcher parse_f64 e cfg d =
     with_tokens parse_f64 e (rd_name d) (cfg_batch_max_tokens cfg) (cfg_reranker_batch_max cfg) (cfg_batch_max_seq cfg)
       (rd_padded_model d) (cfg_batch_wait_ms cfg) (cfg_max_queue_size cfg)"

text \<open>The adapter between the scores of a reranker and the vectors of a batcher.\<close>

definition score_adapter :: "(token_seq list \<Rightarrow> string + f32 list) \<Rightarrow> token_seq list \<Rightarrow> string + fvec list" where
  "score_adapter score ids = (case score ids of Inl e \<Rightarrow> Inl e | Inr scores \<Rightarrow> Inr (map (\<lambda>s. [s]) scores))"

text \<open>
  What the handlers call of a model in the process: both calls run in a blocking task, whose
  panic is an error of the join.
\<close>

definition in_process_session ::
  "(string list \<Rightarrow> string + token_seq list) \<Rightarrow> EmbedModel \<Rightarrow> (nat \<Rightarrow> AcquireError + session_fn) \<Rightarrow> string \<Rightarrow> embed_session" where
  "in_process_session encode m acq panic_text =
     \<lparr>ses_tokenize = \<lambda>texts. Joined (bind_res (tokenize encode m texts) (\<lambda>(ids, _). Inr ids)),
      ses_embed = \<lambda>ids. joined_of panic_text (model_embed_tokens m acq ids)\<rparr>"

text \<open>\<open>load\<close> loads and warms a model, \<open>attach\<close> is the batcher of a loaded model.\<close>

definition model_entries ::
  "(ModelDef \<Rightarrow> string + embed_session) \<Rightarrow> (ModelDef \<Rightarrow> embed_session \<Rightarrow> batch_fn) \<Rightarrow> Config \<Rightarrow> string + (string \<times> ModelEntry) list" where
  "model_entries load attach cfg =
     (if cfg_multi_process cfg
      then Inr (insert_all (map (\<lambda>d. (md_name d, \<lparr>me_model = None, me_batcher = None\<rparr>)) (cfg_models cfg)))
      else bind_res (collect_res (\<lambda>d. bind_res (exit_on ''model'' (md_name d) (load d)) (\<lambda>m. Inr (d, m))) (cfg_models cfg)) (\<lambda>loaded.
        Inr (insert_all (map (\<lambda>(d, m). (md_name d,
          \<lparr>me_model = Some m, me_batcher = (if cfg_batching_enabled cfg then Some (attach d m) else None)\<rparr>)) loaded))))"

definition reranker_entries ::
  "(RerankerModelDef \<Rightarrow> string + rerank_session) \<Rightarrow> (RerankerModelDef \<Rightarrow> rerank_session \<Rightarrow> batch_fn) \<Rightarrow> Config \<Rightarrow>
   string + (string \<times> RerankerEntry) list" where
  "reranker_entries load attach cfg =
     (if cfg_multi_process cfg
      then Inr (insert_all (map (\<lambda>d. (rd_name d, \<lparr>rk_model = None, rk_batcher = None\<rparr>)) (cfg_rerankers cfg)))
      else bind_res (collect_res (\<lambda>d. bind_res (exit_on ''reranker'' (rd_name d) (load d)) (\<lambda>m. Inr (d, m))) (cfg_rerankers cfg)) (\<lambda>loaded.
        Inr (insert_all (map (\<lambda>(d, m). (rd_name d,
          \<lparr>rk_model = Some m, rk_batcher = (if cfg_batching_enabled cfg then Some (attach d m) else None)\<rparr>)) loaded))))"

definition splade_entries ::
  "(SpladeModelDef \<Rightarrow> string + SpladeModel) \<Rightarrow> Config \<Rightarrow> string + (string \<times> SpladeModel option) list" where
  "splade_entries load cfg =
     (if cfg_multi_process cfg then Inr (insert_all (map (\<lambda>d. (sd_name d, None)) (cfg_splades cfg)))
      else bind_res (collect_res (\<lambda>d. bind_res (exit_on ''splade'' (sd_name d) (load d)) (\<lambda>m. Inr (sd_name d, Some m))) (cfg_splades cfg)) (\<lambda>loaded.
        Inr (insert_all loaded)))"

section \<open>The cap of the rerank endpoint\<close>

text \<open>The largest number of permits a semaphore of the runtime takes; more is a panic.\<close>

definition MAX_PERMITS :: nat where "MAX_PERMITS = usize_max div 8"

definition auto_cap :: "Config \<Rightarrow> nat" where
  "auto_cap cfg = max (sat_mul (sat_mul (cfg_reranker_pool_size cfg) (cfg_reranker_intra_threads cfg)) 8) 16"

definition rerank_semaphore :: "env \<Rightarrow> Config \<Rightarrow> nat option option" where
  "rerank_semaphore e cfg =
     (let permits = (case (case e ''MAX_CONCURRENT_RERANK_REQUESTS'' of None \<Rightarrow> None | Some s \<Rightarrow> parse_usize s) of
          None \<Rightarrow> Some (auto_cap cfg)
        | Some n \<Rightarrow> if n = 0 then None else Some n)
      in case permits of
           None \<Rightarrow> Some None
         | Some n \<Rightarrow> if n \<le> MAX_PERMITS then Some (Some n) else None)"

section \<open>Workers\<close>

definition worker_metrics_port :: "nat option \<Rightarrow> nat \<Rightarrow> nat option" where
  "worker_metrics_port base index =
     (case base of None \<Rightarrow> None | Some b \<Rightarrow> if b + index < 2 ^ 16 then Some (b + index) else None)"

definition embed_spec :: "env \<Rightarrow> Config \<Rightarrow> ModelDef \<Rightarrow> SpawnSpec" where
  "embed_spec e cfg d =
     \<lparr>spec_model = md_name d, spec_kind = KEmbed, spec_worker_bin = cfg_worker_bin_path cfg, spec_socket_dir = cfg_worker_socket_dir cfg,
      spec_pool_size = resolve_embed_pool_size_for_model e (md_name d) (e ''EMBED_SESSION_POOL_SIZE''),
      spec_intra_threads = cfg_intra_threads cfg, spec_env_extra = []\<rparr>"

definition rerank_spec :: "Config \<Rightarrow> RerankerModelDef \<Rightarrow> SpawnSpec" where
  "rerank_spec cfg d =
     \<lparr>spec_model = rd_name d, spec_kind = KRerank, spec_worker_bin = cfg_worker_bin_path cfg, spec_socket_dir = cfg_worker_socket_dir cfg,
      spec_pool_size = max (cfg_reranker_pool_size cfg) 1, spec_intra_threads = max (cfg_reranker_intra_threads cfg) 1,
      spec_env_extra = []\<rparr>"

definition splade_spec :: "Config \<Rightarrow> SpladeModelDef \<Rightarrow> SpawnSpec" where
  "splade_spec cfg d =
     \<lparr>spec_model = sd_name d, spec_kind = KSplade, spec_worker_bin = cfg_worker_bin_path cfg, spec_socket_dir = cfg_worker_socket_dir cfg,
      spec_pool_size = max (cfg_splade_pool_size cfg) 1, spec_intra_threads = max (cfg_splade_intra_threads cfg) 1,
      spec_env_extra = []\<rparr>"

definition port_env :: "nat option \<Rightarrow> (string \<times> string) list" where
  "port_env port = (case port of None \<Rightarrow> [] | Some n \<Rightarrow> [(''EMBED_WORKER_METRICS_PORT'', show_nat n)])"

text \<open>The index of a worker is a saturating \<open>u16\<close>.\<close>

definition worker_specs :: "env \<Rightarrow> Config \<Rightarrow> SpawnSpec list" where
  "worker_specs e cfg =
     (let base = (case e ''EMBED_WORKER_METRICS_PORT_BASE'' of None \<Rightarrow> None | Some s \<Rightarrow> parse_uint 16 (trim s));
          specs = map (embed_spec e cfg) (cfg_models cfg) @ map (rerank_spec cfg) (cfg_rerankers cfg) @
                  map (splade_spec cfg) (cfg_splades cfg)
      in map (\<lambda>(i, s). s\<lparr>spec_env_extra := port_env (worker_metrics_port base (min i (2 ^ 16 - 1)))\<rparr>) (enumerate 0 specs))"

text \<open>The delay before each spawn: none for the first worker, the stagger for the others.\<close>

definition spawn_delays :: "env \<Rightarrow> Config \<Rightarrow> nat list" where
  "spawn_delays e cfg =
     map (\<lambda>position. if 0 < position
            then (case resolve_spawn_stagger_ms e ''EMBED_WORKER_SPAWN_DELAY_MS'' 2000 of None \<Rightarrow> 0 | Some ms \<Rightarrow> ms) else 0)
       [0..<length (worker_specs e cfg)]"

text \<open>Launches run concurrently; their results are collected in order and the first failure exits.\<close>

definition build_worker_pool ::
  "(SpawnSpec \<Rightarrow> string + WorkerSupervisor) \<Rightarrow> env \<Rightarrow> Config \<Rightarrow> string + WorkerPool option" where
  "build_worker_pool launched e cfg =
     (if cfg_multi_process cfg
      then bind_res (collect_res launched (worker_specs e cfg)) (\<lambda>sups. Inr (Some (fold pool_add sups (fst (pool_new e)))))
      else Inr None)"

section \<open>Routes and shutdown\<close>

datatype endpoint = EpHealth | EpReady | EpMetrics | EpEmbeddings | EpRerank | EpSparse

definition routes :: "(string \<times> (string \<times> endpoint)) list" where
  "routes = [(''/health'', ''GET'', EpHealth), (''/ready'', ''GET'', EpReady), (''/metrics'', ''GET'', EpMetrics),
     (''/v1/embeddings'', ''POST'', EpEmbeddings), (''/v1/rerank'', ''POST'', EpRerank), (''/embed_sparse'', ''POST'', EpSparse)]"

text \<open>
  \<open>drain_batchers\<close>: which batchers are shut down. \<open>unique\<close> says that no handler holds the state
  any more; an entry's batcher comes with the number of references to it.
\<close>

definition drain_batchers :: "bool \<Rightarrow> (string \<times> nat option) list \<Rightarrow> (string \<times> nat option) list \<Rightarrow> string list" where
  "drain_batchers unique ms rs =
     (if \<not> unique then []
      else map fst (filter (\<lambda>(_, b). b = Some 1) (ms @ rs)))"

section \<open>Lemmas\<close>

lemma map_of_update_fold:
  "map_of (fold (\<lambda>(k, v) m. AList.update k v m) kvs m) n =
     (case List.find (\<lambda>(k, _). k = n) (rev kvs) of Some (_, v) \<Rightarrow> Some v | None \<Rightarrow> map_of m n)"
proof (induction kvs rule: rev_induct)
  case (snoc kv kvs)
  then show ?case by (cases kv) (auto simp: update_conv' split: option.splits)
qed simp

lemma insert_all_known: "map_of (insert_all kvs) n \<noteq> None \<longleftrightarrow> n \<in> fst ` set kvs"
proof -
  have "List.find (\<lambda>(k, _). k = n) (rev kvs) = None \<longleftrightarrow> n \<notin> fst ` set kvs"
    by (force simp: find_None_iff)
  then show ?thesis
    unfolding insert_all_def map_of_update_fold by (auto split: option.splits)
qed

lemma model_entries_known:
  assumes "model_entries load attach cfg = Inr es"
  shows "map_of es n \<noteq> None \<longleftrightarrow> n \<in> md_name ` set (cfg_models cfg)"
proof (cases "cfg_multi_process cfg")
  case True
  then have "es = insert_all (map (\<lambda>d. (md_name d, \<lparr>me_model = None, me_batcher = None\<rparr>)) (cfg_models cfg))"
    using assms by (simp add: model_entries_def)
  then show ?thesis by (simp only: insert_all_known) (simp add: image_image)
next
  case False
  then obtain loaded where l: "collect_res (\<lambda>d. bind_res (exit_on ''model'' (md_name d) (load d)) (\<lambda>m. Inr (d, m))) (cfg_models cfg) = Inr loaded"
    and es: "es = insert_all (map (\<lambda>(d, m). (md_name d,
          \<lparr>me_model = Some m, me_batcher = (if cfg_batching_enabled cfg then Some (attach d m) else None)\<rparr>)) loaded)"
    using assms by (auto simp: model_entries_def bind_res_Inr_iff)
  have "list_all2 (\<lambda>d x. fst x = d) (cfg_models cfg) loaded"
    using l unfolding collect_res_Inr_iff by (rule list_all2_mono) (auto simp: bind_res_Inr_iff)
  then have "map fst loaded = cfg_models cfg"
    by (induction rule: list_all2_induct) auto
  then have "md_name ` set (cfg_models cfg) = (\<lambda>x. md_name (fst x)) ` set loaded"
    by (metis image_image image_set)
  then show ?thesis unfolding es insert_all_known by (simp add: image_image split_beta)
qed

lemma pool_add_fold:
  "map_of (workers (fold pool_add sups p)) n =
     (case List.find (\<lambda>s. spec_model (sup_spec s) = n) (rev sups) of Some s \<Rightarrow> Some s | None \<Rightarrow> map_of (workers p) n)"
proof (induction sups rule: rev_induct)
  case (snoc s sups)
  then show ?case by (auto simp: pool_add_def update_conv' split: option.splits)
qed simp

lemma find_map: "List.find P (map f zs) = map_option f (List.find (\<lambda>y. P (f y)) zs)"
  by (induction zs) auto

lemma find_append: "List.find P (xs @ ys) = (case List.find P xs of Some x \<Rightarrow> Some x | None \<Rightarrow> List.find P ys)"
  by (induction xs) auto

lemma find_map_rev:
  "list_all2 (\<lambda>x y. f y = x) xs ys \<Longrightarrow> List.find P (rev xs) = map_option f (List.find (\<lambda>y. P (f y)) (rev ys))"
proof -
  assume "list_all2 (\<lambda>x y. f y = x) xs ys"
  then have "xs = map f ys" by (induction rule: list_all2_induct) auto
  then show ?thesis by (simp add: rev_map find_map)
qed

text \<open>Each name is routed to the worker of the last specification with that name.\<close>

lemma workers_last_spec:
  assumes "cfg_multi_process cfg" "build_worker_pool launched e cfg = Inr (Some p)"
    and launched: "\<And>spec s. launched spec = Inr s \<Longrightarrow> \<exists>start forked polls probe. launch e spec start forked polls probe = Some (Inr s)"
  shows "map_option sup_spec (map_of (workers p) n) = List.find (\<lambda>spec. spec_model spec = n) (rev (worker_specs e cfg))"
    and "map_of (workers p) n = Some s \<Longrightarrow> client_slot s \<noteq> None"
proof -
  obtain sups where s: "collect_res launched (worker_specs e cfg) = Inr sups" and p: "p = fold pool_add sups (fst (pool_new e))"
    using assms(1,2) by (auto simp: build_worker_pool_def bind_res_Inr_iff)
  have l: "list_all2 (\<lambda>spec s. launched spec = Inr s) (worker_specs e cfg) sups"
    using s by (simp add: collect_res_Inr_iff)
  have "list_all2 (\<lambda>spec s. sup_spec s = spec) (worker_specs e cfg) sups"
    using l by (rule list_all2_mono) (use launched launch_spec in blast)
  note spec = find_map_rev [OF this]
  have empty: "workers (fst (pool_new e)) = []" by (simp add: pool_new_def split: prod.splits)
  show "map_option sup_spec (map_of (workers p) n) = List.find (\<lambda>spec. spec_model spec = n) (rev (worker_specs e cfg))"
    unfolding spec p pool_add_fold empty by (simp split: option.split)
  assume "map_of (workers p) n = Some s"
  then have "s \<in> set sups"
    unfolding p pool_add_fold empty by (auto split: option.splits simp: find_Some_iff rev_nth)
  then obtain spec where "launched spec = Inr s"
    using l by (auto simp: list_all2_conv_all_nth in_set_conv_nth)
  then show "client_slot s \<noteq> None" using launched launch_spec by blast
qed

text \<open>Names and kinds of the specifications, in order.\<close>

definition spec_key :: "SpawnSpec \<Rightarrow> string \<times> WorkerKind" where
  "spec_key s = (spec_model s, spec_kind s)"

lemma worker_specs_keys:
  "map spec_key (worker_specs e cfg) =
     map (\<lambda>d. (md_name d, KEmbed)) (cfg_models cfg) @ map (\<lambda>d. (rd_name d, KRerank)) (cfg_rerankers cfg) @
     map (\<lambda>d. (sd_name d, KSplade)) (cfg_splades cfg)"
proof -
  have "map spec_key (map (\<lambda>(i, s). s\<lparr>spec_env_extra := f i\<rparr>) (enumerate k specs)) = map spec_key specs" for f k specs
    by (induction specs arbitrary: k) (auto simp: spec_key_def)
  then show ?thesis
    by (simp add: worker_specs_def Let_def spec_key_def embed_spec_def rerank_spec_def splade_spec_def comp_def)
qed

lemma find_keyed:
  "List.find (\<lambda>x. fst x = n) (rev (map (\<lambda>d. (f d, k)) ds)) = (if n \<in> f ` set ds then Some (n, k) else None)"
  by (induction ds rule: rev_induct) auto

lemma routed_kind:
  "map_option spec_key (List.find (\<lambda>spec. spec_model spec = n) (rev (worker_specs e cfg))) =
     (if n \<in> sd_name ` set (cfg_splades cfg) then Some (n, KSplade)
      else if n \<in> rd_name ` set (cfg_rerankers cfg) then Some (n, KRerank)
      else if n \<in> md_name ` set (cfg_models cfg) then Some (n, KEmbed) else None)"
proof -
  have "map_option spec_key (List.find (\<lambda>spec. spec_model spec = n) (rev (worker_specs e cfg))) =
      List.find (\<lambda>x. fst x = n) (rev (map spec_key (worker_specs e cfg)))"
    by (simp add: rev_map find_map spec_key_def)
  then show ?thesis
    unfolding worker_specs_keys by (simp add: find_append find_keyed split: option.split)
qed

section \<open>Routing\<close>

text \<open>
  C8. Every model an endpoint accepts has a worker. In worker mode, when the server has started,
  the embeddings endpoint accepts exactly the configured names; each is routed to a
  supervisor with a connected client, so that no dispatch is refused for want of a worker.
  The worker is of the right kind exactly if the name is not used again for a reranker or a
  sparse model: the pool knows names only, and configurations that reuse one are not refused.
\<close>

theorem workers_routed:
  assumes "cfg_multi_process cfg" "build_worker_pool launched e cfg = Inr (Some p)" "model_entries load attach cfg = Inr es"
    and "\<And>spec s. launched spec = Inr s \<Longrightarrow> \<exists>start forked polls probe. launch e spec start forked polls probe = Some (Inr s)"
  shows "(map_of es n \<noteq> None \<longleftrightarrow> n \<in> md_name ` set (cfg_models cfg)) \<and>
    (n \<in> md_name ` set (cfg_models cfg) \<longrightarrow>
       (\<exists>s. map_of (workers p) n = Some s \<and> client_slot s \<noteq> None \<and>
          (spec_kind (sup_spec s) = KEmbed \<longleftrightarrow> n \<notin> rd_name ` set (cfg_rerankers cfg) \<union> sd_name ` set (cfg_splades cfg))))"
proof (intro conjI impI)
  show "map_of es n \<noteq> None \<longleftrightarrow> n \<in> md_name ` set (cfg_models cfg)" by (rule model_entries_known [OF assms(3)])
  assume n: "n \<in> md_name ` set (cfg_models cfg)"
  have last: "map_option sup_spec (map_of (workers p) n) = List.find (\<lambda>spec. spec_model spec = n) (rev (worker_specs e cfg))"
    by (rule workers_last_spec(1) [OF assms(1,2)]) (rule assms(4))
  have r: "map_option spec_key (map_option sup_spec (map_of (workers p) n)) =
     (if n \<in> sd_name ` set (cfg_splades cfg) then Some (n, KSplade)
      else if n \<in> rd_name ` set (cfg_rerankers cfg) then Some (n, KRerank) else Some (n, KEmbed))"
    unfolding last routed_kind using n by simp
  then obtain s where s: "map_of (workers p) n = Some s"
    by (cases "map_of (workers p) n") (auto split: if_splits)
  show "\<exists>s. map_of (workers p) n = Some s \<and> client_slot s \<noteq> None \<and>
      (spec_kind (sup_spec s) = KEmbed \<longleftrightarrow> n \<notin> rd_name ` set (cfg_rerankers cfg) \<union> sd_name ` set (cfg_splades cfg))"
    using s r workers_last_spec(2) [OF assms(1,2) _ s] assms(4) by (auto simp: spec_key_def split: if_splits)
qed

section \<open>Witness\<close>

definition wit_boot_cfg :: Config where
  "wit_boot_cfg = \<lparr>cfg_port = 8080,
     cfg_models = map (\<lambda>nm. \<lparr>md_name = nm, md_dir = ''/m'', md_onnx_filename = ''model.onnx'', md_dim = 4, md_max_len = 8, md_pad_id = 0,
       md_has_token_type_ids = False, md_batch_max_seq = 8, md_warmup_seq_len = None, md_memory_pattern = True\<rparr>) [''a'', ''b''],
     cfg_rerankers = [\<lparr>rd_name = ''b'', rd_dir = ''/r'', rd_max_len = 8, rd_padded_model = True\<rparr>],
     cfg_default_model = ''a'', cfg_intra_threads = 2, cfg_embed_pool_size = 1, cfg_reranker_pool_size = 1,
     cfg_reranker_intra_threads = 2, cfg_splades = [], cfg_splade_pool_size = 1, cfg_splade_intra_threads = 1,
     cfg_batching_enabled = True, cfg_batch_max = 8, cfg_reranker_batch_max = 32, cfg_batch_max_tokens = 4096, cfg_batch_max_seq = 512,
     cfg_batch_wait_ms = 5, cfg_max_queue_size = 64, cfg_drain_timeout_s = 5, cfg_auto_truncate = True, cfg_cache_max_entries = 10,
     cfg_token_cache_max_entries = 0, cfg_rerank_warmup_batch_sizes = [1], cfg_embed_warmup_batch_sizes = [1],
     cfg_splade_warmup_batch_sizes = [1], cfg_embed_warmup_seq_len = None, cfg_idle_evict_secs = 0, cfg_embed_max_input_array = 32,
     cfg_rerank_max_input_docs = 32, cfg_multi_process = True, cfg_worker_bin_path = ''w'', cfg_worker_socket_dir = ''/s'',
     cfg_ready_probe_timeout_ms = 2000\<rparr>"

definition wit_launched :: "SpawnSpec \<Rightarrow> string + WorkerSupervisor" where
  "wit_launched spec =
     (case launch (\<lambda>_. None) spec 0 (Inr (Some 7)) [\<lparr>poll_now = 0, poll_exists = True, poll_exit = Inr None\<rparr>] None of
        Some r \<Rightarrow> r | None \<Rightarrow> Inl ''pending'')"

lemma wit_launched_launch:
  "wit_launched spec = Inr s \<Longrightarrow> \<exists>start forked polls probe. launch (\<lambda>_. None) spec start forked polls probe = Some (Inr s)"
  unfolding wit_launched_def by (auto split: option.splits)

lemma worker_specs_pool_size: "spec \<in> set (worker_specs e cfg) \<Longrightarrow> spec_pool_size spec \<noteq> 0"
  using resolve_embed_pool_size_positive
  by (auto simp: worker_specs_def Let_def in_set_enumerate_eq nth_append embed_spec_def rerank_spec_def splade_spec_def)

lemma wit_launched_ok: "spec_pool_size spec \<noteq> 0 \<Longrightarrow> \<exists>s. wit_launched spec = Inr s"
  by (simp add: wit_launched_def launch_def spawn_one_def launch_config_def resolve_duration_secs_env_def SOCKET_WAIT_SECS_def connect_def Let_def)

lemma collect_res_total: "(\<And>x. x \<in> set xs \<Longrightarrow> \<exists>y. f x = Inr y) \<Longrightarrow> \<exists>ys. collect_res f xs = Inr ys"
  by (induction xs) fastforce+

theorem workers_routed_witness:
  "\<exists>p s s'. build_worker_pool wit_launched (\<lambda>_. None) wit_boot_cfg = Inr (Some p) \<and>
     map_of (workers p) ''a'' = Some s \<and> spec_kind (sup_spec s) = KEmbed \<and>
     map_of (workers p) ''b'' = Some s' \<and> spec_kind (sup_spec s') \<noteq> KEmbed"
proof -
  have mp: "cfg_multi_process wit_boot_cfg" by (simp add: wit_boot_cfg_def)
  obtain sups where "collect_res wit_launched (worker_specs (\<lambda>_. None) wit_boot_cfg) = Inr sups"
    using collect_res_total [of "worker_specs (\<lambda>_. None) wit_boot_cfg" wit_launched] wit_launched_ok worker_specs_pool_size by blast
  then obtain p where p: "build_worker_pool wit_launched (\<lambda>_. None) wit_boot_cfg = Inr (Some p)"
    using mp by (simp add: build_worker_pool_def)
  obtain es where es: "model_entries (\<lambda>_. Inl ''none'') (\<lambda>_ _ _. Inl Shutdown) wit_boot_cfg = Inr es"
    using mp by (simp add: model_entries_def)
  have names: "md_name ` set (cfg_models wit_boot_cfg) = {''a'', ''b''}" "rd_name ` set (cfg_rerankers wit_boot_cfg) = {''b''}"
      "sd_name ` set (cfg_splades wit_boot_cfg) = {}"
    by (simp_all add: wit_boot_cfg_def)
  note r = workers_routed [OF mp p es wit_launched_launch, unfolded names]
  show ?thesis using p r [of "''a''"] r [of "''b''"] by auto
qed

end
