(* ===== verification/Shutdown.thy ===== *)
theory Shutdown
  imports Boot
begin

text \<open>
  The end of the server (\<open>src/src/main.rs\<close>): the signal cancels the token the handlers look at,
  the listener stays open for the drain window, then it is closed, the handlers that still
  run are awaited, and only then the batchers are taken out of the application state and
  shut down. The machine interleaves these steps with the handlers that start, look at the
  token and end. The references to the shared state are counted as \<open>Arc\<close> counts them, since
  the batchers are shut down only if the main task holds the last one. When the HTTP server
  returns from its graceful shutdown is a parameter.
\<close>

section \<open>State\<close>

datatype gs_phase =
    Serving
  | Draining nat
  | Closing
  | Returned
  | Exited

text \<open>A handler has been called, or has looked at the token and goes on or refuses.\<close>

datatype gs_handler = Started | Admitted | Rejected

record gs_state =
  gs_phase :: gs_phase
  gs_cancelled :: bool
  gs_signal :: "nat option"
  gs_clock :: nat
  gs_running :: "gs_handler list"
  gs_strong :: nat
  gs_stopped :: "string list"

text \<open>
  At the start the main task and the router hold the state. \<open>ms\<close> and \<open>rs\<close> are the batchers of
  the embedding models and of the rerankers with the number of references to each.
\<close>

definition gs_start :: "nat \<Rightarrow> gs_state" where
  "gs_start now = \<lparr>gs_phase = Serving, gs_cancelled = False, gs_signal = None, gs_clock = now, gs_running = [],
     gs_strong = 2, gs_stopped = []\<rparr>"

definition accepting :: "gs_phase \<Rightarrow> bool" where
  "accepting ph = (case ph of Serving \<Rightarrow> True | Draining _ \<Rightarrow> True | Closing \<Rightarrow> True | _ \<Rightarrow> False)"

definition look_at_token :: "bool \<Rightarrow> gs_handler" where
  "look_at_token cancelled = (if cancelled then Rejected else Admitted)"

section \<open>Steps\<close>

text \<open>
  A request may still start a handler while the server is closing, on a connection that was
  open; the end of a handler releases its reference. \<open>returns\<close> says for which running
  handlers the HTTP server may return.
\<close>

inductive gs_step ::
  "nat \<Rightarrow> (gs_handler list \<Rightarrow> bool) \<Rightarrow> (string \<times> nat option) list \<Rightarrow> (string \<times> nat option) list \<Rightarrow> gs_state \<Rightarrow> gs_state \<Rightarrow> bool"
  for drain_timeout returns ms rs where
  Call: "accepting (gs_phase s) \<Longrightarrow>
    gs_step drain_timeout returns ms rs s (s\<lparr>gs_running := gs_running s @ [Started], gs_strong := gs_strong s + 1\<rparr>)"
| Look: "t < length (gs_running s) \<Longrightarrow> gs_running s ! t = Started \<Longrightarrow>
    gs_step drain_timeout returns ms rs s (s\<lparr>gs_running := (gs_running s)[t := look_at_token (gs_cancelled s)]\<rparr>)"
| Done: "t < length (gs_running s) \<Longrightarrow>
    gs_step drain_timeout returns ms rs s
      (s\<lparr>gs_running := take t (gs_running s) @ drop (Suc t) (gs_running s), gs_strong := gs_strong s - 1\<rparr>)"
| Tick: "gs_step drain_timeout returns ms rs s (s\<lparr>gs_clock := gs_clock s + 1\<rparr>)"
| Signal: "gs_phase s = Serving \<Longrightarrow>
    gs_step drain_timeout returns ms rs s
      (s\<lparr>gs_phase := Draining (gs_clock s + drain_timeout), gs_cancelled := True, gs_signal := Some (gs_clock s)\<rparr>)"
| Close: "gs_phase s = Draining d \<Longrightarrow> d \<le> gs_clock s \<Longrightarrow>
    gs_step drain_timeout returns ms rs s (s\<lparr>gs_phase := Closing\<rparr>)"
| Return: "gs_phase s = Closing \<Longrightarrow> returns (gs_running s) \<Longrightarrow>
    gs_step drain_timeout returns ms rs s (s\<lparr>gs_phase := Returned, gs_strong := gs_strong s - 1\<rparr>)"
| Drain: "gs_phase s = Returned \<Longrightarrow>
    gs_step drain_timeout returns ms rs s
      (s\<lparr>gs_phase := Exited, gs_stopped := drain_batchers (gs_strong s = 1) ms rs, gs_strong := gs_strong s - 1\<rparr>)"

section \<open>The invariant\<close>

definition gs_refs :: "gs_phase \<Rightarrow> nat" where
  "gs_refs ph = (case ph of Returned \<Rightarrow> 1 | Exited \<Rightarrow> 0 | _ \<Rightarrow> 2)"

definition gs_ok :: "nat \<Rightarrow> (string \<times> nat option) list \<Rightarrow> (string \<times> nat option) list \<Rightarrow> gs_state \<Rightarrow> bool" where
  "gs_ok drain_timeout ms rs s \<longleftrightarrow>
     gs_strong s = length (gs_running s) + gs_refs (gs_phase s) \<and>
     (gs_phase s \<in> {Returned, Exited} \<longrightarrow> gs_running s = []) \<and>
     (gs_cancelled s \<longleftrightarrow> gs_phase s \<noteq> Serving) \<and>
     gs_stopped s = (if gs_phase s = Exited then drain_batchers True ms rs else []) \<and>
     (case gs_phase s of
        Serving \<Rightarrow> gs_signal s = None \<and> Rejected \<notin> set (gs_running s)
      | Draining d \<Rightarrow> \<exists>t0. gs_signal s = Some t0 \<and> d = t0 + drain_timeout \<and> t0 \<le> gs_clock s
      | _ \<Rightarrow> \<exists>t0. gs_signal s = Some t0 \<and> t0 + drain_timeout \<le> gs_clock s)"

lemma gs_start_ok: "gs_ok drain_timeout ms rs (gs_start now)"
  by (simp add: gs_ok_def gs_start_def gs_refs_def)

lemma gs_step_ok:
  assumes "gs_step drain_timeout returns ms rs s s'" and "\<And>hs. returns hs \<Longrightarrow> hs = []" and "gs_ok drain_timeout ms rs s"
  shows "gs_ok drain_timeout ms rs s'"
  using assms(1,3)
proof (induction rule: gs_step.induct)
  case (Call s)
  then show ?case by (auto simp: gs_ok_def gs_refs_def accepting_def split: gs_phase.splits)
next
  case (Look t s)
  then have "set ((gs_running s)[t := look_at_token (gs_cancelled s)]) \<subseteq> insert (look_at_token (gs_cancelled s)) (set (gs_running s))"
    by (simp add: set_update_subset_insert)
  with Look show ?case
    by (auto simp: gs_ok_def look_at_token_def split: gs_phase.splits)
next
  case (Done t s)
  then show ?case
    by (auto simp: gs_ok_def gs_refs_def split: gs_phase.splits dest: in_set_takeD in_set_dropD)
next
  case (Tick s)
  then show ?case by (auto simp: gs_ok_def split: gs_phase.splits)
next
  case (Signal s)
  then show ?case by (auto simp: gs_ok_def gs_refs_def)
next
  case (Close s d)
  then show ?case by (auto simp: gs_ok_def gs_refs_def)
next
  case (Return s)
  then show ?case using assms(2) [of "gs_running s"] by (auto simp: gs_ok_def gs_refs_def)
next
  case (Drain s)
  then show ?case by (auto simp: gs_ok_def gs_refs_def)
qed

locale graceful_shutdown =
  fixes drain_timeout :: nat
    and returns :: "gs_handler list \<Rightarrow> bool"
    and ms rs :: "(string \<times> nat option) list"
  assumes returns: "returns hs \<Longrightarrow> hs = []"

sublocale graceful_shutdown \<subseteq>
  server: invariant_system "\<lambda>s. \<exists>now. s = gs_start now" "gs_step drain_timeout returns ms rs" "gs_ok drain_timeout ms rs"
  by unfold_locales (auto intro: gs_start_ok gs_step_ok returns)

context graceful_shutdown
begin

lemma always_ok: "reach (\<lambda>s. \<exists>now. s = gs_start now) (gs_step drain_timeout returns ms rs) s \<Longrightarrow> gs_ok drain_timeout ms rs s"
  by (rule server.reach_inv)

end

interpretation last_handler: graceful_shutdown drain_timeout "\<lambda>hs. hs = []" ms rs for drain_timeout ms rs
  by unfold_locales

section \<open>The server can always come to its end\<close>

lemma done_all:
  "(gs_step drain_timeout returns ms rs)\<^sup>*\<^sup>* s (s\<lparr>gs_running := [], gs_strong := gs_strong s - length (gs_running s)\<rparr>)"
proof (induction "gs_running s" arbitrary: s)
  case Nil
  then have "s\<lparr>gs_running := [], gs_strong := gs_strong s - length (gs_running s)\<rparr> = s" by (cases s) simp
  then show ?case by (simp only: rtranclp.rtrancl_refl)
next
  case (Cons h hs)
  let ?s = "s\<lparr>gs_running := hs, gs_strong := gs_strong s - 1\<rparr>"
  have r: "gs_running s = h # hs" using Cons.hyps(2) by simp
  have "gs_step drain_timeout returns ms rs s ?s"
    using gs_step.Done [of 0 s drain_timeout returns ms rs] by (simp add: r)
  moreover have "(gs_step drain_timeout returns ms rs)\<^sup>*\<^sup>* ?s (s\<lparr>gs_running := [], gs_strong := gs_strong s - length (gs_running s)\<rparr>)"
    using Cons.hyps(1) [of ?s] by (simp add: r)
  ultimately show ?case by (rule converse_rtranclp_into_rtranclp)
qed

lemma ticks: "(gs_step drain_timeout returns ms rs)\<^sup>*\<^sup>* s (s\<lparr>gs_clock := gs_clock s + n\<rparr>)"
proof (induction n)
  case (Suc n)
  then show ?case
    using gs_step.Tick [of drain_timeout returns ms rs "s\<lparr>gs_clock := gs_clock s + n\<rparr>"]
    by (simp add: rtranclp.rtrancl_into_rtrancl)
qed simp

lemma exit_returned:
  assumes "gs_phase s = Returned"
  shows "\<exists>s'. (gs_step drain_timeout returns ms rs)\<^sup>*\<^sup>* s s' \<and> gs_phase s' = Exited"
proof -
  let ?x = "s\<lparr>gs_phase := Exited, gs_stopped := drain_batchers (gs_strong s = 1) ms rs, gs_strong := gs_strong s - 1\<rparr>"
  have "(gs_step drain_timeout returns ms rs)\<^sup>*\<^sup>* s ?x" using gs_step.Drain [OF assms] by (rule r_into_rtranclp)
  then show ?thesis by (intro exI [of _ ?x]) simp
qed

lemma exit_closing:
  assumes "gs_phase s = Closing" "returns (gs_running s)"
  shows "\<exists>s'. (gs_step drain_timeout returns ms rs)\<^sup>*\<^sup>* s s' \<and> gs_phase s' = Exited"
proof -
  let ?r = "s\<lparr>gs_phase := Returned, gs_strong := gs_strong s - 1\<rparr>"
  have "gs_step drain_timeout returns ms rs s ?r" by (rule gs_step.Return) (fact assms)+
  moreover obtain s' where "(gs_step drain_timeout returns ms rs)\<^sup>*\<^sup>* ?r s'" "gs_phase s' = Exited"
    using exit_returned [of ?r drain_timeout returns ms rs] by auto
  ultimately show ?thesis by (meson converse_rtranclp_into_rtranclp)
qed

lemma exit_draining:
  assumes "gs_phase s = Draining d" "gs_running s = []" "returns []"
  shows "\<exists>s'. (gs_step drain_timeout returns ms rs)\<^sup>*\<^sup>* s s' \<and> gs_phase s' = Exited"
proof -
  let ?t = "s\<lparr>gs_clock := gs_clock s + d\<rparr>"
  have "gs_step drain_timeout returns ms rs ?t (?t\<lparr>gs_phase := Closing\<rparr>)"
    using assms(1) by (intro gs_step.Close [of _ d]) simp_all
  with ticks have run: "(gs_step drain_timeout returns ms rs)\<^sup>*\<^sup>* s (?t\<lparr>gs_phase := Closing\<rparr>)"
    by (rule rtranclp.rtrancl_into_rtrancl)
  obtain s' where "(gs_step drain_timeout returns ms rs)\<^sup>*\<^sup>* (?t\<lparr>gs_phase := Closing\<rparr>) s'" "gs_phase s' = Exited"
    using exit_closing [of "?t\<lparr>gs_phase := Closing\<rparr>" returns drain_timeout ms rs] assms by auto
  with run show ?thesis by (meson rtranclp_trans)
qed

lemma exit_reachable:
  assumes "returns []"
  shows "\<exists>s'. (gs_step drain_timeout returns ms rs)\<^sup>*\<^sup>* s s' \<and> gs_phase s' = Exited"
proof -
  let ?step = "gs_step drain_timeout returns ms rs"
  let ?e = "s\<lparr>gs_running := [], gs_strong := gs_strong s - length (gs_running s)\<rparr>"
  have "\<exists>s'. ?step\<^sup>*\<^sup>* ?e s' \<and> gs_phase s' = Exited"
  proof (cases "gs_phase s")
    case Serving
    let ?d = "?e\<lparr>gs_phase := Draining (gs_clock ?e + drain_timeout), gs_cancelled := True, gs_signal := Some (gs_clock ?e)\<rparr>"
    have "?step ?e ?d" using Serving by (intro gs_step.Signal) simp
    moreover obtain s' where "?step\<^sup>*\<^sup>* ?d s'" "gs_phase s' = Exited"
      using exit_draining [of ?d _ returns drain_timeout ms rs] assms by auto
    ultimately show ?thesis by (meson converse_rtranclp_into_rtranclp)
  next
    case (Draining d)
    then show ?thesis using exit_draining [of ?e d returns drain_timeout ms rs] assms by simp
  next
    case Closing
    then show ?thesis using exit_closing [of ?e returns drain_timeout ms rs] assms by simp
  next
    case Returned
    then show ?thesis using exit_returned [of ?e drain_timeout returns ms rs] by simp
  next
    case Exited
    then show ?thesis by (intro exI [of _ ?e]) simp
  qed
  then show ?thesis using done_all by (meson rtranclp_trans)
qed

section \<open>Property\<close>


section \<open>Witness\<close>


end
