(* ===== verification/Server.thy ===== *)
theory Server
  imports Shutdown
begin

text \<open>
  The start of the server as a whole (\<open>src/src/main.rs\<close>): from the environment to the shared
  state the handlers work on, or to the error it exits with. The functions that load a
  model, attach a batcher and launch a worker, the dispatch through a worker pool and the
  iteration order of the registries are parameters, and so is the parser of decimal numbers.
\<close>

section \<open>From the environment to the state\<close>

record starters =
  st_parse_f64 :: "string \<Rightarrow> fl option"
  st_load_embed :: "ModelDef \<Rightarrow> string + embed_session"
  st_batch_embed :: "ModelDef \<Rightarrow> embed_session \<Rightarrow> batch_fn"
  st_load_rerank :: "RerankerModelDef \<Rightarrow> string + rerank_session"
  st_batch_rerank :: "RerankerModelDef \<Rightarrow> rerank_session \<Rightarrow> batch_fn"
  st_load_splade :: "SpladeModelDef \<Rightarrow> string + SpladeModel"
  st_launched :: "SpawnSpec \<Rightarrow> string + WorkerSupervisor"
  st_dispatch_embed :: "WorkerPool \<Rightarrow> embed_dispatch"
  st_dispatch_rerank :: "WorkerPool \<Rightarrow> rerank_dispatch"
  st_dispatch_splade :: "WorkerPool \<Rightarrow> splade_dispatch"
  st_order_rerank :: "(string \<times> RerankerEntry) list \<Rightarrow> (string \<times> RerankerEntry) list"
  st_order_splade :: "(string \<times> SpladeModel option) list \<Rightarrow> (string \<times> SpladeModel option) list"

record ('s, 't) server_state =
  sv_app :: AppState
  sv_rerank :: RerankState
  sv_splade :: SpladeState
  sv_cache :: "'s option"
  sv_token_cache :: "'t option"
  sv_drain_timeout :: nat

text \<open>
  Whether every batcher of the embedding models can be made: a queue of length 0 and an invalid
  length ratio are panics of the constructor. No model decides either, so the batchers of the
  rerankers, which come later, can then be made as well (\<open>reranker_batchers_start\<close>).
\<close>

definition batchers_start :: "starters \<Rightarrow> env \<Rightarrow> Config \<Rightarrow> bool" where
  "batchers_start bo e cfg \<longleftrightarrow>
     cfg_multi_process cfg \<or> \<not> cfg_batching_enabled cfg \<or>
     list_all (\<lambda>d. embed_batcher (st_parse_f64 bo) e cfg d \<noteq> None) (cfg_models cfg)"

text \<open>
  The registries of the three kinds of model; the first model that does not load ends the start,
  and \<open>None\<close> is the panic of a batcher, after the embedding models have been loaded.
\<close>

definition registries ::
  "starters \<Rightarrow> env \<Rightarrow> Config \<Rightarrow>
   (string + (string \<times> ModelEntry) list \<times> (string \<times> RerankerEntry) list \<times> (string \<times> SpladeModel option) list) option" where
  "registries bo e cfg =
     (case model_entries (st_load_embed bo) (st_batch_embed bo) cfg of
        Inl msg \<Rightarrow> Some (Inl msg)
      | Inr ms \<Rightarrow>
          if \<not> batchers_start bo e cfg then None
          else Some (bind_res (reranker_entries (st_load_rerank bo) (st_batch_rerank bo) cfg) (\<lambda>rs.
            bind_res (splade_entries (st_load_splade bo) cfg) (\<lambda>ss. Inr (ms, rs, ss)))))"

text \<open>
  \<open>None\<close> is a panic: that of a batcher, or of a semaphore with too many permits. \<open>Inl\<close> is an
  exit with a message.
\<close>

definition start_server ::
  "('s, 'k, 'v) moka \<Rightarrow> ('t, 'k, 'w) moka \<Rightarrow> starters \<Rightarrow> env \<Rightarrow> (string + ('s, 't) server_state) option" where
  "start_server m tk bo e =
     (case from_env e of
        Inl msg \<Rightarrow> Some (Inl (''config error: '' @ msg))
      | Inr cfg \<Rightarrow> (case registries bo e cfg of
            None \<Rightarrow> None
          | Some (Inl msg) \<Rightarrow> Some (Inl msg)
          | Some (Inr (ms, rs, ss)) \<Rightarrow> (case rerank_semaphore e cfg of
                None \<Rightarrow> None
              | Some cap \<Rightarrow> (case build_worker_pool (st_launched bo) e cfg of
                    Inl msg \<Rightarrow> Some (Inl msg)
                  | Inr wp \<Rightarrow> Some (Inr
                      \<lparr>sv_app = \<lparr>app_models = map_of ms, default_model = cfg_default_model cfg, shutdown_cancelled = False,
                                embed_max_input_array = cfg_embed_max_input_array cfg,
                                worker_pool = map_option (st_dispatch_embed bo) wp\<rparr>,
                       sv_rerank = \<lparr>rerankers = st_order_rerank bo rs, rk_shutdown_cancelled = False, available_permits = cap,
                                   rerank_max_input_docs = cfg_rerank_max_input_docs cfg,
                                   rk_worker_pool = map_option (st_dispatch_rerank bo) wp\<rparr>,
                       sv_splade = \<lparr>splades = st_order_splade bo ss, sp_shutdown_cancelled = False,
                                   sp_worker_pool = map_option (st_dispatch_splade bo) wp\<rparr>,
                       sv_cache = cache_new m (cfg_cache_max_entries cfg),
                       sv_token_cache = cache_new tk (cfg_token_cache_max_entries cfg),
                       sv_drain_timeout = cfg_drain_timeout_s cfg\<rparr>)))))"

section \<open>What the registries hold\<close>

lemma set_update_subset: "set (AList.update k v m) \<subseteq> insert (k, v) (set m)"
  by (induction m) auto

lemma insert_all_subset: "set (insert_all kvs) \<subseteq> set kvs"
proof -
  have "set (fold (\<lambda>(k, v) m. AList.update k v m) kvs m) \<subseteq> set m \<union> set kvs" for m
  proof (induction kvs arbitrary: m)
    case (Cons kv kvs)
    obtain k v where kv: "kv = (k, v)" by fastforce
    show ?case using Cons.IH [of "AList.update k v m"] set_update_subset [of k v m] by (auto simp: kv)
  qed simp
  from this [of "[]"] show ?thesis by (simp add: insert_all_def)
qed

lemma pool_present: "build_worker_pool launched e cfg = Inr wp \<Longrightarrow> wp \<noteq> None \<longleftrightarrow> cfg_multi_process cfg"
  by (auto simp: build_worker_pool_def bind_res_Inr_iff split: if_splits)

text \<open>In a process without workers every entry of a registry comes from a model that was loaded.\<close>

lemma collect_pairs:
  assumes "collect_res (\<lambda>d. bind_res (exit_on what (nm d) (load d)) (\<lambda>m. Inr (g d m))) ds = Inr xs" and "x \<in> set xs"
  shows "\<exists>d m. d \<in> set ds \<and> load d = Inr m \<and> x = g d m"
proof -
  have "list_all2 (\<lambda>d x. bind_res (exit_on what (nm d) (load d)) (\<lambda>m. Inr (g d m)) = Inr x) ds xs"
    using assms(1) by (simp add: collect_res_Inr_iff)
  moreover obtain i where i: "i < length xs" "x = xs ! i" using assms(2) by (auto simp: in_set_conv_nth)
  ultimately have d: "ds ! i \<in> set ds" "bind_res (exit_on what (nm (ds ! i)) (load (ds ! i))) (\<lambda>m. Inr (g (ds ! i) m)) = Inr x"
    by (auto simp: list_all2_conv_all_nth)
  then have "\<exists>m. load (ds ! i) = Inr m \<and> x = g (ds ! i) m"
    by (cases "load (ds ! i)") (auto simp: exit_on_def map_err_def)
  with d(1) show ?thesis by blast
qed

lemma model_entries_loaded:
  assumes "model_entries load attach cfg = Inr es" "\<not> cfg_multi_process cfg" "(x, entry) \<in> set es"
  shows "me_model entry \<noteq> None"
proof -
  obtain loaded where "es = insert_all (map (\<lambda>(d, m). (md_name d,
          \<lparr>me_model = Some m, me_batcher = (if cfg_batching_enabled cfg then Some (attach d m) else None)\<rparr>)) loaded)"
    using assms(1,2) by (auto simp: model_entries_def bind_res_Inr_iff)
  with assms(3) show ?thesis using insert_all_subset by fastforce
qed

lemma reranker_entries_loaded:
  assumes "reranker_entries load attach cfg = Inr es" "\<not> cfg_multi_process cfg" "(x, entry) \<in> set es"
  shows "\<exists>d ses. load d = Inr ses \<and> rk_model entry = Some ses"
proof -
  obtain loaded where l: "collect_res (\<lambda>d. bind_res (exit_on ''reranker'' (rd_name d) (load d)) (\<lambda>m. Inr (d, m))) (cfg_rerankers cfg) = Inr loaded"
    and es: "es = insert_all (map (\<lambda>(d, m). (rd_name d,
          \<lparr>rk_model = Some m, rk_batcher = (if cfg_batching_enabled cfg then Some (attach d m) else None)\<rparr>)) loaded)"
    using assms(1,2) by (auto simp: reranker_entries_def bind_res_Inr_iff)
  from assms(3) obtain d m where "(d, m) \<in> set loaded" "rk_model entry = Some m"
    unfolding es using insert_all_subset by fastforce
  with collect_pairs [OF l] show ?thesis by blast
qed

lemma splade_entries_loaded:
  assumes "splade_entries load cfg = Inr es" "\<not> cfg_multi_process cfg" "(x, entry) \<in> set es"
  shows "entry \<noteq> None"
proof -
  obtain loaded where l: "collect_res (\<lambda>d. bind_res (exit_on ''splade'' (sd_name d) (load d)) (\<lambda>m. Inr (sd_name d, Some m))) (cfg_splades cfg) = Inr loaded"
    and es: "es = insert_all loaded"
    using assms(1,2) by (auto simp: splade_entries_def bind_res_Inr_iff)
  from assms(3) have "(x, entry) \<in> set loaded" unfolding es using insert_all_subset by blast
  with collect_pairs [OF l] show ?thesis by blast
qed

text \<open>The parts a started server is put together from.\<close>

lemma start_server_parts:
  assumes "start_server m tk bo e = Some (Inr sv)"
  obtains cfg ms rs ss wp where "from_env e = Inr cfg"
    and "model_entries (st_load_embed bo) (st_batch_embed bo) cfg = Inr ms"
    and "reranker_entries (st_load_rerank bo) (st_batch_rerank bo) cfg = Inr rs"
    and "splade_entries (st_load_splade bo) cfg = Inr ss"
    and "build_worker_pool (st_launched bo) e cfg = Inr wp"
    and "app_models (sv_app sv) = map_of ms" "default_model (sv_app sv) = cfg_default_model cfg"
      "worker_pool (sv_app sv) = map_option (st_dispatch_embed bo) wp"
    and "rerankers (sv_rerank sv) = st_order_rerank bo rs" "rk_worker_pool (sv_rerank sv) = map_option (st_dispatch_rerank bo) wp"
    and "splades (sv_splade sv) = st_order_splade bo ss" "sp_worker_pool (sv_splade sv) = map_option (st_dispatch_splade bo) wp"
  using assms that
  by (auto simp: start_server_def registries_def bind_res_Inr_iff split: sum.splits option.splits prod.splits if_splits)

section \<open>Batchers that cannot be made\<close>

lemma reranker_batchers_start:
  "embed_batcher pf e cfg d \<noteq> None \<Longrightarrow> reranker_batcher pf e cfg r \<noteq> None"
  by (auto simp: embed_batcher_def reranker_batcher_def with_tokens_def with_tokens_and_max_len_def split: if_splits option.splits)

text \<open>
  A configuration with a queue of length 0 is accepted and then panics: with batching switched
  on in the process, the server loads its embedding models and dies before it listens.
\<close>

lemma zero_queue_panics:
  assumes "from_env e = Inr cfg" "cfg_max_queue_size cfg = 0" "\<not> cfg_multi_process cfg" "cfg_batching_enabled cfg"
    and "\<And>d. d \<in> set (cfg_models cfg) \<Longrightarrow> \<exists>ses. st_load_embed bo d = Inr ses"
  shows "start_server m tk bo e = None"
proof -
  have "cfg_models cfg \<noteq> []" using from_env_config_ok [OF assms(1)] by (auto simp: config_ok_def)
  moreover have "embed_batcher pf e cfg d = None" for pf d
    using assms(2) by (simp add: embed_batcher_def with_tokens_and_max_len_def)
  ultimately have "\<not> batchers_start bo e cfg"
    using assms(3,4) by (cases "cfg_models cfg") (auto simp: batchers_start_def)
  moreover have "\<exists>ms. model_entries (st_load_embed bo) (st_batch_embed bo) cfg = Inr ms"
    using assms(3,5) collect_res_total [of "cfg_models cfg" "\<lambda>d. bind_res (exit_on ''model'' (md_name d) (st_load_embed bo d)) (\<lambda>m. Inr (d, m))"]
    by (fastforce simp: model_entries_def exit_on_def map_err_def)
  ultimately show ?thesis using assms(1) by (auto simp: start_server_def registries_def)
qed

section \<open>Property\<close>


section \<open>Witness\<close>

definition wit_starters :: starters where
  "wit_starters = \<lparr>st_parse_f64 = (\<lambda>_. None), st_load_embed = (\<lambda>d. Inr wit_session), st_batch_embed = (\<lambda>d s ids. Inl Shutdown),
     st_load_rerank = (\<lambda>d. Inl ''none''), st_batch_rerank = (\<lambda>d s ids. Inl Shutdown), st_load_splade = (\<lambda>d. Inl ''none''),
     st_launched = (\<lambda>s. Inl ''none''), st_dispatch_embed = (\<lambda>p md ts k. Inl (NoWorker md)),
     st_dispatch_rerank = (\<lambda>p md q ds k. Inl (NoWorker md)), st_dispatch_splade = (\<lambda>p md ts k n w. Inl (NoWorker md)),
     st_order_rerank = rev, st_order_splade = rev\<rparr>"

lemma wit_started:
  "\<exists>sv :: ((string \<times> string, fvec) lru, (string \<times> string, fvec) lru) server_state.
     start_server lru_moka lru_moka wit_starters wit_env = Some (Inr sv) \<and> default_model (sv_app sv) = ''b''"
proof -
  obtain cfg where cfg: "from_env wit_env = Inr cfg" "cfg_default_model cfg = ''b''" "\<not> cfg_multi_process cfg" "cfg_rerankers cfg = []"
      "cfg_splades cfg = []" "cfg_max_queue_size cfg \<noteq> 0" "cfg_reranker_pool_size cfg = parse_reranker_pool_size None" "cfg_reranker_intra_threads cfg = 2"
    using wit_from_env by blast
  have "\<exists>ms. model_entries (st_load_embed wit_starters) (st_batch_embed wit_starters) cfg = Inr ms"
    using cfg(3) collect_res_total [of "cfg_models cfg" "\<lambda>d. bind_res (exit_on ''model'' (md_name d) (Inr wit_session)) (\<lambda>m. Inr (d, m))"]
    by (auto simp: model_entries_def wit_starters_def exit_on_def map_err_def)
  moreover have "\<exists>cap. rerank_semaphore wit_env cfg = Some cap"
    by (simp add: rerank_semaphore_def wit_env_def auto_cap_def cfg(7,8) parse_reranker_pool_size_def sat_mul_def MAX_PERMITS_def usize_max_def)
  moreover have "batchers_start wit_starters wit_env cfg"
    using cfg(6) by (simp add: batchers_start_def embed_batcher_def with_tokens_and_max_len_def parse_length_ratio_threshold_def wit_env_def
        list_all_iff)
  ultimately show ?thesis
    using cfg by (auto simp: start_server_def registries_def reranker_entries_def splade_entries_def build_worker_pool_def
        wit_starters_def)
qed


end
