(* ===== verification/Metrics.thy ===== *)
theory Metrics
  imports Floats
begin

text \<open>
  The metrics of \<open>src/src/metrics.rs\<close>. Each recorder is the list of operations it performs on
  the metric registry: counters, gauges and histograms, each series named by the metric and
  its labels. The registry is a library; what the program relies on of it is the interface
  \<open>metric_registry\<close>. Durations are in nanoseconds.
\<close>

section \<open>Operations\<close>

type_synonym series = "string \<times> (string \<times> string) list"

datatype metric_op =
    CounterInc series nat
  | CounterAbs series nat
  | GaugeSet series fl
  | GaugeInc series fl
  | GaugeDec series fl
  | HistRecord series fl

fun op_series :: "metric_op \<Rightarrow> series" where
  "op_series (CounterInc s _) = s"
| "op_series (CounterAbs s _) = s"
| "op_series (GaugeSet s _) = s"
| "op_series (GaugeInc s _) = s"
| "op_series (GaugeDec s _) = s"
| "op_series (HistRecord s _) = s"

abbreviation of_model :: "string \<Rightarrow> string \<Rightarrow> series" where
  "of_model nm model \<equiv> (nm, [(''model'', model)])"

abbreviation f64_of :: "nat \<Rightarrow> fl" where "f64_of n \<equiv> fl_of_nat fmt64 n"

text \<open>\<open>Duration::as_secs_f64\<close>: whole seconds plus the fraction, both in double precision.\<close>

definition as_secs_f64 :: "nat \<Rightarrow> fl" where
  "as_secs_f64 ns =
     fl_add fmt64 (f64_of (ns div 10 ^ 9)) (fl_div_pos fmt64 (f64_of (ns mod 10 ^ 9)) (f64_of (10 ^ 9)))"

section \<open>Histogram buckets\<close>

datatype bucket_matcher = MatchFull string | MatchSuffix string

fun matches :: "bucket_matcher \<Rightarrow> string \<Rightarrow> bool" where
  "matches (MatchFull s) nm \<longleftrightarrow> nm = s"
| "matches (MatchSuffix s) nm \<longleftrightarrow> length s \<le> length nm \<and> drop (length nm - length s) nm = s"

definition MIB :: rat where "MIB = 1024 * 1024"
definition GIB :: rat where "GIB = 1024 * MIB"

definition DURATION_BUCKETS :: "rat list" where
  "DURATION_BUCKETS = [5 / 1000, 1 / 100, 25 / 1000, 5 / 100, 1 / 10, 25 / 100, 5 / 10, 1, 25 / 10, 5, 10, 30]"

definition apply_histogram_buckets :: "(bucket_matcher \<times> rat list) list" where
  "apply_histogram_buckets =
    [(MatchSuffix ''_duration_seconds'', DURATION_BUCKETS),
     (MatchSuffix ''batch_size'', [1, 2, 4, 8, 16, 32, 64, 128]),
     (MatchFull ''embed_batch_wait_ms'', [1, 5, 10, 25, 50, 100, 250, 500, 1000, 5000]),
     (MatchSuffix ''padding_waste_ratio'', [0, 1 / 10, 2 / 10, 3 / 10, 4 / 10, 5 / 10, 6 / 10, 7 / 10, 8 / 10, 9 / 10, 1]),
     (MatchFull ''embed_subbatch_groups'', [1, 2, 3, 4, 6, 8, 12, 16, 32]),
     (MatchFull ''embed_batch_tokens'', [128, 256, 512, 1024, 2048, 4096, 8192, 16384]),
     (MatchFull ''embed_texts_per_request'', [1, 2, 4, 8, 16, 32, 64, 128, 256, 512, 1024]),
     (MatchFull ''embed_rerank_pairs_per_request'', [1, 5, 10, 15, 20, 30, 50, 100]),
     (MatchFull ''embed_batch_token_budget'', [1000, 4000, 16000, 64000, 128000, 256000, 1000000, 4000000]),
     (MatchFull ''embed_inference_attention_scratch_bytes'', [MIB, 16 * MIB, 64 * MIB, 256 * MIB, GIB, 4 * GIB]),
     (MatchFull ''embed_inference_peak_bytes'', [16 * MIB, 64 * MIB, 256 * MIB, 512 * MIB, GIB, 2 * GIB, 4 * GIB, 8 * GIB]),
     (MatchFull ''embed_batch_max_effective_seq'', [1, 2, 4, 8, 16, 32, 64, 128, 256, 512]),
     (MatchFull ''embed_input_array_size'', [1, 2, 4, 8, 16, 32, 64, 128, 256, 512]),
     (MatchFull ''embed_rerank_input_docs_size'', [1, 2, 4, 8, 16, 32, 64, 128, 256, 512])]"

text \<open>The ladder of a histogram, if exactly one matcher applies; without one it is a summary.\<close>

definition ladder :: "string \<Rightarrow> rat list option" where
  "ladder nm = (case filter (\<lambda>(mt, _). matches mt nm) apply_histogram_buckets of [(_, bs)] \<Rightarrow> Some bs | _ \<Rightarrow> None)"

section \<open>Recorders\<close>

definition stamp_build_info :: "string \<Rightarrow> string \<Rightarrow> metric_op list" where
  "stamp_build_info pkg_version version =
     [GaugeSet (''embed_build_info'', [(''version'', version), (''pkg_version'', pkg_version)]) (Fin 1)]"

definition record_request :: "string \<Rightarrow> string \<Rightarrow> nat \<Rightarrow> nat \<Rightarrow> metric_op list" where
  "record_request model st duration texts =
     [CounterInc (''embed_requests_total'', [(''model'', model), (''status'', st)]) 1,
      HistRecord (of_model ''embed_request_duration_seconds'' model) (as_secs_f64 duration),
      HistRecord (of_model ''embed_texts_per_request'' model) (f64_of texts)]"

definition record_inference :: "string \<Rightarrow> nat \<Rightarrow> nat \<Rightarrow> metric_op list" where
  "record_inference model duration batch_size =
     [HistRecord (of_model ''embed_inference_duration_seconds'' model) (as_secs_f64 duration),
      HistRecord (of_model ''embed_batch_size'' model) (f64_of batch_size)]"

definition record_worker_inference :: "string \<Rightarrow> nat \<Rightarrow> nat \<Rightarrow> metric_op list" where
  "record_worker_inference model duration batch_size =
     [HistRecord (of_model ''embed_worker_inference_duration_seconds'' model) (as_secs_f64 duration),
      HistRecord (of_model ''embed_worker_batch_size'' model) (f64_of batch_size)]"

definition record_worker_queue_wait :: "string \<Rightarrow> nat \<Rightarrow> metric_op list" where
  "record_worker_queue_wait model duration =
     [HistRecord (of_model ''embed_worker_queue_wait_duration_seconds'' model) (as_secs_f64 duration)]"

definition record_queue_rejected :: "string \<Rightarrow> metric_op list" where
  "record_queue_rejected model = [CounterInc (''embed_queue_full_rejected_total'', [(''model'', model)]) 1]"

definition record_cancelled :: "string \<Rightarrow> metric_op list" where
  "record_cancelled model = [CounterInc (''embed_batcher_cancelled_items_total'', [(''model'', model)]) 1]"

definition set_queue_depth :: "string \<Rightarrow> nat \<Rightarrow> metric_op list" where
  "set_queue_depth model depth = [GaugeSet (''embed_queue_depth_current'', [(''model'', model)]) (f64_of depth)]"

definition record_batch_wait_ms :: "string \<Rightarrow> fl \<Rightarrow> metric_op list" where
  "record_batch_wait_ms model wait_ms = [HistRecord (''embed_batch_wait_ms'', [(''model'', model)]) wait_ms]"

definition record_batch_tokens :: "string \<Rightarrow> nat \<Rightarrow> metric_op list" where
  "record_batch_tokens model tokens = [HistRecord (''embed_batch_tokens'', [(''model'', model)]) (f64_of tokens)]"

text \<open>The ratio both padding recorders share: saturating subtraction, division, clamp.\<close>

definition fl_clamp :: "fl \<Rightarrow> fl \<Rightarrow> fl \<Rightarrow> fl" where
  "fl_clamp lo hi x = (if fl_lt x lo then lo else if fl_lt hi x then hi else x)"

definition waste_ratio :: "nat \<Rightarrow> nat \<Rightarrow> fl" where
  "waste_ratio padded raw =
     (if padded = 0 then Fin 0
      else fl_clamp (Fin 0) (Fin 1) (fl_div_pos fmt64 (f64_of (sat_sub padded raw)) (f64_of padded)))"

definition record_padding_waste :: "string \<Rightarrow> nat \<Rightarrow> nat \<Rightarrow> metric_op list" where
  "record_padding_waste model padded raw = [HistRecord (''embed_batch_padding_waste_ratio'', [(''model'', model)]) (waste_ratio padded raw)]"

definition record_tokenize_hard_clip :: "string \<Rightarrow> metric_op list" where
  "record_tokenize_hard_clip model = [CounterInc (''embed_tokenize_hard_clip_total'', [(''model'', model)]) 1]"

definition touch_tokenize_hard_clip :: "string \<Rightarrow> metric_op list" where
  "touch_tokenize_hard_clip model = [CounterAbs (''embed_tokenize_hard_clip_total'', [(''model'', model)]) 0]"

definition record_subbatch_groups :: "string \<Rightarrow> nat \<Rightarrow> metric_op list" where
  "record_subbatch_groups model groups = [HistRecord (''embed_subbatch_groups'', [(''model'', model)]) (f64_of groups)]"

definition set_subbatch_ratio :: "string \<Rightarrow> fl \<Rightarrow> metric_op list" where
  "set_subbatch_ratio model ratio = [GaugeSet (''embed_subbatch_ratio'', [(''model'', model)]) ratio]"

definition record_malloc_trim :: "bool \<Rightarrow> metric_op list" where
  "record_malloc_trim released =
     CounterInc (''embed_malloc_trim_invocations_total'', []) 1 #
     (if released then [CounterInc (''embed_malloc_trim_released_events_total'', []) 1] else [])"

definition record_seq_capped :: "string \<Rightarrow> metric_op list" where
  "record_seq_capped model = [CounterInc (''embed_batch_seq_capped_total'', [(''model'', model), (''reason'', ''seq_overflow'')]) 1]"

definition record_length_ratio_carry :: "string \<Rightarrow> metric_op list" where
  "record_length_ratio_carry model = [CounterInc (''embed_batch_seq_capped_total'', [(''model'', model), (''reason'', ''length_ratio'')]) 1]"

definition length_ratio_gate_enabled :: "string \<Rightarrow> bool \<Rightarrow> metric_op list" where
  "length_ratio_gate_enabled model enabled = [GaugeSet (''embed_length_ratio_gate_enabled'', [(''model'', model)]) (Fin (if enabled then 1 else 0))]"

definition record_solo_seq_overflow :: "string \<Rightarrow> metric_op list" where
  "record_solo_seq_overflow model = [CounterInc (''embed_batch_seq_capped_total'', [(''model'', model), (''reason'', ''solo_seq_overflow'')]) 1]"

definition record_batch_max_effective_seq :: "string \<Rightarrow> nat \<Rightarrow> metric_op list" where
  "record_batch_max_effective_seq model effective_seq = [HistRecord (''embed_batch_max_effective_seq'', [(''model'', model)]) (f64_of effective_seq)]"

definition record_carry :: "string \<Rightarrow> metric_op list" where
  "record_carry model = [CounterInc (''embed_carry_events_total'', [(''model'', model)]) 1]"

definition record_carry_lost :: "string \<Rightarrow> metric_op list" where
  "record_carry_lost model = [CounterInc (''embed_batcher_carry_lost_total'', [(''model'', model)]) 1]"

definition carry_lost_touch :: "string \<Rightarrow> metric_op list" where
  "carry_lost_touch model = [CounterAbs (''embed_batcher_carry_lost_total'', [(''model'', model)]) 0]"

definition record_cache_hit_n :: "string \<Rightarrow> nat \<Rightarrow> metric_op list" where
  "record_cache_hit_n model n = [CounterInc (''embed_cache_hit_total'', [(''model'', model)]) n]"

definition record_cache_miss_n :: "string \<Rightarrow> nat \<Rightarrow> metric_op list" where
  "record_cache_miss_n model n = [CounterInc (''embed_cache_miss_total'', [(''model'', model)]) n]"

definition record_cache_hit :: "string \<Rightarrow> metric_op list" where "record_cache_hit model = record_cache_hit_n model 1"

definition record_cache_miss :: "string \<Rightarrow> metric_op list" where "record_cache_miss model = record_cache_miss_n model 1"

definition set_cache_size :: "nat \<Rightarrow> metric_op list" where
  "set_cache_size sz = [GaugeSet (''embed_cache_size'', []) (f64_of sz)]"

definition record_tokenize_fallback :: "metric_op list" where
  "record_tokenize_fallback = [CounterInc (''embed_tokenize_fallback_total'', []) 1]"

definition record_token_cache_hit :: "string \<Rightarrow> nat \<Rightarrow> metric_op list" where
  "record_token_cache_hit model n = [CounterInc (''embed_token_cache_total'', [(''model'', model), (''outcome'', ''hit'')]) n]"

definition set_arena_gauges :: "nat \<Rightarrow> nat \<Rightarrow> nat \<Rightarrow> int \<Rightarrow> metric_op list" where
  "set_arena_gauges max_mem initial_chunk max_dead extend_strategy =
     [GaugeSet (''embed_arena_max_mem_bytes'', []) (f64_of max_mem),
      GaugeSet (''embed_arena_initial_chunk_bytes'', []) (f64_of initial_chunk),
      GaugeSet (''embed_arena_max_dead_bytes'', []) (f64_of max_dead),
      GaugeSet (''embed_arena_extend_strategy'',
        [(''strategy'', if extend_strategy = 1 then ''kSameAsRequested'' else ''kNextPowerOfTwo'')]) (Fin (of_int extend_strategy))]"

definition record_arena_register_skipped :: "metric_op list" where
  "record_arena_register_skipped = [CounterInc (''embed_arena_register_skipped_total'', []) 1]"

definition record_arena_registration_failed :: "metric_op list" where
  "record_arena_registration_failed = [CounterInc (''embed_arena_registration_failed_total'', []) 1]"

definition arena_registration_failed_touch :: "metric_op list" where
  "arena_registration_failed_touch = [CounterAbs (''embed_arena_registration_failed_total'', []) 0]"

definition record_onnx_cache_disabled :: "string \<Rightarrow> metric_op list" where
  "record_onnx_cache_disabled reason = [CounterInc (''embed_onnx_cache_disabled_total'', [(''reason'', reason)]) 1]"

definition record_warmup_failed :: "string \<Rightarrow> string \<Rightarrow> metric_op list" where
  "record_warmup_failed model phase = [CounterInc (''embed_warmup_failed_total'', [(''model'', model), (''phase'', phase)]) 1]"

definition record_config_fallback :: "string \<Rightarrow> metric_op list" where
  "record_config_fallback env_var = [CounterInc (''embed_config_fallback_total'', [(''env_var'', env_var)]) 1]"

definition record_token_cache_miss :: "string \<Rightarrow> nat \<Rightarrow> metric_op list" where
  "record_token_cache_miss model n = [CounterInc (''embed_token_cache_total'', [(''model'', model), (''outcome'', ''miss'')]) n]"

text \<open>\<open>batch_size * seq_len\<close> is a \<open>usize\<close> product that wraps in a release build.\<close>

definition record_batch_token_budget :: "string \<Rightarrow> nat \<Rightarrow> nat \<Rightarrow> metric_op list" where
  "record_batch_token_budget model batch_size seq_len =
     [HistRecord (of_model ''embed_batch_token_budget'' model) (f64_of ((batch_size * seq_len) mod 2 ^ 64))]"

definition bs_bucket :: "nat \<Rightarrow> string" where
  "bs_bucket n =
     (if n = 1 then ''1'' else if n = 2 then ''2'' else if 3 \<le> n \<and> n \<le> 4 then ''4'' else if 5 \<le> n \<and> n \<le> 8 then ''8''
      else if 9 \<le> n \<and> n \<le> 16 then ''16'' else ''32+'')"

definition sl_bucket :: "nat \<Rightarrow> string" where
  "sl_bucket n =
     (if n \<le> 64 then ''64'' else if n \<le> 128 then ''128'' else if n \<le> 256 then ''256'' else if n \<le> 384 then ''384'' else ''512+'')"

definition record_batch_dimensions :: "string \<Rightarrow> nat \<Rightarrow> nat \<Rightarrow> metric_op list" where
  "record_batch_dimensions model batch_size seq_len =
     [CounterInc (''embed_batch_dimensions_total'',
        [(''model'', model), (''batch_size_bucket'', bs_bucket batch_size), (''seq_len_bucket'', sl_bucket seq_len)]) 1]"

definition record_attention_scratch :: "string \<Rightarrow> nat \<Rightarrow> nat \<Rightarrow> nat \<Rightarrow> metric_op list" where
  "record_attention_scratch model batch_size num_heads seq_len =
     [HistRecord (of_model ''embed_inference_attention_scratch_bytes'' model)
        (fl_mul fmt64 (fl_mul fmt64 (fl_mul fmt64 (f64_of batch_size) (f64_of num_heads))
          (fl_mul fmt64 (f64_of seq_len) (f64_of seq_len))) (Fin 4))]"

definition record_inference_peak_bytes :: "string \<Rightarrow> nat \<Rightarrow> metric_op list" where
  "record_inference_peak_bytes model delta_bytes = [HistRecord (''embed_inference_peak_bytes'', [(''model'', model)]) (f64_of delta_bytes)]"

definition record_arena_extend :: "string \<Rightarrow> nat \<Rightarrow> metric_op list" where
  "record_arena_extend model bin_num = [CounterInc (''embed_arena_extend_total'', [(''model'', model), (''bin_num'', show_nat bin_num)]) 1]"

definition record_inference_failure :: "string \<Rightarrow> string \<Rightarrow> nat \<Rightarrow> metric_op list" where
  "record_inference_failure model reason bin_num = [CounterInc (''embed_inference_failures_total'', [(''model'', model), (''reason'', reason), (''bin_num'', show_nat bin_num)]) 1]"

definition record_rerank_request :: "string \<Rightarrow> string \<Rightarrow> nat \<Rightarrow> nat \<Rightarrow> metric_op list" where
  "record_rerank_request model st duration doc_count =
     [CounterInc (''embed_rerank_requests_total'', [(''model'', model), (''status'', st)]) 1,
      HistRecord (of_model ''embed_rerank_request_duration_seconds'' model) (as_secs_f64 duration),
      HistRecord (of_model ''embed_rerank_pairs_per_request'' model) (f64_of doc_count)]"

definition record_rerank_inference :: "string \<Rightarrow> nat \<Rightarrow> nat \<Rightarrow> metric_op list" where
  "record_rerank_inference model duration batch_size =
     [HistRecord (of_model ''embed_rerank_inference_duration_seconds'' model) (as_secs_f64 duration),
      HistRecord (of_model ''embed_rerank_batch_size'' model) (f64_of batch_size)]"

definition record_rerank_tokenizer :: "string \<Rightarrow> nat \<Rightarrow> metric_op list" where
  "record_rerank_tokenizer model duration = [HistRecord (''embed_rerank_tokenizer_duration_seconds'', [(''model'', model)]) (as_secs_f64 duration)]"

definition record_rerank_pool_acquire :: "string \<Rightarrow> nat \<Rightarrow> metric_op list" where
  "record_rerank_pool_acquire model duration = [HistRecord (''embed_rerank_pool_acquire_duration_seconds'', [(''model'', model)]) (as_secs_f64 duration)]"

definition record_rerank_padding_waste :: "string \<Rightarrow> nat \<Rightarrow> nat \<Rightarrow> metric_op list" where
  "record_rerank_padding_waste model padded raw = [HistRecord (''embed_rerank_padding_waste_ratio'', [(''model'', model)]) (waste_ratio padded raw)]"

text \<open>The in-flight guard: what its construction and its drop do.\<close>

definition in_flight_new :: "string \<Rightarrow> metric_op list" where
  "in_flight_new model = [GaugeInc (''embed_rerank_in_flight'', [(''model'', model)]) (Fin 1)]"

definition in_flight_drop :: "string \<Rightarrow> metric_op list" where
  "in_flight_drop model = [GaugeDec (''embed_rerank_in_flight'', [(''model'', model)]) (Fin 1)]"

definition record_input_array_rejected :: "string \<Rightarrow> string \<Rightarrow> metric_op list" where
  "record_input_array_rejected model reason = [CounterInc (''embed_input_array_rejected_total'', [(''model'', model), (''reason'', reason)]) 1]"

definition record_input_array_size :: "string \<Rightarrow> nat \<Rightarrow> metric_op list" where
  "record_input_array_size model n = [HistRecord (''embed_input_array_size'', [(''model'', model)]) (f64_of n)]"

definition record_batcher_first_item_oversize :: "string \<Rightarrow> string \<Rightarrow> metric_op list" where
  "record_batcher_first_item_oversize model reason = [CounterInc (''embed_batcher_first_item_oversize_total'', [(''model'', model), (''reason'', reason)]) 1]"

definition set_arena_shrink_enabled :: "string \<Rightarrow> bool \<Rightarrow> metric_op list" where
  "set_arena_shrink_enabled model enabled = [GaugeSet (''embed_arena_shrink_enabled'', [(''model'', model)]) (Fin (if enabled then 1 else 0))]"

definition record_arena_shrink_call :: "string \<Rightarrow> metric_op list" where
  "record_arena_shrink_call model = [CounterInc (''embed_arena_shrink_calls_total'', [(''model'', model)]) 1]"

definition worker_restart_inc :: "string \<Rightarrow> metric_op list" where
  "worker_restart_inc model = [CounterInc (''embed_worker_restart_total'', [(''model'', model)]) 1]"

definition worker_restart_touch :: "string \<Rightarrow> metric_op list" where
  "worker_restart_touch model = [CounterAbs (''embed_worker_restart_total'', [(''model'', model)]) 0]"

definition set_worker_queue_depth :: "string \<Rightarrow> nat \<Rightarrow> metric_op list" where
  "set_worker_queue_depth model depth = [GaugeSet (''embed_worker_queue_depth'', [(''model'', model)]) (f64_of depth)]"

definition worker_rss_set :: "string \<Rightarrow> fl \<Rightarrow> metric_op list" where
  "worker_rss_set model b = [GaugeSet (''embed_worker_rss_bytes'', [(''model'', model)]) b]"

definition worker_rss_touch :: "string \<Rightarrow> metric_op list" where
  "worker_rss_touch model = [GaugeSet (''embed_worker_rss_bytes'', [(''model'', model)]) (Fin 0)]"

definition record_rerank_input_docs_rejected :: "string \<Rightarrow> metric_op list" where
  "record_rerank_input_docs_rejected reason = [CounterInc (''embed_rerank_input_docs_rejected_total'', [(''model'', ''unknown''), (''reason'', reason)]) 1]"

definition record_rerank_input_docs_size :: "nat \<Rightarrow> metric_op list" where
  "record_rerank_input_docs_size n = [HistRecord (''embed_rerank_input_docs_size'', [(''model'', ''unknown'')]) (f64_of n)]"

definition record_ready_probe :: "string \<Rightarrow> metric_op list" where
  "record_ready_probe result = [CounterInc (''embed_ready_probe_total'', [(''result'', result)]) 1]"

definition record_worker_heartbeat :: "string \<Rightarrow> string \<Rightarrow> metric_op list" where
  "record_worker_heartbeat model result = [CounterInc (''embed_worker_heartbeat_total'', [(''model'', model), (''result'', result)]) 1]"

definition ready_probe_touch :: "metric_op list" where
  "ready_probe_touch =
     [CounterAbs (''embed_ready_probe_total'', [(''result'', ''ok'')]) 0,
      CounterAbs (''embed_ready_probe_total'', [(''result'', ''timeout'')]) 0,
      CounterAbs (''embed_ready_probe_total'', [(''result'', ''error'')]) 0,
      CounterAbs (''embed_ready_probe_total'', [(''result'', ''shutdown'')]) 0]"

definition worker_heartbeat_touch :: "string \<Rightarrow> metric_op list" where
  "worker_heartbeat_touch model =
     map (\<lambda>result. CounterAbs (''embed_worker_heartbeat_total'', [(''model'', model), (''result'', result)]) 0)
       [''ok'', ''timeout'', ''error'', ''kill'', ''suppressed'']"

section \<open>The registry\<close>

text \<open>Series that were never touched count as zero.\<close>

definition total :: "nat option \<Rightarrow> nat" where
  "total c = (case c of None \<Rightarrow> 0 | Some n \<Rightarrow> n)"

definition level :: "fl option \<Rightarrow> fl" where
  "level g = (case g of None \<Rightarrow> Fin 0 | Some x \<Rightarrow> x)"

fun fl_neg :: "fl \<Rightarrow> fl" where
  "fl_neg NaN = NaN"
| "fl_neg (FInf s) = FInf (\<not> s)"
| "fl_neg (Fin q) = Fin (- q)"

text \<open>What an operation adds to a counter, and whether it is a counter operation on it at all.\<close>

fun inc_of :: "series \<Rightarrow> metric_op \<Rightarrow> nat" where
  "inc_of s (CounterInc t n) = (if t = s then n else 0)"
| "inc_of s _ = 0"

fun touch_only :: "metric_op \<Rightarrow> bool" where
  "touch_only (CounterAbs _ n) \<longleftrightarrow> n = 0"
| "touch_only _ \<longleftrightarrow> True"

text \<open>
  The promises of the registry: counters are 64-bit and wrap, an absolute value raises a
  counter but never lowers it, gauges add in double precision.
\<close>

locale metric_registry =
  fixes apply_op :: "metric_op \<Rightarrow> 'r \<Rightarrow> 'r"
    and counter :: "'r \<Rightarrow> series \<Rightarrow> nat option"
    and gauge :: "'r \<Rightarrow> series \<Rightarrow> fl option"
  assumes counter_inc: "counter (apply_op (CounterInc s n) r) = (counter r)(s \<mapsto> (total (counter r s) + n) mod 2 ^ 64)"
    and counter_abs: "counter (apply_op (CounterAbs s n) r) = (counter r)(s \<mapsto> max (total (counter r s)) n)"
    and counter_set: "counter (apply_op (GaugeSet s x) r) = counter r"
    and counter_gauge: "counter (apply_op (GaugeInc s x) r) = counter r" "counter (apply_op (GaugeDec s x) r) = counter r"
    and counter_hist: "counter (apply_op (HistRecord s x) r) = counter r"
    and gauge_set: "gauge (apply_op (GaugeSet s x) r) = (gauge r)(s \<mapsto> x)"
    and gauge_inc: "gauge (apply_op (GaugeInc s x) r) = (gauge r)(s \<mapsto> fl_add fmt64 (level (gauge r s)) x)"
    and gauge_dec: "gauge (apply_op (GaugeDec s x) r) = (gauge r)(s \<mapsto> fl_add fmt64 (level (gauge r s)) (fl_neg x))"
begin

lemmas counter_laws = counter_inc counter_abs counter_set counter_gauge counter_hist

lemma counter_step:
  "touch_only op \<Longrightarrow> total (counter r s) + inc_of s op < 2 ^ 64 \<Longrightarrow>
   total (counter (apply_op op r) s) = total (counter r s) + inc_of s op"
  by (cases op) (auto simp: counter_laws total_def)

text \<open>A counter grows by what the operations add to it.\<close>

lemma counter_fold:
  "list_all touch_only ops \<Longrightarrow> total (counter r s) + (\<Sum>op\<leftarrow>ops. inc_of s op) < 2 ^ 64 \<Longrightarrow>
   total (counter (fold apply_op ops r) s) = total (counter r s) + (\<Sum>op\<leftarrow>ops. inc_of s op)"
proof (induction ops arbitrary: r)
  case (Cons op ops)
  then show ?case using counter_step [of op r s] by simp
qed simp

text \<open>The gauge of the requests in flight counts the live guards exactly.\<close>

lemma in_flight_exact:
  assumes "level (gauge r (of_model ''embed_rerank_in_flight'' model)) = Fin (of_nat k)" "Suc k < 2 ^ 53"
  shows "level (gauge (fold apply_op (in_flight_new model) r) (of_model ''embed_rerank_in_flight'' model)) = Fin (of_nat (Suc k))"
    and "0 < k \<Longrightarrow> level (gauge (fold apply_op (in_flight_drop model) r) (of_model ''embed_rerank_in_flight'' model)) = Fin (of_nat (k - 1))"
    and "level (gauge (fold apply_op (in_flight_drop model) (fold apply_op (in_flight_new model) r))
           (of_model ''embed_rerank_in_flight'' model)) = Fin (of_nat k)"
proof -
  have up: "fl_round fmt64 (of_nat k + 1) = Fin (of_nat (Suc k))"
    using fl_round64_nat [OF assms(2)] by (simp add: add.commute)
  have down: "fl_round fmt64 (of_nat (Suc n) - 1) = Fin (of_nat n)" if "n < 2 ^ 53" for n
    using fl_round64_nat [OF that] by simp
  show "level (gauge (fold apply_op (in_flight_new model) r) (of_model ''embed_rerank_in_flight'' model)) = Fin (of_nat (Suc k))"
    using assms up by (simp add: in_flight_new_def gauge_inc level_def)
  show "level (gauge (fold apply_op (in_flight_drop model) r) (of_model ''embed_rerank_in_flight'' model)) = Fin (of_nat (k - 1))"
    if "0 < k"
  proof -
    from gr0_implies_Suc [OF that] obtain n where n: "k = Suc n" by blast
    then have "n < 2 ^ 53" using assms(2) by simp
    from down [OF this] show ?thesis using assms(1) by (simp add: in_flight_drop_def gauge_dec level_def n)
  qed
  have "k < 2 ^ 53" using assms(2) by simp
  from down [OF this] show "level (gauge (fold apply_op (in_flight_drop model) (fold apply_op (in_flight_new model) r))
           (of_model ''embed_rerank_in_flight'' model)) = Fin (of_nat k)"
    using assms up by (simp add: in_flight_new_def in_flight_drop_def gauge_inc gauge_dec level_def)
qed

end

text \<open>A registry as two maps satisfies the promises.\<close>

record registry =
  reg_counters :: "series \<Rightarrow> nat option"
  reg_gauges :: "series \<Rightarrow> fl option"

fun reg_apply :: "metric_op \<Rightarrow> registry \<Rightarrow> registry" where
  "reg_apply (CounterInc s n) r = r\<lparr>reg_counters := (reg_counters r)(s \<mapsto> (total (reg_counters r s) + n) mod 2 ^ 64)\<rparr>"
| "reg_apply (CounterAbs s n) r = r\<lparr>reg_counters := (reg_counters r)(s \<mapsto> max (total (reg_counters r s)) n)\<rparr>"
| "reg_apply (GaugeSet s x) r = r\<lparr>reg_gauges := (reg_gauges r)(s \<mapsto> x)\<rparr>"
| "reg_apply (GaugeInc s x) r = r\<lparr>reg_gauges := (reg_gauges r)(s \<mapsto> fl_add fmt64 (level (reg_gauges r s)) x)\<rparr>"
| "reg_apply (GaugeDec s x) r = r\<lparr>reg_gauges := (reg_gauges r)(s \<mapsto> fl_add fmt64 (level (reg_gauges r s)) (fl_neg x))\<rparr>"
| "reg_apply (HistRecord s x) r = r"

interpretation maps: metric_registry reg_apply reg_counters reg_gauges
  by unfold_locales simp_all

section \<open>Lemmas\<close>

text \<open>The ratio is a number between 0 and 1, and 0 when nothing is padded.\<close>

lemma waste_ratio_range:
  assumes "padded < 2 ^ 53"
  shows "\<exists>q. waste_ratio padded raw = Fin q \<and> 0 \<le> q \<and> q \<le> 1 \<and> (padded \<le> raw \<longrightarrow> q = 0)"
proof (cases "padded = 0")
  case False
  have w: "f64_of (padded - raw) = Fin (of_nat (padded - raw))"
    using assms by (simp add: fl_of_nat64)
  define r where "r = fl_div_pos fmt64 (f64_of (padded - raw)) (f64_of padded)"
  then have d: "r = fl_round fmt64 (of_nat (padded - raw) / of_nat padded)"
    using False by (simp add: w fl_of_nat64 [OF assms])
  have "r \<noteq> NaN" by (simp add: d fl_round_def Let_def)
  moreover have "r = Fin 0" if "padded \<le> raw"
    using that fl_round64_nat [of 0] by (simp add: d)
  moreover have "waste_ratio padded raw = fl_clamp (Fin 0) (Fin 1) r"
    using False by (simp add: waste_ratio_def sat_sub_def r_def)
  ultimately show ?thesis
    by (cases r) (auto simp: fl_clamp_def not_less)
qed (simp add: waste_ratio_def)

lemma bs_bucket_top: "bs_bucket n = ''32+'' \<longleftrightarrow> n = 0 \<or> 16 < n"
  by (auto simp: bs_bucket_def)

lemma sl_bucket_top: "sl_bucket n = ''512+'' \<longleftrightarrow> 384 < n"
  by (auto simp: sl_bucket_def)

lemma ladders_ascending: "list_all (\<lambda>(_, bs). sorted_wrt (<) bs) apply_histogram_buckets"
  by (simp add: apply_histogram_buckets_def DURATION_BUCKETS_def GIB_def MIB_def)

text \<open>Every histogram a recorder writes has exactly one ladder of buckets.\<close>

fun bucketed :: "metric_op \<Rightarrow> bool" where
  "bucketed (HistRecord s _) \<longleftrightarrow> ladder (fst s) \<noteq> None"
| "bucketed _ \<longleftrightarrow> True"

lemma histograms_bucketed:
  "list_all bucketed (record_request m st d n @ record_inference m d n @ record_worker_inference m d n @ record_worker_queue_wait m d)"
  "list_all bucketed (record_batch_wait_ms m x @ record_batch_tokens m n @ record_padding_waste m n k @ record_subbatch_groups m n)"
  "list_all bucketed (record_batch_max_effective_seq m n @ record_batch_token_budget m n k @ record_attention_scratch m n k j)"
  "list_all bucketed (record_inference_peak_bytes m n @ record_rerank_request m st d n @ record_rerank_inference m d n)"
  "list_all bucketed (record_rerank_tokenizer m d @ record_rerank_pool_acquire m d @ record_rerank_padding_waste m n k)"
  "list_all bucketed (record_input_array_size m n @ record_rerank_input_docs_size n)"
  by (simp_all add: ladder_def apply_histogram_buckets_def record_request_def record_inference_def record_worker_inference_def
      record_worker_queue_wait_def record_batch_wait_ms_def record_batch_tokens_def record_padding_waste_def record_subbatch_groups_def
      record_batch_max_effective_seq_def record_batch_token_budget_def record_attention_scratch_def record_inference_peak_bytes_def
      record_rerank_request_def record_rerank_inference_def record_rerank_tokenizer_def record_rerank_pool_acquire_def
      record_rerank_padding_waste_def record_input_array_size_def record_rerank_input_docs_size_def)

end
