(* ===== verification/Observability.thy ===== *)
theory Observability
  imports Metrics Api_Embeddings Api_Rerank Reranker_Model Api_Health
begin

text \<open>
  What the components report. The abstract metrics of the batcher, the session pools and the
  two endpoints are mapped to the recorders of \<open>src/src/metrics.rs\<close>, and the request counters
  are compared with the responses. The readers of the resident set size (\<open>src/src/proc.rs\<close>)
  and of the runtime's log lines (\<open>src/src/otel.rs\<close>) are here too.
\<close>

section \<open>Metrics of the components\<close>

text \<open>
  \<open>el\<close> is the elapsed time a recorder reads, in nanoseconds; \<open>waited\<close> gives the waiting time
  of an item of a batch.
\<close>

fun bmetric_ops :: "string \<Rightarrow> nat \<Rightarrow> (nat \<Rightarrow> nat) \<Rightarrow> bmetric \<Rightarrow> metric_op list" where
  "bmetric_ops m el waited Cancelled = record_cancelled m"
| "bmetric_ops m el waited Carry = record_carry m"
| "bmetric_ops m el waited SeqCapped = record_seq_capped m"
| "bmetric_ops m el waited LengthRatioCarry = record_length_ratio_carry m"
| "bmetric_ops m el waited SoloSeqOverflow = record_solo_seq_overflow m"
| "bmetric_ops m el waited (FirstItemOversize reason) = record_batcher_first_item_oversize m reason"
| "bmetric_ops m el waited (BatchTokens n) = record_batch_tokens m n"
| "bmetric_ops m el waited (PaddingWaste p n) = record_padding_waste m p n"
| "bmetric_ops m el waited (BatchDimensions b s) = record_batch_dimensions m b s"
| "bmetric_ops m el waited (MaxEffectiveSeq n) = record_batch_max_effective_seq m n"
| "bmetric_ops m el waited (BatchWait i) = record_batch_wait_ms m (fl_mul fmt64 (as_secs_f64 (waited i)) (Fin 1000))"
| "bmetric_ops m el waited (InferenceDone n) = record_inference m el n"
| "bmetric_ops m el waited (QueueDepth n) = set_queue_depth m n"
| "bmetric_ops m el waited QueueRejected = record_queue_rejected m"
| "bmetric_ops m el waited CarryLost = record_carry_lost m"

fun pool_metric_ops :: "string \<Rightarrow> pool_metric \<Rightarrow> metric_op list" where
  "pool_metric_ops m MutexPoisoned = [CounterInc (of_model ''embed_pool_mutex_poisoned_total'' m) 1]"
| "pool_metric_ops m ColdStart = [CounterInc (of_model ''embed_pool_cold_starts_total'' m) 1]"
| "pool_metric_ops m ReinitFailure = [CounterInc (of_model ''embed_pool_reinit_failures_total'' m) 1]"
| "pool_metric_ops m Eviction = [CounterInc (of_model ''embed_pool_evictions_total'' m) 1]"

fun emetric_ops :: "nat \<Rightarrow> emetric \<Rightarrow> metric_op list" where
  "emetric_ops el (RequestDone m st n) = record_request m st el n"
| "emetric_ops el (InputArraySize m n) = record_input_array_size m n"
| "emetric_ops el (InputArrayRejected m) = record_input_array_rejected m ''size_cap''"
| "emetric_ops el (CacheHitN m n) = record_cache_hit_n m n"
| "emetric_ops el (CacheMissN m n) = record_cache_miss_n m n"
| "emetric_ops el (CacheSize n) = set_cache_size n"
| "emetric_ops el (EmbedInference m n) = record_inference m el n"
| "emetric_ops el (InferenceFailure m reason) = record_inference_failure m reason 0"
| "emetric_ops el TokenizeFallback = record_tokenize_fallback"

fun rmetric_ops :: "nat \<Rightarrow> rmetric \<Rightarrow> metric_op list" where
  "rmetric_ops el (RerankRequestDone m st n) = record_rerank_request m st el n"
| "rmetric_ops el (RerankInputDocsSize n) = record_rerank_input_docs_size n"
| "rmetric_ops el RerankInputDocsRejected = record_rerank_input_docs_rejected ''size_cap''"
| "rmetric_ops el (RerankInferenceFailure m reason) = record_inference_failure m reason 0"
| "rmetric_ops el (TokenCacheHit m n) = record_token_cache_hit m n"
| "rmetric_ops el (TokenCacheMiss m n) = record_token_cache_miss m n"
| "rmetric_ops el (RerankTokenizer m) = record_rerank_tokenizer m el"

fun rk_metric_ops :: "string \<Rightarrow> nat \<Rightarrow> rk_metric \<Rightarrow> metric_op list" where
  "rk_metric_ops m el RkPoolAcquire = record_rerank_pool_acquire m el"
| "rk_metric_ops m el (RkInference n) = record_rerank_inference m el n"
| "rk_metric_ops m el (RkPaddingWaste p n) = record_rerank_padding_waste m p n"

text \<open>Series published at start with the value zero.\<close>

definition launch_touches :: "string \<Rightarrow> metric_op list" where
  "launch_touches model = worker_restart_touch model @ worker_rss_touch model @ worker_heartbeat_touch model"

definition boot_touches :: "string list \<Rightarrow> metric_op list" where
  "boot_touches names =
     set_cache_size 0 @ ready_probe_touch @
     concat (map (\<lambda>nm. record_token_cache_hit nm 0 @ record_token_cache_miss nm 0) names)"

section \<open>Resident set size of the workers\<close>

text \<open>\<open>str::lines\<close>: a carriage return before the line feed is dropped, an empty last line too.\<close>

definition str_lines :: "string \<Rightarrow> string list" where
  "str_lines s =
     (let ls = split_on (CHR 0x0A) s in
      map (\<lambda>l. if l \<noteq> [] \<and> last l = CHR 0x0D then butlast l else l) (butlast ls) @ (if last ls = [] then [] else [last ls]))"

text \<open>The first word of a text.\<close>

definition first_word :: "string \<Rightarrow> string option" where
  "first_word s = (case takeWhile (\<lambda>c. \<not> is_ws c) (dropWhile is_ws s) of [] \<Rightarrow> None | w \<Rightarrow> Some w)"

definition parse_vmrss_bytes :: "string \<Rightarrow> nat option" where
  "parse_vmrss_bytes content =
     (case List.find (\<lambda>l. starts_with l ''VmRSS:'') (str_lines content) of
        None \<Rightarrow> None
      | Some l \<Rightarrow>
          (case first_word (drop 6 l) of
             None \<Rightarrow> None
           | Some w \<Rightarrow> map_option (\<lambda>kb. (kb * 1024) mod 2 ^ 64) (parse_u64 w)))"

text \<open>\<open>read\<close> is the content of a file or an error of the system.\<close>

definition read_proc_status_rss :: "(string \<Rightarrow> string + string) \<Rightarrow> nat \<Rightarrow> string + nat" where
  "read_proc_status_rss read pid =
     (let path = ''/proc/'' @ show_nat pid @ ''/status'' in
      case read path of
        Inl e \<Rightarrow> Inl e
      | Inr content \<Rightarrow>
          (case parse_vmrss_bytes content of
             None \<Rightarrow> Inl (''VmRSS not found in /proc/'' @ show_nat pid @ ''/status'')
           | Some n \<Rightarrow> Inr n))"

text \<open>
  The resident set of the process itself, in pages of \<open>/proc/self/statm\<close>: the second of the
  words separated by ASCII white space, times the page size or 4096 if the system gives none;
  the product is one of \<open>u64\<close>.
\<close>

definition is_ascii_ws :: "char \<Rightarrow> bool" where
  "is_ascii_ws c \<longleftrightarrow> c \<in> {CHR 0x20, CHR 0x09, CHR 0x0A, CHR 0x0C, CHR 0x0D}"

definition second_word :: "string \<Rightarrow> string option" where
  "second_word s =
     (let from_first = dropWhile is_ascii_ws s;
          from_second = dropWhile is_ascii_ws (dropWhile (\<lambda>c. \<not> is_ascii_ws c) from_first)
      in case takeWhile (\<lambda>c. \<not> is_ascii_ws c) from_second of [] \<Rightarrow> None | w \<Rightarrow> Some w)"

definition read_rss_bytes :: "(string \<Rightarrow> string + string) \<Rightarrow> int \<Rightarrow> nat" where
  "read_rss_bytes read page_size =
     (case read ''/proc/self/statm'' of
        Inl _ \<Rightarrow> 0
      | Inr content \<Rightarrow> (case second_word content of
            None \<Rightarrow> 0
          | Some w \<Rightarrow> (case parse_u64 w of
                None \<Rightarrow> 0
              | Some pages \<Rightarrow> (pages * (if page_size \<le> 0 then 4096 else nat page_size)) mod 2 ^ 64)))"

definition peak_delta :: "nat \<Rightarrow> nat \<Rightarrow> nat" where
  "peak_delta rss_before rss_after = sat_sub rss_after rss_before"

text \<open>One tick of the poller: the gauge of a worker is set when its file can be read.\<close>

definition rss_tick :: "(string \<Rightarrow> string + string) \<Rightarrow> (string \<times> nat) list \<Rightarrow> metric_op list" where
  "rss_tick read pids =
     concat (map (\<lambda>(model, pid). case read_proc_status_rss read pid of
       Inl _ \<Rightarrow> [] | Inr n \<Rightarrow> worker_rss_set model (f64_of n)) pids)"

section \<open>Log lines of the runtime\<close>

fun after_first :: "string \<Rightarrow> string \<Rightarrow> string option" where
  "after_first pat [] = (if pat = [] then Some [] else None)"
| "after_first pat (c # cs) =
     (if starts_with (c # cs) pat then Some (drop (length pat) (c # cs)) else after_first pat cs)"

definition parse_bfc_extend :: "string \<Rightarrow> nat option" where
  "parse_bfc_extend msg =
     (if \<not> str_contains msg ''Extending BFCArena'' then None
      else case after_first ''bin_num:'' msg of
        None \<Rightarrow> None
      | Some after \<Rightarrow> parse_uint 32 (takeWhile is_digit after))"

definition on_event :: "string \<Rightarrow> string \<Rightarrow> metric_op list" where
  "on_event target msg =
     (if target \<noteq> ''ort::logging'' then []
      else case parse_bfc_extend msg of None \<Rightarrow> [] | Some bin_num \<Rightarrow> record_arena_extend ''unknown'' bin_num)"

section \<open>The metrics port of a worker\<close>

text \<open>
  The address a worker serves its metrics on. \<open>parse_addr\<close> reads a bind address with a port;
  if it fails, all interfaces are used.
\<close>

definition worker_metrics_addr :: "(string \<Rightarrow> 'a option) \<Rightarrow> (nat \<Rightarrow> 'a) \<Rightarrow> env \<Rightarrow> 'a option" where
  "worker_metrics_addr parse_addr any e =
     (case e ''EMBED_WORKER_METRICS_PORT'' of
        None \<Rightarrow> None
      | Some raw \<Rightarrow>
          (case parse_uint 16 (trim raw) of
             None \<Rightarrow> None
           | Some port \<Rightarrow>
               let bind = (case e ''EMBED_WORKER_METRICS_BIND'' of None \<Rightarrow> ''0.0.0.0'' | Some b \<Rightarrow> b) in
               Some (case parse_addr (bind @ '':'' @ show_nat port) of Some a \<Rightarrow> a | None \<Rightarrow> any port)))"

section \<open>Lemmas: parsers\<close>

lemma first_word_digits:
  assumes "list_all is_ws pad" "c \<in> {CHR '' '', CHR 0x09}" 
  shows "first_word (pad @ show_nat n @ c # cs) = Some (show_nat n)"
proof -
  have d: "list_all is_digit (show_nat n)" "show_nat n \<noteq> []" using show_nat_digits by blast+
  have "dropWhile is_ws (pad @ show_nat n @ c # cs) = show_nat n @ c # cs"
    using assms(1) d by (cases "show_nat n") (auto simp: list_all_iff dropWhile_append is_digit_not_ws)
  moreover have "is_ws c" using assms(2) by (auto simp: is_ws_def)
  then have "takeWhile (\<lambda>c. \<not> is_ws c) (show_nat n @ c # cs) = show_nat n"
    using d(1) by (auto simp: list_all_iff takeWhile_append is_digit_not_ws)
  ultimately show ?thesis
    using d(2) by (simp add: first_word_def split: list.split)
qed

text \<open>The poller reads back what the kernel prints.\<close>

lemma parse_vmrss_print:
  assumes "CHR 0x0A \<notin> set a" "CHR 0x0D \<notin> set a" "\<not> starts_with a ''VmRSS:''" "list_all is_ws pad" "CHR 0x0A \<notin> set pad" "n * 1024 < 2 ^ 64"
  shows "parse_vmrss_bytes (a @ [CHR 0x0A] @ ''VmRSS:'' @ pad @ show_nat n @ '' kB'' @ [CHR 0x0A] @ b) = Some (n * 1024)"
proof -
  let ?line = "''VmRSS:'' @ pad @ show_nat n @ '' kB''"
  have "CHR 0x0A \<notin> set (show_nat n)"
    using show_nat_digits [of n] by (auto simp: list_all_iff is_digit_def)
  then have nl: "CHR 0x0A \<notin> set ?line" using assms(5) by simp
  have "split_on (CHR 0x0A) (a @ CHR 0x0A # ?line @ CHR 0x0A # b) = a # ?line # split_on (CHR 0x0A) b"
    using split_on_append [OF nl, of b] by (simp only: split_on_append [OF assms(1)])
  moreover have "a = [] \<or> last a \<noteq> CHR 0x0D" using assms(2) by (metis last_in_set)
  ultimately have l: "\<exists>ls. str_lines (a @ CHR 0x0A # ?line @ CHR 0x0A # b) = a # ?line # ls"
    by (auto simp: str_lines_def Let_def)
  have k: "parse_u64 (show_nat n) = Some n"
    using assms(6) by (intro parse_uint_show_nat) simp
  have "List.find (\<lambda>l. starts_with l ''VmRSS:'') (a # ?line # ls) = Some ?line" for ls
    using assms(3) by (simp add: starts_with_def)
  moreover have "first_word (drop 6 ?line) = Some (show_nat n)"
    using first_word_digits [OF assms(4), of "CHR '' ''" n "''kB''"] by simp
  ultimately show ?thesis
    using l k assms(6) by (auto simp: parse_vmrss_bytes_def)
qed

lemma parse_bfc_extend_print:
  assumes "n < 2 ^ 32"
  shows "parse_bfc_extend (''Extending BFCArena for Cpu. bin_num:'' @ show_nat n @ '' num_bytes:'' @ b) = Some n"
proof -
  have "takeWhile is_digit (show_nat n @ '' num_bytes:'' @ b) = show_nat n"
    using show_nat_digits [of n] by (auto simp: list_all_iff takeWhile_append is_digit_def)
  then show ?thesis
    using parse_uint_show_nat [OF assms] by (simp add: parse_bfc_extend_def starts_with_def)
qed

section \<open>Lemmas: one request, one count\<close>

text \<open>The requests a list of metrics reports as done: model and status label of each.\<close>

fun rerank_done :: "rmetric \<Rightarrow> (string \<times> string) list" where
  "rerank_done (RerankRequestDone m st _) = [(m, st)]"
| "rerank_done _ = []"

fun request_done :: "emetric \<Rightarrow> (string \<times> string) list" where
  "request_done (RequestDone m st _) = [(m, st)]"
| "request_done _ = []"

lemmas recorder_defs =
  record_request_def record_inference_def record_input_array_size_def record_input_array_rejected_def record_cache_hit_n_def
  record_cache_miss_n_def set_cache_size_def record_inference_failure_def record_tokenize_fallback_def record_rerank_request_def
  record_rerank_input_docs_size_def record_rerank_input_docs_rejected_def record_token_cache_hit_def record_token_cache_miss_def
  record_rerank_tokenizer_def

lemma rmetric_ops_touch: "list_all touch_only (rmetric_ops el x)"
  by (cases x) (simp_all add: recorder_defs)

lemma emetric_ops_touch: "list_all touch_only (emetric_ops el x)"
  by (cases x) (simp_all add: recorder_defs)

lemma rmetric_ops_inc:
  "(\<Sum>op\<leftarrow>rmetric_ops el x. inc_of (''embed_rerank_requests_total'', ls) op) =
   length (filter (\<lambda>(m, st). ls = [(''model'', m), (''status'', st)]) (rerank_done x))"
  by (cases x) (auto simp: recorder_defs)

lemma emetric_ops_inc:
  "(\<Sum>op\<leftarrow>emetric_ops el x. inc_of (''embed_requests_total'', ls) op) =
   length (filter (\<lambda>(m, st). ls = [(''model'', m), (''status'', st)]) (request_done x))"
  by (cases x) (auto simp: recorder_defs)

lemma sum_inc_concat:
  assumes "\<And>x. (\<Sum>op\<leftarrow>f x. inc_of s op) = length (filter P (g x))"
  shows "(\<Sum>op\<leftarrow>concat (map f xs). inc_of s op) = length (filter P (concat (map g xs)))"
  by (induction xs) (simp_all add: assms)

lemma list_all_concat: "(\<And>x. list_all P (f x)) \<Longrightarrow> list_all P (concat (map f xs))"
  by (induction xs) simp_all

lemma tokenize_not_done: "tokenize_with_cache m sha model ses q docs c = (r, c', ml) \<Longrightarrow> concat (map rerank_done ml) = []"
  by (auto simp: tokenize_with_cache_def Let_def split: prod.splits sum.splits joined.splits if_splits)

text \<open>A response comes with exactly one report, labelled success exactly for a 200; a panic with none.\<close>

definition reported :: "string \<Rightarrow> string set \<Rightarrow> 'b handled \<Rightarrow> (string \<times> string) list \<Rightarrow> bool" where
  "reported ok_label models r dones \<longleftrightarrow>
     (if status_of r = None then dones = []
      else \<exists>md label. dones = [(md, label)] \<and> md \<in> models \<and> (label = ok_label \<longleftrightarrow> status_of r = Some 200))"

lemma reportedI:
  "status_of r = Some k \<Longrightarrow> md \<in> models \<Longrightarrow> (label = ok_label \<longleftrightarrow> k = 200) \<Longrightarrow> reported ok_label models r [(md, label)]"
  by (simp add: reported_def)

lemma reported_panic: "reported ok_label models (Panic e) dones \<longleftrightarrow> dones = []"
  by (simp add: reported_def)

lemma rerank_status [simp]:
  "status_of (server_error msg) = Some 500" "status_of (rate_limited_response msg) = Some 429"
  "status_of (documents_too_many cap n) = Some 400"
  "status_of (rerank_respond fo rid model req docs scores) = Some k \<Longrightarrow> k = 200"
  by (auto simp: rerank_respond_def server_error_def rate_limited_response_def documents_too_many_def split: option.splits)

text \<open>What ends with a report is reported: nothing was reported before, and the label says success for a 200 alone.\<close>

lemma finish_reported:
  assumes "finish_rerank model n ms label r = (r', ms')" "model \<in> models" "concat (map rerank_done ms) = []"
    and "\<And>k. status_of r = Some k \<Longrightarrow> label = ''success'' \<longleftrightarrow> k = 200"
  shows "reported ''success'' models r' (concat (map rerank_done ms'))"
proof (cases r)
  case (Respond x)
  then have r: "r' = r" "ms' = ms @ [RerankRequestDone model label n]" using assms(1) by (auto simp: finish_rerank_def)
  have "concat (map rerank_done ms') = [(model, label)]" unfolding r map_append concat_append assms(3) by simp
  moreover have st: "status_of r = Some (status x)" by (simp add: Respond)
  have "reported ''success'' models r [(model, label)]" by (rule reportedI [OF st assms(2) assms(4) [OF st]])
  ultimately show ?thesis unfolding r(1) by (simp only:)
qed (use assms in \<open>auto simp: finish_rerank_def reported_panic\<close>)

lemma via_pool_reported:
  "model \<in> models \<Longrightarrow> rerank_via_pool fo rid dispatch model req docs = (r, ml) \<Longrightarrow>
   reported ''success'' models r (concat (map rerank_done ml))"
  by (auto simp: rerank_via_pool_def Let_def split: sum.splits WorkerResponse.splits DispatchError.splits
      elim!: finish_reported intro!: reportedI dest: rerank_status(4))

lemma in_process_reported:
  assumes "model \<in> models" "rerank_in_process fo m sha rid entry model req docs c = (r, c', ml)"
  shows "reported ''success'' models r (concat (map rerank_done ml))"
proof (cases "rk_model entry")
  case None
  then show ?thesis using assms(2) by (auto simp: rerank_in_process_def reported_panic)
next
  case (Some ses)
  obtain t c1 tl where t: "tokenize_with_cache m sha model ses (rq_query req) docs c = (t, c1, tl)"
    by (cases "tokenize_with_cache m sha model ses (rq_query req) docs c") auto
  note d = tokenize_not_done [OF t]
  show ?thesis
    using assms Some t
    by (auto simp: rerank_in_process_def Let_def reported_panic d elim!: finish_reported intro!: reportedI dest: rerank_status(4) tokenize_not_done
        split: option.splits sum.splits TokenizeError.splits InferenceError.splits if_splits prod.splits)
qed

lemma rerank_reported:
  assumes "rerank fo m sha rid st req c = (r, c', ml)"
  shows "reported ''success'' (insert ''unknown'' (fst ` set (rerankers st))) r (concat (map rerank_done ml))"
proof -
  have key: "model \<in> insert ''unknown'' (fst ` set (rerankers st))" if "map_of (rerankers st) model = Some entry" for model entry
    using map_of_SomeD [OF that] by force
  show ?thesis
    using assms
    by (auto simp: rerank_def Let_def reported_panic intro!: reportedI split: if_splits sum.splits option.splits prod.splits
        dest: via_pool_reported [OF key] in_process_reported [OF key])
qed

lemma fail_stage_simps [simp]: "fail_stage model n ms r = (ms @ [RequestDone model ''error'' n], Inl r)"
  by (simp add: fail_stage_def)

text \<open>A stage that fails reports the request, one that gives vectors does not.\<close>

definition stage_reported :: "string \<Rightarrow> 'r stage \<Rightarrow> bool" where
  "stage_reported model s \<longleftrightarrow>
     (case s of (ms, Inl r) \<Rightarrow> reported ''ok'' {model} r (concat (map request_done ms)) | (ms, Inr _) \<Rightarrow> concat (map request_done ms) = [])"

lemma embed_via_pool_reported: "stage_reported model (embed_via_pool dispatch model texts n)"
  by (auto simp: stage_reported_def embed_via_pool_def Let_def split: sum.splits WorkerResponse.splits DispatchError.splits intro!: reportedI)

lemma embed_ids_reported: "stage_reported model (embed_ids_in_process entry ses model n ids)"
  by (auto simp: stage_reported_def embed_ids_in_process_def split: option.splits sum.splits BatchError.splits joined.splits intro!: reportedI)

lemma embed_in_process_reported: "stage_reported model (embed_in_process entry model texts n)"
proof (cases "me_model entry")
  case (Some ses)
  show ?thesis
  proof (cases "ses_tokenize ses texts")
    case (Joined x)
    show ?thesis
    proof (cases x)
      case (Inr ids)
      then show ?thesis
        using Some Joined embed_ids_reported [of model entry ses n ids]
        by (auto simp: stage_reported_def embed_in_process_def split: prod.splits sum.splits)
    qed (simp add: stage_reported_def embed_in_process_def Some Joined reportedI)
  qed (simp add: stage_reported_def embed_in_process_def Some reportedI)
qed (simp add: stage_reported_def embed_in_process_def reported_panic)

lemma infer_misses_reported: "stage_reported model (infer_misses st entry model texts n)"
  by (simp add: infer_misses_def embed_via_pool_reported embed_in_process_reported split: option.split)

lemma embed_texts_reported:
  assumes "embed_texts b64 m sha order st entry model key fmt texts c = (r, c', ml)"
  shows "reported ''ok'' {model} r (concat (map request_done ml))"
proof -
  obtain c1 cached pending where p: "partition_hits_and_misses m sha c key texts = (c1, cached, pending)"
    by (cases "partition_hits_and_misses m sha c key texts") auto
  obtain ms out where i: "infer_misses st entry model (order (map fst pending)) (length texts) = (ms, out)" by fastforce
  have s: "stage_reported model (ms, out)" using infer_misses_reported i by metis
  show ?thesis
  proof (cases out)
    case (Inl e)
    then show ?thesis
      using assms p i s by (auto simp: embed_texts_def Let_def stage_reported_def reported_panic intro!: reportedI split: if_splits option.splits)
  next
    case (Inr v)
    then have d: "concat (map request_done ms) = []" using s by (simp add: stage_reported_def)
    then have e: "x \<in> set ms \<Longrightarrow> request_done x = []" for x by simp
    show ?thesis
      using assms p i Inr by (auto simp: embed_texts_def Let_def reported_panic d intro!: reportedI e split: if_splits option.splits prod.splits)
  qed
qed

lemma embeddings_reported:
  assumes "\<not> shutdown_cancelled st" "embeddings b64 m sha order st req c = (r, c', ml)"
  shows "reported ''ok'' {case req_model req of None \<Rightarrow> default_model st | Some x \<Rightarrow> x} r (concat (map request_done ml))"
  using assms by (auto simp: embeddings_def Let_def intro!: reportedI split: if_splits option.splits prod.splits dest: embed_texts_reported)

text \<open>The batcher counts a rejection exactly when it answers that the queue is full.\<close>

lemma rejection_counted:
  assumes "embed_tokens b b' ids rid now res = (r, b'', ml)"
  shows "length (filter (\<lambda>x. x = QueueRejected) ml) = (if \<exists>nm. r = Inl (QueueFull nm) then 1 else 0)"
  using assms by (auto simp: embed_tokens_def Let_def await_reply_def split: if_splits option.splits sum.splits)

section \<open>Request counters\<close>

text \<open>After the operations, exactly one series of the counter has grown, by one.\<close>

definition counted_once ::
  "(metric_op \<Rightarrow> 'r \<Rightarrow> 'r) \<Rightarrow> ('r \<Rightarrow> series \<Rightarrow> nat option) \<Rightarrow> string \<Rightarrow> string \<Rightarrow> string set \<Rightarrow> nat \<Rightarrow> metric_op list \<Rightarrow> 'r \<Rightarrow> bool" where
  "counted_once apply_op counter nm ok_label models k ops reg \<longleftrightarrow>
     (\<exists>md label. md \<in> models \<and> (label = ok_label \<longleftrightarrow> k = 200) \<and>
        (\<forall>ls. total (counter (fold apply_op ops reg) (nm, ls)) =
           total (counter reg (nm, ls)) + (if ls = [(''model'', md), (''status'', label)] then 1 else 0)))"

lemma counted_onceI:
  assumes reg: "metric_registry apply_op counter gauge" and room: "\<And>s. total (counter reg s) < 2 ^ 63"
    and rep: "reported ok_label models r dones" "status_of r = Some k"
    and ops: "list_all touch_only ops"
      "\<And>ls. (\<Sum>op\<leftarrow>ops. inc_of (nm, ls) op) = length (filter (\<lambda>(m, st). ls = [(''model'', m), (''status'', st)]) dones)"
  shows "counted_once apply_op counter nm ok_label models k ops reg"
proof -
  from rep obtain md label where l: "dones = [(md, label)]" "md \<in> models" "label = ok_label \<longleftrightarrow> k = 200"
    by (auto simp: reported_def)
  have "total (counter (fold apply_op ops reg) (nm, ls)) =
      total (counter reg (nm, ls)) + (if ls = [(''model'', md), (''status'', label)] then 1 else 0)" for ls
    using metric_registry.counter_fold [OF reg ops(1), of reg "(nm, ls)"] room [of "(nm, ls)"]
    by (cases "ls = [(''model'', md), (''status'', label)]") (simp_all add: ops(2) l(1))
  then show ?thesis using l(2,3) unfolding counted_once_def by blast
qed



end
