(* ===== verification/Shared_Cache.thy ===== *)
theory Shared_Cache
  imports Api_Embeddings
begin

text \<open>
  Embedding requests that run at the same time over one cache. The server handles every
  request in a task of its own and all tasks share one \<open>EmbeddingCache\<close>
  (\<open>src/src/api.rs\<close>, \<open>src/src/cache_flow.rs\<close>), so between two probes, during the inference and
  between two insertions of one request the others may probe and insert too. A step of the
  machine is one call of the cache, one inference or the answer of one request; requests
  arrive at any time. The sequential handler of \<open>Api_Embeddings\<close> is shown to be the run of the
  machine in which a request is alone.
\<close>

section \<open>Requests in flight\<close>

text \<open>
  Where the task of a request stands: at position \<open>i\<close> of the partition, waiting for the
  vectors of the texts in the order of the keys of the \<open>HashMap\<close>, scattering and inserting
  the remaining pairs, or at its end.
\<close>

datatype 'v req_phase =
    Probing nat "'v option list" pending_misses
  | Inferring "'v option list" pending_misses "string list"
  | Inserting "'v option list" pending_misses "(string \<times> 'v) list"
  | Answered "'v list"
  | Declined
  | Crashed

record 'v in_flight =
  fl_key :: string
  fl_texts :: "string list"
  fl_phase :: "'v req_phase"

definition arrive :: "string \<Rightarrow> string list \<Rightarrow> 'v in_flight" where
  "arrive key texts = \<lparr>fl_key = key, fl_texts = texts, fl_phase = Probing 0 (replicate (length texts) None) []\<rparr>"

text \<open>One probe of the partition, and one pair of the scatter loop with its insertion.\<close>

definition probe_text ::
  "('s, string \<times> 'h, 'v) moka \<Rightarrow> (string \<Rightarrow> 'h) \<Rightarrow> string \<Rightarrow> nat \<Rightarrow> string \<Rightarrow>
   's option \<Rightarrow> 'v option list \<Rightarrow> pending_misses \<Rightarrow> 's option \<times> 'v req_phase" where
  "probe_text m sha key i t c cached pending =
     (case cache_get m sha c key t of
        (c', Some v) \<Rightarrow> (c', Probing (Suc i) (cached[i := Some v]) pending)
      | (c', None) \<Rightarrow> (c', Probing (Suc i) cached (pending_push pending t i)))"

definition insert_miss ::
  "('s, string \<times> 'h, 'v) moka \<Rightarrow> (string \<Rightarrow> 'h) \<Rightarrow> string \<Rightarrow> string \<Rightarrow> 'v \<Rightarrow> (string \<times> 'v) list \<Rightarrow>
   's option \<Rightarrow> 'v option list \<Rightarrow> pending_misses \<Rightarrow> 's option \<times> 'v req_phase" where
  "insert_miss m sha key t v tvs c cached pending =
     (let c' = cache_insert m sha c key t v
      in case map_of pending t of
           None \<Rightarrow> (c', Crashed)
         | Some ps \<Rightarrow> (case fill v ps cached of
               None \<Rightarrow> (c', Crashed)
             | Some cached' \<Rightarrow> (c', Inserting cached' pending tvs)))"

text \<open>\<open>cached.into_iter().map(|o| o.expect(..)).collect()\<close>, on both paths.\<close>

definition answer :: "'v option list \<Rightarrow> 'v req_phase" where
  "answer cached = (case those cached of None \<Rightarrow> Crashed | Some vectors \<Rightarrow> Answered vectors)"

text \<open>
  The steps of one request. The backend is a relation: it may answer the same texts with
  vectors now and with an error (\<open>None\<close>) later.
\<close>

inductive request_step ::
  "('s, string \<times> 'h, 'v) moka \<Rightarrow> (string \<Rightarrow> 'h) \<Rightarrow> (string \<Rightarrow> string list \<Rightarrow> 'v list option \<Rightarrow> bool) \<Rightarrow>
   's option \<times> 'v in_flight \<Rightarrow> 's option \<times> 'v in_flight \<Rightarrow> bool"
  for m sha backend where
  Probe: "fl_phase r = Probing i cached pending \<Longrightarrow> i < length (fl_texts r) \<Longrightarrow>
    probe_text m sha (fl_key r) i (fl_texts r ! i) c cached pending = (c', ph) \<Longrightarrow>
    request_step m sha backend (c, r) (c', r\<lparr>fl_phase := ph\<rparr>)"
| AllHits: "fl_phase r = Probing i cached [] \<Longrightarrow> length (fl_texts r) \<le> i \<Longrightarrow>
    request_step m sha backend (c, r) (c, r\<lparr>fl_phase := answer cached\<rparr>)"
| Misses: "fl_phase r = Probing i cached pending \<Longrightarrow> length (fl_texts r) \<le> i \<Longrightarrow> pending \<noteq> [] \<Longrightarrow>
    mset ks = mset (map fst pending) \<Longrightarrow>
    request_step m sha backend (c, r) (c, r\<lparr>fl_phase := Inferring cached pending ks\<rparr>)"
| InferError: "fl_phase r = Inferring cached pending ks \<Longrightarrow> backend (fl_key r) ks None \<Longrightarrow>
    request_step m sha backend (c, r) (c, r\<lparr>fl_phase := Declined\<rparr>)"
| Mismatch: "fl_phase r = Inferring cached pending ks \<Longrightarrow> backend (fl_key r) ks (Some vecs) \<Longrightarrow>
    length vecs \<noteq> length ks \<Longrightarrow>
    request_step m sha backend (c, r) (c, r\<lparr>fl_phase := Declined\<rparr>)"
| Inferred: "fl_phase r = Inferring cached pending ks \<Longrightarrow> backend (fl_key r) ks (Some vecs) \<Longrightarrow>
    length vecs = length ks \<Longrightarrow>
    request_step m sha backend (c, r) (c, r\<lparr>fl_phase := Inserting cached pending (zip ks vecs)\<rparr>)"
| Insert: "fl_phase r = Inserting cached pending ((t, v) # tvs) \<Longrightarrow>
    insert_miss m sha (fl_key r) t v tvs c cached pending = (c', ph) \<Longrightarrow>
    request_step m sha backend (c, r) (c', r\<lparr>fl_phase := ph\<rparr>)"
| Filled: "fl_phase r = Inserting cached pending [] \<Longrightarrow>
    request_step m sha backend (c, r) (c, r\<lparr>fl_phase := answer cached\<rparr>)"

text \<open>The server: the cache and the requests that have arrived so far.\<close>

type_synonym ('s, 'v) server = "'s option \<times> 'v in_flight list"

inductive server_step ::
  "('s, string \<times> 'h, 'v) moka \<Rightarrow> (string \<Rightarrow> 'h) \<Rightarrow> (string \<Rightarrow> string list \<Rightarrow> 'v list option \<Rightarrow> bool) \<Rightarrow>
   ('s, 'v) server \<Rightarrow> ('s, 'v) server \<Rightarrow> bool"
  for m sha backend where
  Arrival: "server_step m sha backend (c, rs) (c, rs @ [arrive key texts])"
| Run: "t < length rs \<Longrightarrow> request_step m sha backend (c, rs ! t) (c', r') \<Longrightarrow>
    server_step m sha backend (c, rs) (c', rs[t := r'])"

definition server_init :: "('s \<Rightarrow> string \<times> 'h \<Rightarrow> 'v option) \<Rightarrow> (string \<times> 'h \<Rightarrow> 'v \<Rightarrow> bool) \<Rightarrow> ('s, 'v) server \<Rightarrow> bool" where
  "server_init view P s \<longleftrightarrow> cache_sound view P (fst s) \<and> snd s = []"

section \<open>The invariant\<close>

text \<open>The filled positions hold values that satisfy \<open>P\<close> under the key of their text.\<close>

definition slots_ok :: "(string \<times> 'h \<Rightarrow> 'v \<Rightarrow> bool) \<Rightarrow> (string \<Rightarrow> 'h) \<Rightarrow> string \<Rightarrow> string list \<Rightarrow> 'v option list \<Rightarrow> bool" where
  "slots_ok P sha key texts cached \<longleftrightarrow> length cached = length texts \<and>
     (\<forall>j < length texts. \<forall>v. cached ! j = Some v \<longrightarrow> P (key, hash_text sha (texts ! j)) v)"

text \<open>
  Every open position waits in the list of its own text, that text is still to be inserted,
  and every pair to be inserted is admissible.
\<close>

definition scatter_ok ::
  "(string \<times> 'h \<Rightarrow> 'v \<Rightarrow> bool) \<Rightarrow> (string \<Rightarrow> 'h) \<Rightarrow> string \<Rightarrow> string list \<Rightarrow> 'v option list \<Rightarrow> pending_misses \<Rightarrow>
   (string \<times> 'v) list \<Rightarrow> bool" where
  "scatter_ok P sha key texts cached pending tvs \<longleftrightarrow>
     (\<forall>j < length texts. cached ! j = None \<longrightarrow>
        texts ! j \<in> fst ` set tvs \<and> j \<in> set (positions pending (texts ! j))) \<and>
     (\<forall>(t, v) \<in> set tvs. P (key, hash_text sha t) v \<and>
        (\<exists>ps. map_of pending t = Some ps \<and> (\<forall>p \<in> set ps. p < length texts \<and> texts ! p = t)))"

definition req_phase_ok :: "(string \<times> 'h \<Rightarrow> 'v \<Rightarrow> bool) \<Rightarrow> (string \<Rightarrow> 'h) \<Rightarrow> string \<Rightarrow> string list \<Rightarrow> 'v req_phase \<Rightarrow> bool" where
  "req_phase_ok P sha key texts ph = (case ph of
     Probing i cached pending \<Rightarrow>
       i \<le> length texts \<and> partition_inv texts i cached pending \<and> slots_ok P sha key texts cached
   | Inferring cached pending ks \<Rightarrow>
       partition_inv texts (length texts) cached pending \<and> slots_ok P sha key texts cached \<and>
       pending \<noteq> [] \<and> mset ks = mset (map fst pending)
   | Inserting cached pending tvs \<Rightarrow>
       slots_ok P sha key texts cached \<and> scatter_ok P sha key texts cached pending tvs
   | Answered vectors \<Rightarrow> slots_ok P sha key texts (map Some vectors)
   | Declined \<Rightarrow> True
   | Crashed \<Rightarrow> False)"

definition flight_ok :: "(string \<times> 'h \<Rightarrow> 'v \<Rightarrow> bool) \<Rightarrow> (string \<Rightarrow> 'h) \<Rightarrow> 'v in_flight \<Rightarrow> bool" where
  "flight_ok P sha r \<longleftrightarrow> req_phase_ok P sha (fl_key r) (fl_texts r) (fl_phase r)"

definition server_ok ::
  "('s \<Rightarrow> string \<times> 'h \<Rightarrow> 'v option) \<Rightarrow> (string \<times> 'h \<Rightarrow> 'v \<Rightarrow> bool) \<Rightarrow> (string \<Rightarrow> 'h) \<Rightarrow> ('s, 'v) server \<Rightarrow> bool" where
  "server_ok view P sha s \<longleftrightarrow> cache_sound view P (fst s) \<and> (\<forall>r \<in> set (snd s). flight_ok P sha r)"

lemma arrive_ok: "flight_ok P sha (arrive key texts)"
  by (auto simp: flight_ok_def req_phase_ok_def arrive_def partition_inv_def slots_ok_def pending_ok_def positions_def)

lemma answer_ok:
  assumes "slots_ok P sha key texts cached" and "\<And>j. j < length texts \<Longrightarrow> cached ! j \<noteq> None"
  shows "req_phase_ok P sha key texts (answer cached)"
proof -
  have "\<forall>j < length cached. cached ! j \<noteq> None"
    using assms by (simp add: slots_ok_def)
  from those_filled [OF this] obtain vs where "those cached = Some vs" by blast
  with assms(1) show ?thesis by (simp add: answer_def req_phase_ok_def those_Some_iff)
qed

lemma probe_text_ok:
  assumes m: "cache_backend m view" and c: "cache_sound view P c"
    and ph: "req_phase_ok P sha key texts (Probing i cached pending)" and i: "i < length texts"
    and res: "probe_text m sha key i (texts ! i) c cached pending = (c', ph')"
  shows "cache_sound view P c' \<and> req_phase_ok P sha key texts ph'"
proof -
  obtain c1 r where g: "cache_get m sha c key (texts ! i) = (c1, r)" by fastforce
  then have c1: "cache_sound view P c1" "\<And>v. r = Some v \<Longrightarrow> P (key, hash_text sha (texts ! i)) v"
    using cache_backend.cache_get_sound [OF m c] by (auto simp: cache_ops_opt)
  show ?thesis
  proof (cases r)
    case (Some v)
    with g res have "c' = c1" "ph' = Probing (Suc i) (cached[i := Some v]) pending"
      by (simp_all add: probe_text_def)
    with Some c1 ph i show ?thesis
      by (auto simp: req_phase_ok_def slots_ok_def nth_list_update intro!: partition_inv_hit)
  next
    case None
    with g res have "c' = c1" "ph' = Probing (Suc i) cached (pending_push pending (texts ! i) i)"
      by (simp_all add: probe_text_def)
    with c1 ph i show ?thesis
      by (auto simp: req_phase_ok_def slots_ok_def intro!: partition_inv_miss)
  qed
qed

lemma insert_miss_ok:
  assumes m: "cache_backend m view" and c: "cache_sound view P c"
    and ph: "req_phase_ok P sha key texts (Inserting cached pending ((t, v) # tvs))"
    and res: "insert_miss m sha key t v tvs c cached pending = (c', ph')"
  shows "cache_sound view P c' \<and> req_phase_ok P sha key texts ph'"
proof -
  have sl: "slots_ok P sha key texts cached" and sc: "scatter_ok P sha key texts cached pending ((t, v) # tvs)"
    using ph by (simp_all add: req_phase_ok_def)
  have len: "length cached = length texts" using sl by (simp add: slots_ok_def)
  obtain ps where ps: "map_of pending t = Some ps" "\<forall>p \<in> set ps. p < length texts \<and> texts ! p = t"
    and P: "P (key, hash_text sha t) v"
    using sc by (auto simp: scatter_ok_def)
  have pos: "positions pending t = ps" using ps(1) by (simp add: positions_def)
  have "\<forall>p \<in> set ps. p < length cached" using ps(2) len by simp
  from fill_spec [OF this, of v] obtain cached' where f: "fill v ps cached = Some cached'" "length cached' = length texts"
    and val: "\<And>j. j < length texts \<Longrightarrow> cached' ! j = (if j \<in> set ps then Some v else cached ! j)"
    using len by auto
  have c': "c' = cache_insert m sha c key t v" and ph': "ph' = Inserting cached' pending tvs"
    using res ps(1) f(1) by (simp_all add: insert_miss_def Let_def)
  have "slots_ok P sha key texts cached'"
    using sl f(2) P ps(2) by (auto simp: slots_ok_def val split: if_splits)
  moreover have "scatter_ok P sha key texts cached' pending tvs"
    unfolding scatter_ok_def
  proof (intro conjI allI impI)
    fix j assume j: "j < length texts" and "cached' ! j = None"
    then have o: "cached ! j = None" "j \<notin> set ps" using val [OF j] by (auto split: if_splits)
    with sc j have w: "texts ! j \<in> fst ` set ((t, v) # tvs)" "j \<in> set (positions pending (texts ! j))"
      by (auto simp: scatter_ok_def)
    with o(2) pos have "texts ! j \<noteq> t" by auto
    with w show "texts ! j \<in> fst ` set tvs" "j \<in> set (positions pending (texts ! j))" by auto
  qed (use sc in \<open>auto simp: scatter_ok_def\<close>)
  moreover have "cache_sound view P c'"
    using cache_backend.cache_insert_sound [OF m c P] by (simp add: c' cache_ops_opt)
  ultimately show ?thesis by (simp add: ph' req_phase_ok_def)
qed

text \<open>What the partition leaves is what the scatter needs, for admissible vectors.\<close>

lemma partition_scatter_ok:
  assumes inv: "partition_inv texts (length texts) cached pending"
    and ks: "mset ks = mset (map fst pending)" and len: "length vecs = length ks"
    and P: "\<And>t v. (t, v) \<in> set (zip ks vecs) \<Longrightarrow> P (key, hash_text sha t) v"
  shows "scatter_ok P sha key texts cached pending (zip ks vecs)"
proof -
  have pos: "\<And>t. positions pending t = filter (\<lambda>j. cached ! j = None \<and> texts ! j = t) [0..<length texts]"
    using inv by (simp add: partition_inv_def)
  have keys: "fst ` set (zip ks vecs) = set (map fst pending)"
    using len mset_eq_setD [OF ks] by (metis list.set_map map_fst_zip)
  have open_key: "texts ! j \<in> set (map fst pending)" if "j < length texts" "cached ! j = None" for j
    using that by (intro positions_key [of j]) (simp add: pos)
  have listed: "\<exists>ps. map_of pending t = Some ps \<and> (\<forall>p \<in> set ps. p < length texts \<and> texts ! p = t)"
    if "(t, v) \<in> set (zip ks vecs)" for t v
  proof -
    have "t \<in> set (map fst pending)" using that keys by force
    then obtain ps where "map_of pending t = Some ps"
      by (metis map_of_eq_None_iff not_None_eq set_map)
    moreover from this have "ps = positions pending t" by (simp add: positions_def)
    ultimately show ?thesis by (auto simp: pos)
  qed
  show ?thesis
    unfolding scatter_ok_def
    using open_key listed P by (auto simp: keys pos)
qed

text \<open>With an admissible backend every step of a request keeps the cache and the request right.\<close>

definition backend_ok ::
  "(string \<times> 'h \<Rightarrow> 'v \<Rightarrow> bool) \<Rightarrow> (string \<Rightarrow> 'h) \<Rightarrow> (string \<Rightarrow> string list \<Rightarrow> 'v list option \<Rightarrow> bool) \<Rightarrow> bool" where
  "backend_ok P sha backend \<longleftrightarrow> (\<forall>key ks vecs. backend key ks (Some vecs) \<longrightarrow> length vecs = length ks \<longrightarrow>
     (\<forall>t v. (t, v) \<in> set (zip ks vecs) \<longrightarrow> P (key, hash_text sha t) v))"

lemma request_step_ok:
  assumes step: "request_step m sha backend s s'"
    and m: "cache_backend m view" and b: "backend_ok P sha backend"
    and ok: "cache_sound view P (fst s)" "flight_ok P sha (snd s)"
  shows "cache_sound view P (fst s') \<and> flight_ok P sha (snd s')"
  using step ok
proof (induction rule: request_step.induct)
  case (Probe r i cached pending c c' ph)
  then show ?case
    using probe_text_ok [OF m, of P c sha "fl_key r" "fl_texts r" i cached pending c' ph] by (simp add: flight_ok_def)
next
  case (AllHits r i cached c)
  then have "req_phase_ok P sha (fl_key r) (fl_texts r) (Probing i cached [])" by (simp add: flight_ok_def)
  with AllHits have sl: "slots_ok P sha (fl_key r) (fl_texts r) cached"
    and inv: "partition_inv (fl_texts r) (length (fl_texts r)) cached []"
    by (auto simp: req_phase_ok_def dest: le_antisym)
  have "cached ! j \<noteq> None" if "j < length (fl_texts r)" for j
  proof
    assume "cached ! j = None"
    with that inv have "j \<in> set (positions [] (fl_texts r ! j))" by (simp add: partition_inv_def)
    then show False by (simp add: positions_def)
  qed
  with AllHits answer_ok [OF sl] show ?case by (simp add: flight_ok_def)
next
  case (Misses r i cached pending ks c)
  then show ?case by (auto simp: flight_ok_def req_phase_ok_def dest: le_antisym)
next
  case (Inferred r cached pending ks vecs c)
  then have "partition_inv (fl_texts r) (length (fl_texts r)) cached pending" "mset ks = mset (map fst pending)"
    "slots_ok P sha (fl_key r) (fl_texts r) cached"
    by (simp_all add: flight_ok_def req_phase_ok_def)
  moreover have "(t, v) \<in> set (zip ks vecs) \<Longrightarrow> P (fl_key r, hash_text sha t) v" for t v
    using b Inferred unfolding backend_ok_def by blast
  ultimately show ?case
    using Inferred partition_scatter_ok [of "fl_texts r" cached pending ks vecs P "fl_key r" sha]
    by (simp add: flight_ok_def req_phase_ok_def)
next
  case (Insert r cached pending t v tvs c c' ph)
  then show ?case
    using insert_miss_ok [OF m, of P c sha "fl_key r" "fl_texts r" cached pending t v tvs c' ph] by (simp add: flight_ok_def)
next
  case (Filled r cached pending c)
  then have "slots_ok P sha (fl_key r) (fl_texts r) cached" "scatter_ok P sha (fl_key r) (fl_texts r) cached pending []"
    by (simp_all add: flight_ok_def req_phase_ok_def)
  with Filled answer_ok [of P sha "fl_key r" "fl_texts r" cached] show ?case
    by (auto simp: flight_ok_def scatter_ok_def)
qed (simp_all add: flight_ok_def req_phase_ok_def)

lemma server_step_ok:
  assumes step: "server_step m sha backend s s'"
    and m: "cache_backend m view" and b: "backend_ok P sha backend" and ok: "server_ok view P sha s"
  shows "server_ok view P sha s'"
  using step ok
proof (induction rule: server_step.induct)
  case (Arrival c rs key texts)
  then show ?case by (simp add: server_ok_def arrive_ok)
next
  case (Run t rs c c' r')
  then have "cache_sound view P c' \<and> flight_ok P sha r'"
    using request_step_ok [OF Run.hyps(2) m b] by (simp add: server_ok_def)
  with Run show ?case by (auto simp: server_ok_def dest: set_update_subset_insert [THEN subsetD])
qed

text \<open>
  The server over any store and any admissible backend is a transition system with that
  invariant.
\<close>

locale shared_cache = cache_backend m view
  for m :: "('s, string \<times> 'h, 'v) moka" and view :: "'s \<Rightarrow> string \<times> 'h \<Rightarrow> 'v option" +
  fixes P :: "string \<times> 'h \<Rightarrow> 'v \<Rightarrow> bool"
    and sha :: "string \<Rightarrow> 'h"
    and backend :: "string \<Rightarrow> string list \<Rightarrow> 'v list option \<Rightarrow> bool"
  assumes backend: "backend_ok P sha backend"

sublocale shared_cache \<subseteq> server: invariant_system "server_init view P" "server_step m sha backend" "server_ok view P sha"
proof
  fix s assume "server_init view P s"
  then show "server_ok view P sha s" by (simp add: server_init_def server_ok_def)
next
  fix s t assume "server_step m sha backend s t" "server_ok view P sha s"
  then show "server_ok view P sha t" using server_step_ok cache_backend_axioms backend by blast
qed

section \<open>Every request ends\<close>

text \<open>The steps a request still has to take: probes, the inference, insertions, the answer.\<close>

definition steps_left :: "'v in_flight \<Rightarrow> nat" where
  "steps_left r = (case fl_phase r of
     Probing i cached pending \<Rightarrow> (length (fl_texts r) - i) + length (fl_texts r) + 4
   | Inferring cached pending ks \<Rightarrow> length ks + 2
   | Inserting cached pending tvs \<Rightarrow> length tvs + 1
   | _ \<Rightarrow> 0)"

definition ended :: "'v in_flight \<Rightarrow> bool" where
  "ended r = (case fl_phase r of Answered _ \<Rightarrow> True | Declined \<Rightarrow> True | Crashed \<Rightarrow> True | _ \<Rightarrow> False)"

lemma pending_length:
  assumes "partition_inv texts i cached pending"
  shows "length pending \<le> i"
proof -
  have "\<forall>(t, ps) \<in> set pending. ps \<noteq> []" using assms by (simp add: partition_inv_def pending_ok_def)
  then have "length pending \<le> sum_list (map (length \<circ> snd) pending)"
  proof (induction pending)
    case (Cons tps pending)
    then have "0 < length (snd tps)" by auto
    with Cons show ?case by (auto simp del: length_greater_0_conv)
  qed simp
  with assms show ?thesis by (simp add: partition_inv_def)
qed

lemma steps_left_decreases:
  assumes "request_step m sha backend s s'" and "flight_ok P sha (snd s)"
  shows "steps_left (snd s') < steps_left (snd s)"
  using assms
proof (induction rule: request_step.induct)
  case (Misses r i cached pending ks c)
  then have "length pending \<le> length (fl_texts r)"
    using pending_length by (fastforce simp: flight_ok_def req_phase_ok_def)
  with Misses mset_eq_length [OF Misses.hyps(4)] show ?case by (simp add: steps_left_def)
qed (auto simp: steps_left_def answer_def probe_text_def insert_miss_def Let_def split: option.splits prod.splits)

text \<open>
  The next step of a request as a function, for a fixed order of the keys and a fixed answer
  of the backend, and a run of the server under a schedule.
\<close>

definition exec_step ::
  "('s, string \<times> 'h, 'v) moka \<Rightarrow> (string \<Rightarrow> 'h) \<Rightarrow> (string list \<Rightarrow> string list) \<Rightarrow> (string \<Rightarrow> string list \<Rightarrow> 'v list option) \<Rightarrow>
   's option \<Rightarrow> 'v in_flight \<Rightarrow> 's option \<times> 'v in_flight" where
  "exec_step m sha order bk c r = apsnd (\<lambda>ph. r\<lparr>fl_phase := ph\<rparr>) (case fl_phase r of
     Probing i cached pending \<Rightarrow>
       if i < length (fl_texts r) then probe_text m sha (fl_key r) i (fl_texts r ! i) c cached pending
       else if pending = [] then (c, answer cached)
       else (c, Inferring cached pending (order (map fst pending)))
   | Inferring cached pending ks \<Rightarrow> (c, case bk (fl_key r) ks of
       None \<Rightarrow> Declined
     | Some vecs \<Rightarrow> if length vecs = length ks then Inserting cached pending (zip ks vecs) else Declined)
   | Inserting cached pending [] \<Rightarrow> (c, answer cached)
   | Inserting cached pending ((t, v) # tvs) \<Rightarrow> insert_miss m sha (fl_key r) t v tvs c cached pending
   | ph \<Rightarrow> (c, ph))"

fun schedule ::
  "('s, string \<times> 'h, 'v) moka \<Rightarrow> (string \<Rightarrow> 'h) \<Rightarrow> (string list \<Rightarrow> string list) \<Rightarrow> (string \<Rightarrow> string list \<Rightarrow> 'v list option) \<Rightarrow>
   nat list \<Rightarrow> ('s, 'v) server \<Rightarrow> ('s, 'v) server" where
  "schedule m sha order bk [] s = s"
| "schedule m sha order bk (t # ts) (c, rs) =
     (if t < length rs \<and> \<not> ended (rs ! t)
      then (case exec_step m sha order bk c (rs ! t) of (c', r') \<Rightarrow> schedule m sha order bk ts (c', rs[t := r']))
      else schedule m sha order bk ts (c, rs))"

lemma exec_step_is_step:
  assumes "\<not> ended r" and ord: "\<And>ks. mset (order ks) = mset ks" and b: "\<And>key ks. backend key ks (bk key ks)"
  shows "request_step m sha backend (c, r) (exec_step m sha order bk c r)"
proof (cases "fl_phase r")
  case (Probing i cached pending)
  note p = Probing
  obtain c' ph where g: "probe_text m sha (fl_key r) i (fl_texts r ! i) c cached pending = (c', ph)" by fastforce
  consider "i < length (fl_texts r)" | "\<not> i < length (fl_texts r)" "pending = []" | "\<not> i < length (fl_texts r)" "pending \<noteq> []"
    by blast
  then show ?thesis
  proof cases
    case 1
    with p g show ?thesis by (simp add: exec_step_def request_step.Probe)
  next
    case 2
    with p show ?thesis by (simp add: exec_step_def request_step.AllHits)
  next
    case 3
    with p ord [of "map fst pending"] show ?thesis by (simp add: exec_step_def request_step.Misses)
  qed
next
  case (Inferring cached pending ks)
  with b [of "fl_key r" ks] show ?thesis
    by (cases "bk (fl_key r) ks")
      (auto simp: exec_step_def intro: request_step.InferError request_step.Mismatch request_step.Inferred)
next
  case (Inserting cached pending tvs)
  then show ?thesis
  proof (cases tvs)
    case (Cons tv tvs')
    obtain t v where "tv = (t, v)" by fastforce
    moreover obtain c' ph where "insert_miss m sha (fl_key r) t v tvs' c cached pending = (c', ph)" by fastforce
    ultimately show ?thesis using Cons Inserting by (simp add: exec_step_def request_step.Insert)
  qed (simp add: exec_step_def request_step.Filled)
qed (use assms(1) in \<open>auto simp: ended_def\<close>)

lemma schedule_is_run:
  assumes ord: "\<And>ks. mset (order ks) = mset ks" and b: "\<And>key ks. backend key ks (bk key ks)"
  shows "(server_step m sha backend)\<^sup>*\<^sup>* s (schedule m sha order bk ts s)"
proof (induction ts arbitrary: s)
  case (Cons t ts)
  obtain c rs where s: "s = (c, rs)" by fastforce
  show ?case
  proof (cases "t < length rs \<and> \<not> ended (rs ! t)")
    case True
    obtain c' r' where e: "exec_step m sha order bk c (rs ! t) = (c', r')" by fastforce
    have "request_step m sha backend (c, rs ! t) (exec_step m sha order bk c (rs ! t))"
      by (rule exec_step_is_step) (use True ord b in auto)
    with True e have "server_step m sha backend (c, rs) (c', rs[t := r'])" by (simp add: server_step.Run)
    then show ?thesis using Cons.IH [of "(c', rs[t := r'])"] True e by (simp add: s converse_rtranclp_into_rtranclp)
  next
    case False
    then show ?thesis using Cons.IH [of s] by (auto simp: s)
  qed
qed simp

lemma request_step_frame:
  "request_step m sha backend s s' \<Longrightarrow> fl_key (snd s') = fl_key (snd s) \<and> fl_texts (snd s') = fl_texts (snd s)"
  by (induction rule: request_step.induct) simp_all

lemma request_can_step:
  assumes "\<not> ended r" and "\<And>key ks. \<exists>out. backend key ks out"
  shows "\<exists>c' r'. request_step m sha backend (c, r) (c', r')"
proof -
  obtain bk where "\<And>key ks. backend key ks (bk key ks)" using assms(2) by metis
  then have "request_step m sha backend (c, r) (exec_step m sha id bk c r)"
    by (intro exec_step_is_step assms(1)) simp_all
  then show ?thesis by (cases "exec_step m sha id bk c r") auto
qed

text \<open>All requests that have arrived can be run to their end.\<close>

definition work_left :: "'v in_flight list \<Rightarrow> nat" where
  "work_left rs = sum_list (map steps_left rs)"

lemma sum_list_update_less:
  fixes f :: "'a \<Rightarrow> nat"
  shows "t < length xs \<Longrightarrow> f y < f (xs ! t) \<Longrightarrow> sum_list (map f (xs[t := y])) < sum_list (map f xs)"
proof (induction xs arbitrary: t)
  case (Cons x xs)
  then show ?case by (cases t) auto
qed simp

lemma run_decreases:
  assumes "t < length rs" and "request_step m sha backend (c, rs ! t) (c', r')" and "server_ok view P sha (c, rs)"
  shows "work_left (rs[t := r']) < work_left rs"
proof -
  have "flight_ok P sha (rs ! t)" using assms(1,3) by (simp add: server_ok_def)
  with assms(1,2) show ?thesis
    using steps_left_decreases [OF assms(2), of P] by (simp add: work_left_def sum_list_update_less)
qed

lemma update_frame: "t < length xs \<Longrightarrow> f y = f (xs ! t) \<Longrightarrow> map f (xs[t := y]) = map f xs"
  by (simp add: map_update list_update_same_conv)

context shared_cache
begin

lemma reach_ok: "reach (server_init view P) (server_step m sha backend) s \<Longrightarrow> server_ok view P sha s"
  by (rule server.reach_inv)

lemma drain:
  assumes "server_ok view P sha (c, rs)" and total: "\<And>key ks. \<exists>out. backend key ks out"
  shows "\<exists>c' rs'. (server_step m sha backend)\<^sup>*\<^sup>* (c, rs) (c', rs') \<and>
    map fl_key rs' = map fl_key rs \<and> map fl_texts rs' = map fl_texts rs \<and> (\<forall>r \<in> set rs'. ended r)"
  using assms(1)
proof (induction "work_left rs" arbitrary: c rs rule: less_induct)
  case less
  show ?case
  proof (cases "\<forall>r \<in> set rs. ended r")
    case False
    then obtain t where t: "t < length rs" "\<not> ended (rs ! t)" by (auto simp: in_set_conv_nth)
    obtain c1 r1 where step: "request_step m sha backend (c, rs ! t) (c1, r1)"
      using request_can_step [OF t(2), of backend m sha c] total by auto
    then have s: "server_step m sha backend (c, rs) (c1, rs[t := r1])" by (rule server_step.Run [OF t(1)])
    have frame: "map fl_key (rs[t := r1]) = map fl_key rs" "map fl_texts (rs[t := r1]) = map fl_texts rs"
      using request_step_frame [OF step] t(1) by (simp_all only: update_frame snd_conv)
    obtain c' rs' where run: "(server_step m sha backend)\<^sup>*\<^sup>* (c1, rs[t := r1]) (c', rs')"
      and e: "map fl_key rs' = map fl_key rs" "map fl_texts rs' = map fl_texts rs" "\<forall>r \<in> set rs'. ended r"
      using less.hyps [OF run_decreases [OF t(1) step less.prems] server.inv_step [OF s less.prems]] unfolding frame by auto
    from s run have "(server_step m sha backend)\<^sup>*\<^sup>* (c, rs) (c', rs')" by (rule converse_rtranclp_into_rtranclp)
    with e show ?thesis by blast
  qed (intro exI [of _ c] exI [of _ rs], simp)
qed

end

text \<open>
  A backend that answers the vectors of its texts or fails, over the store with LRU
  eviction.
\<close>

definition vector_backend :: "(string \<Rightarrow> string \<Rightarrow> fvec) \<Rightarrow> string \<Rightarrow> string list \<Rightarrow> fvec list option \<Rightarrow> bool" where
  "vector_backend E key ks out \<longleftrightarrow> out = None \<or> out = Some (map (E key) ks)"

lemma backend_okI:
  assumes "\<And>key ks vecs. backend key ks (Some vecs) \<Longrightarrow> length vecs = length ks \<Longrightarrow> vecs = map (E key) ks"
  shows "backend_ok (entry_of sha E) sha backend"
  unfolding backend_ok_def entry_of_def using assms by (fastforce simp: zip_map2 zip_same_conv_map)

interpretation lru_server: shared_cache lru_moka lru_view "entry_of sha E" sha "vector_backend E" for sha E
  by unfold_locales (rule backend_okI, simp add: vector_backend_def)

section \<open>The handler is the run of a request that is alone\<close>

text \<open>The backend a request of \<open>n\<close> texts meets in the handler.\<close>

definition infer_backend :: "AppState \<Rightarrow> ModelEntry \<Rightarrow> string \<Rightarrow> nat \<Rightarrow> string \<Rightarrow> string list \<Rightarrow> fvec list option \<Rightarrow> bool" where
  "infer_backend st entry model n key ks out \<longleftrightarrow>
     out = (case snd (infer_misses st entry model ks n) of Inl _ \<Rightarrow> None | Inr (vecs, tokens) \<Rightarrow> Some vecs)"

lemma probe_run:
  assumes "partition_from m sha key i ts c cached pending = (c1, cached1, pending1)"
    and "ts = drop i (fl_texts r)" and "i \<le> length (fl_texts r)" and "fl_key r = key"
  shows "(request_step m sha backend)\<^sup>*\<^sup>* (c, r\<lparr>fl_phase := Probing i cached pending\<rparr>)
    (c1, r\<lparr>fl_phase := Probing (length (fl_texts r)) cached1 pending1\<rparr>)"
  using assms
proof (induction m sha key i ts c cached pending rule: partition_from.induct)
  case (2 m sha key i t ts c cached pending)
  let ?r = "r\<lparr>fl_phase := Probing i cached pending\<rparr>"
  note t = drop_ConsD [OF "2.prems"(2) [symmetric]]
  have step: "request_step m sha backend (c, ?r) (c', r\<lparr>fl_phase := ph\<rparr>)"
    if "probe_text m sha key i t c cached pending = (c', ph)" for c' ph
    using request_step.Probe [of ?r i cached pending m sha c c' ph backend] that t "2.prems"(4) by simp
  obtain c2 g where g: "cache_get m sha c key t = (c2, g)" by fastforce
  show ?case
  proof (cases g)
    case None
    with g "2.prems" "2.IH"(1) [OF g [symmetric]] t step show ?thesis
      by (auto simp: probe_text_def Suc_le_eq intro: converse_rtranclp_into_rtranclp)
  next
    case (Some v)
    with g "2.prems" "2.IH"(2) [OF g [symmetric]] t step show ?thesis
      by (auto simp: probe_text_def Suc_le_eq intro: converse_rtranclp_into_rtranclp)
  qed
qed simp

lemma insert_run:
  assumes "scatter m sha (fl_key r) pending tvs c cached = Some (c2, cached2)"
  shows "(request_step m sha backend)\<^sup>*\<^sup>* (c, r\<lparr>fl_phase := Inserting cached pending tvs\<rparr>)
    (c2, r\<lparr>fl_phase := Inserting cached2 pending []\<rparr>)"
  using assms
proof (induction tvs arbitrary: c cached)
  case (Cons tv tvs)
  obtain t v where tv: "tv = (t, v)" by fastforce
  let ?r = "r\<lparr>fl_phase := Inserting cached pending (tv # tvs)\<rparr>"
  obtain ps cached' where ps: "map_of pending t = Some ps" "fill v ps cached = Some cached'"
    "scatter m sha (fl_key r) pending tvs (cache_insert m sha c (fl_key r) t v) cached' = Some (c2, cached2)"
    using Cons.prems by (auto simp: tv split: option.splits)
  have "request_step m sha backend (c, ?r) (cache_insert m sha c (fl_key r) t v, r\<lparr>fl_phase := Inserting cached' pending tvs\<rparr>)"
    using request_step.Insert [of ?r cached pending t v tvs m sha c _ _ backend] ps(1,2) by (simp add: tv insert_miss_def)
  then show ?case using Cons.IH [OF ps(3)] by (rule converse_rtranclp_into_rtranclp)
qed simp

text \<open>
  How the end of the machine's request and the response of the handler correspond.
\<close>

definition ends_as :: "(bytes \<Rightarrow> string) \<Rightarrow> EncodingFormat \<Rightarrow> fvec req_phase \<Rightarrow> EmbedResponse handled \<Rightarrow> bool" where
  "ends_as b64 fmt ph h = (case ph of
     Answered vectors \<Rightarrow> (\<exists>er. h = respond_ok er \<and> er_data er = build_data b64 vectors fmt)
   | Declined \<Rightarrow> (\<forall>er. h \<noteq> respond_ok er)
   | _ \<Rightarrow> False)"

lemma solo_probe:
  assumes "partition_hits_and_misses m sha c key texts = (c1, cached, pending)"
  shows "(request_step m sha backend)\<^sup>*\<^sup>* (c, arrive key texts)
    (c1, (arrive key texts)\<lparr>fl_phase := Probing (length texts) cached pending\<rparr>)"
  using probe_run [OF assms [unfolded partition_hits_and_misses_def], of "arrive key texts" backend]
  by (simp add: arrive_def)

lemma solo_misses:
  assumes part: "partition_hits_and_misses m sha c key texts = (c1, cached, pending)"
    and ks: "mset ks = mset (map fst pending)" and ne: "pending \<noteq> []"
  shows "(request_step m sha backend)\<^sup>*\<^sup>* (c, arrive key texts)
    (c1, (arrive key texts)\<lparr>fl_phase := Inferring cached pending ks\<rparr>)"
proof -
  have "request_step m sha backend (c1, (arrive key texts)\<lparr>fl_phase := Probing (length texts) cached pending\<rparr>)
      (c1, (arrive key texts)\<lparr>fl_phase := Inferring cached pending ks\<rparr>)"
    using request_step.Misses [of "(arrive key texts)\<lparr>fl_phase := Probing (length texts) cached pending\<rparr>"
        "length texts" cached pending ks m sha backend c1] ne ks
    by (simp add: arrive_def)
  with solo_probe [OF part] show ?thesis by (rule rtranclp.rtrancl_into_rtrancl)
qed

lemma solo_hits:
  assumes part: "partition_hits_and_misses m sha c key texts = (c1, cached, [])"
  shows "\<exists>vectors. cached = map Some vectors \<and>
    (request_step m sha backend)\<^sup>*\<^sup>* (c, arrive key texts) (c1, (arrive key texts)\<lparr>fl_phase := Answered vectors\<rparr>)"
proof -
  obtain vectors where vs: "cached = map Some vectors"
    using scatter_fills [OF part, of "[]" "[]"] by auto
  have "request_step m sha backend (c1, (arrive key texts)\<lparr>fl_phase := Probing (length texts) cached []\<rparr>)
      (c1, (arrive key texts)\<lparr>fl_phase := Answered vectors\<rparr>)"
    using request_step.AllHits [of "(arrive key texts)\<lparr>fl_phase := Probing (length texts) cached []\<rparr>"
        "length texts" cached m sha backend c1]
    by (simp add: arrive_def answer_def vs)
  with solo_probe [OF part] have "(request_step m sha backend)\<^sup>*\<^sup>* (c, arrive key texts)
      (c1, (arrive key texts)\<lparr>fl_phase := Answered vectors\<rparr>)"
    by (rule rtranclp.rtrancl_into_rtrancl)
  with vs show ?thesis by blast
qed

lemma solo_insert:
  assumes part: "partition_hits_and_misses m sha c key texts = (c1, cached, pending)"
    and ks: "mset ks = mset (map fst pending)" and b: "backend key ks (Some vecs)" and len: "length vecs = length ks"
  shows "\<exists>c2 vectors. scatter m sha key pending (zip ks vecs) c1 cached = Some (c2, map Some vectors) \<and>
    (request_step m sha backend)\<^sup>*\<^sup>* (c1, (arrive key texts)\<lparr>fl_phase := Inferring cached pending ks\<rparr>)
      (c2, (arrive key texts)\<lparr>fl_phase := Answered vectors\<rparr>)"
proof -
  let ?r = "arrive key texts" and ?steps = "(request_step m sha backend)\<^sup>*\<^sup>*"
  obtain c2 vectors where sc: "scatter m sha key pending (zip ks vecs) c1 cached = Some (c2, map Some vectors)"
    using scatter_fills [OF part ks len] by blast
  have "request_step m sha backend (c1, ?r\<lparr>fl_phase := Inferring cached pending ks\<rparr>)
      (c1, ?r\<lparr>fl_phase := Inserting cached pending (zip ks vecs)\<rparr>)"
    using request_step.Inferred [of "?r\<lparr>fl_phase := Inferring cached pending ks\<rparr>" cached pending ks backend vecs m sha c1] b len
    by (simp add: arrive_def)
  moreover have "?steps (c1, ?r\<lparr>fl_phase := Inserting cached pending (zip ks vecs)\<rparr>)
      (c2, ?r\<lparr>fl_phase := Inserting (map Some vectors) pending []\<rparr>)"
    using insert_run [of m sha ?r pending "zip ks vecs" c1 cached c2 "map Some vectors" backend] sc by (simp add: arrive_def)
  ultimately have "?steps (c1, ?r\<lparr>fl_phase := Inferring cached pending ks\<rparr>)
      (c2, ?r\<lparr>fl_phase := Inserting (map Some vectors) pending []\<rparr>)"
    by (rule converse_rtranclp_into_rtranclp)
  moreover have "request_step m sha backend (c2, ?r\<lparr>fl_phase := Inserting (map Some vectors) pending []\<rparr>)
      (c2, ?r\<lparr>fl_phase := Answered vectors\<rparr>)"
    using request_step.Filled [of "?r\<lparr>fl_phase := Inserting (map Some vectors) pending []\<rparr>" "map Some vectors" pending m sha backend c2]
    by (simp add: answer_def)
  ultimately have "?steps (c1, ?r\<lparr>fl_phase := Inferring cached pending ks\<rparr>) (c2, ?r\<lparr>fl_phase := Answered vectors\<rparr>)"
    by (rule rtranclp.rtrancl_into_rtrancl)
  with sc show ?thesis by blast
qed

lemma solo_declined:
  assumes "backend key ks None \<or> backend key ks (Some vecs) \<and> length vecs \<noteq> length ks"
  shows "(request_step m sha backend)\<^sup>*\<^sup>* (c1, (arrive key texts)\<lparr>fl_phase := Inferring cached pending ks\<rparr>)
    (c1, (arrive key texts)\<lparr>fl_phase := Declined\<rparr>)"
  using assms request_step.InferError [of "(arrive key texts)\<lparr>fl_phase := Inferring cached pending ks\<rparr>" cached pending ks backend m sha c1]
    request_step.Mismatch [of "(arrive key texts)\<lparr>fl_phase := Inferring cached pending ks\<rparr>" cached pending ks backend vecs m sha c1]
  by (auto simp: arrive_def)

lemma solo_run:
  assumes ord: "\<And>ks. mset (order ks) = mset ks"
    and res: "embed_texts b64 m sha order st entry model key fmt texts c = (h, c', ml)"
  shows "\<exists>ph. (request_step m sha (infer_backend st entry model (length texts)))\<^sup>*\<^sup>* (c, arrive key texts)
      (c', (arrive key texts)\<lparr>fl_phase := ph\<rparr>) \<and> ends_as b64 fmt ph h"
proof -
  let ?b = "infer_backend st entry model (length texts)" and ?r = "arrive key texts"
  obtain c1 cached pending where part: "partition_hits_and_misses m sha c key texts = (c1, cached, pending)"
    by (metis prod_cases3)
  let ?ks = "order (map fst pending)"
  show ?thesis
  proof (cases "pending = []")
    case True
    with part solo_hits [of m sha c key texts c1 cached ?b] obtain vectors where "cached = map Some vectors"
      "(request_step m sha ?b)\<^sup>*\<^sup>* (c, ?r) (c1, ?r\<lparr>fl_phase := Answered vectors\<rparr>)" by auto
    with res part True show ?thesis
      by (intro exI [of _ "Answered vectors"]) (auto simp: embed_texts_def Let_def ends_as_def)
  next
    case False
    have wait: "(request_step m sha ?b)\<^sup>*\<^sup>* (c, ?r) (c1, ?r\<lparr>fl_phase := Inferring cached pending ?ks\<rparr>)"
      by (rule solo_misses) (fact part ord False)+
    obtain ms out where inf: "infer_misses st entry model ?ks (length texts) = (ms, out)" by fastforce
    then have b: "?b key ?ks (case out of Inl _ \<Rightarrow> None | Inr (vecs, tokens) \<Rightarrow> Some vecs)" by (simp add: infer_backend_def)
    consider (err) e where "out = Inl e" | (bad) vecs tokens where "out = Inr (vecs, tokens)" "length vecs \<noteq> length ?ks"
      | (ok) vecs tokens where "out = Inr (vecs, tokens)" "length vecs = length ?ks"
      by (cases out) auto
    then show ?thesis
    proof cases
      case err
      with b wait solo_declined [of ?b key ?ks "[]" m sha c1 cached pending texts]
      have "(request_step m sha ?b)\<^sup>*\<^sup>* (c, ?r) (c1, ?r\<lparr>fl_phase := Declined\<rparr>)" by (auto intro: rtranclp_trans)
      moreover have "\<forall>er. e \<noteq> respond_ok er" using infer_misses_Inl [OF inf [unfolded err]] by auto
      ultimately show ?thesis
        using res part False inf err by (intro exI [of _ Declined]) (auto simp: embed_texts_def Let_def ends_as_def)
    next
      case bad
      with b wait solo_declined [of ?b key ?ks vecs m sha c1 cached pending texts]
      have "(request_step m sha ?b)\<^sup>*\<^sup>* (c, ?r) (c1, ?r\<lparr>fl_phase := Declined\<rparr>)" by (auto intro: rtranclp_trans)
      with res part False inf bad show ?thesis
        by (intro exI [of _ Declined]) (auto simp: embed_texts_def Let_def ends_as_def)
    next
      case ok
      with b solo_insert [OF part ord, of ?b vecs] obtain c2 vectors where
        sc: "scatter m sha key pending (zip ?ks vecs) c1 cached = Some (c2, map Some vectors)"
        and "(request_step m sha ?b)\<^sup>*\<^sup>* (c1, ?r\<lparr>fl_phase := Inferring cached pending ?ks\<rparr>) (c2, ?r\<lparr>fl_phase := Answered vectors\<rparr>)"
        by auto
      with wait have "(request_step m sha ?b)\<^sup>*\<^sup>* (c, ?r) (c2, ?r\<lparr>fl_phase := Answered vectors\<rparr>)" by (auto intro: rtranclp_trans)
      with res part False inf ok sc show ?thesis
        by (intro exI [of _ "Answered vectors"]) (auto simp: embed_texts_def Let_def ends_as_def)
    qed
  qed
qed

section \<open>Properties\<close>

lemma shared_cacheI:
  assumes "lossy_store (mk_get m) (mk_insert m) view"
    and "\<And>key ks vecs. backend key ks (Some vecs) \<Longrightarrow> length vecs = length ks \<Longrightarrow> vecs = map (E key) ks"
  shows "shared_cache m view (entry_of sha E) sha backend"
  by (intro shared_cache.intro shared_cache_axioms.intro cache_backendI assms(1) backend_okI) (rule assms(2))

text \<open>
  C7. Requests that share the cache do not disturb each other. Any number of embedding
  requests arrive at any time and their probes, inferences and insertions interleave in any
  order, over a store that may forget entries. As long as a backend that answers with one
  vector per text answers each text with its vector, no request panics, every answered
  request has one vector per text, each the vector of a text with the hash of the text at
  that position, and the cache holds only such vectors: a request may read what another is
  inserting, and two may compute the same text, but neither can be observed in an answer.
\<close>

theorem concurrent_requests_correct:
  assumes store: "lossy_store (mk_get m) (mk_insert m) view"
    and backend: "\<And>key ks vecs. backend key ks (Some vecs) \<Longrightarrow> length vecs = length ks \<Longrightarrow> vecs = map (E key) ks"
    and run: "reach (server_init view (entry_of sha E)) (server_step m sha backend) (c, rs)"
  shows "cache_sound view (entry_of sha E) c \<and>
    (\<forall>r \<in> set rs. fl_phase r \<noteq> Crashed \<and>
      (\<forall>vectors. fl_phase r = Answered vectors \<longrightarrow> length vectors = length (fl_texts r) \<and>
        (\<forall>j < length vectors. \<exists>t. hash_text sha t = hash_text sha (fl_texts r ! j) \<and> vectors ! j = E (fl_key r) t)))"
proof -
  have "shared_cache m view (entry_of sha E) sha backend"
    by (rule shared_cacheI) (fact store backend)+
  from shared_cache.reach_ok [OF this run] show ?thesis
    by (auto simp: server_ok_def flight_ok_def req_phase_ok_def slots_ok_def entry_of_def)
qed



section \<open>Witnesses\<close>

text \<open>
  Two requests for the same text arrive together, both miss and both wait for its vector;
  the first has been answered, the second is about to insert.
\<close>

definition wit_bk :: "string \<Rightarrow> string list \<Rightarrow> fvec list option" where
  "wit_bk key ks = Some (map (wit_vec key) ks)"

definition wit_arrived :: "((string \<times> string, fvec) lru, fvec) server" where
  "wit_arrived = (wit_cache0, [arrive ''m'' [''ab''], arrive ''m'' [''ab'']])"

definition wit_flights :: "((string \<times> string, fvec) lru, fvec) server" where
  "wit_flights = (Some (2, [((''m'', ''ab''), [F32 2])]),
     [\<lparr>fl_key = ''m'', fl_texts = [''ab''], fl_phase = Answered [[F32 2]]\<rparr>,
      \<lparr>fl_key = ''m'', fl_texts = [''ab''], fl_phase = Inserting [None] [(''ab'', [0])] [(''ab'', [F32 2])]\<rparr>])"

lemma wit_schedule: "schedule lru_moka id id wit_bk [0, 1, 0, 1, 0, 1, 0, 0] wit_arrived = wit_flights"
  by (simp add: wit_arrived_def wit_flights_def arrive_def ended_def exec_step_def probe_text_def cache_get_def hash_text_def
      wit_cache0_def cache_new_def lru_moka_def lru_get_def lru_insert_def wit_bk_def wit_vec_def insert_miss_def cache_insert_def
      answer_def)

lemma wit_flights_reach:
  "reach (server_init lru_view (entry_of id wit_vec)) (server_step lru_moka id (vector_backend wit_vec)) wit_flights"
proof -
  have "reach (server_init lru_view (entry_of id wit_vec)) (server_step lru_moka id (vector_backend wit_vec)) (wit_cache0, [])"
    using wit_sound by (intro reach_init) (simp add: server_init_def)
  from reach_step [OF reach_step [OF this server_step.Arrival] server_step.Arrival]
  have "reach (server_init lru_view (entry_of id wit_vec)) (server_step lru_moka id (vector_backend wit_vec)) wit_arrived"
    unfolding wit_arrived_def by (metis append_Nil append_Cons)
  then show ?thesis
    unfolding wit_schedule [symmetric]
    by (rule reach_rtranclp, intro schedule_is_run) (simp_all add: vector_backend_def wit_bk_def)
qed

theorem concurrent_requests_correct_witness:
  "fl_phase (snd wit_flights ! 0) = Answered [[F32 2]] \<and> length [[F32 2]] = length (fl_texts (snd wit_flights ! 0)) \<and>
   (\<exists>t. hash_text id t = hash_text id ''ab'' \<and> [F32 2] = wit_vec ''m'' t) \<and> fl_phase (snd wit_flights ! 1) \<noteq> Crashed"
proof -
  obtain c rs where cr: "wit_flights = (c, rs)" by fastforce
  have "\<forall>r \<in> set rs. fl_phase r \<noteq> Crashed \<and>
      (\<forall>vectors. fl_phase r = Answered vectors \<longrightarrow> length vectors = length (fl_texts r) \<and>
        (\<forall>j < length vectors. \<exists>t. hash_text id t = hash_text id (fl_texts r ! j) \<and> vectors ! j = wit_vec (fl_key r) t))"
    by (rule concurrent_requests_correct [where backend = "vector_backend wit_vec" and c = c and m = lru_moka and view = lru_view and sha = id,
          THEN conjunct2])
      (use wit_flights_reach lru.store.lossy_store_axioms cr in \<open>auto simp: vector_backend_def\<close>)
  with cr show ?thesis by (auto simp: wit_flights_def)
qed



end
