(* ===== verification/Spec2Isabelle.thy ===== *)
theory Spec2Isabelle
  imports Server Observability Shared_Cache
begin

text \<open>
  A verification of ox-embed-server, a server for text embeddings, reranking and sparse
  embeddings. A supervisor process answers HTTP requests; it runs the ONNX models itself or,
  in multi-process mode, hands requests over Unix sockets to one worker process per model.

  \<^bold>\<open>Parts of the program and the theories that model them\<close> (paths under \<open>src/src\<close>).
  \<^item> \<open>Prelude\<close>, \<open>Rust_Std\<close>, \<open>Floats\<close>: results, blocking tasks and timeouts, list lemmas, the
    interface \<open>invariant_system\<close> of a transition system with an invariant; \<open>usize\<close>
    arithmetic, strings, integer parsing; \<open>f32\<close> as bit patterns with its orders and its
    arithmetic, \<open>f64\<close> as rounded values.
  \<^item> \<open>Config\<close> (\<open>config.rs\<close>): every environment variable, the three model lists, per-model
    overrides, \<open>from_env\<close>. The interface \<open>positive_knob\<close> is interpreted on eight parsers.
  \<^item> \<open>Arena\<close>, \<open>Onnx_Cache\<close>, \<open>Model_Load\<close> (\<open>arena.rs\<close>, \<open>onnx_cache.rs\<close>, \<open>mlock.rs\<close>, the loading
    parts of \<open>model.rs\<close>, \<open>model_reranker/load.rs\<close>, \<open>model_splade.rs\<close>): the shared allocator and
    its registration, the cache of optimised graphs, locked weights, the chain of builder
    calls and warm-up passes, with the ONNX runtime as a parameter.
  \<^item> \<open>Batcher\<close> (\<open>batcher.rs\<close>): the queue, the coalescing worker with its token budget, the
    fan-out of results, admission, shutdown.
  \<^item> \<open>Session_Pool\<close> (\<open>evictable_pool.rs\<close>): slots with critical sections, acquisition with lazy
    re-initialisation, release, idle eviction; sequentially and as interleaved threads.
  \<^item> \<open>Embed_Model\<close> (\<open>model.rs\<close>, \<open>pool.rs\<close>): tokenisation, the sub-batch planner, padded tensors,
    one forward pass, mean pooling, reassembly.
  \<^item> \<open>Reranker_Model\<close> (\<open>model_reranker\<close>): pair tokenisation, scoring with the dynamic and the
    static session pools, discovery of static graphs.
  \<^item> \<open>Caches\<close> (\<open>cache.rs\<close>, \<open>token_cache.rs\<close>, \<open>cache_flow.rs\<close>): both caches over a store that may
    forget (interfaces \<open>lossy_store\<close> and \<open>cache_backend\<close>), the partition into hits and misses.
  \<^item> \<open>Http\<close>, \<open>Api_Embeddings\<close>, \<open>Api_Rerank\<close>, \<open>Api_Splade\<close>, \<open>Api_Health\<close> (\<open>types.rs\<close>, \<open>api.rs\<close>,
    \<open>api_rerank.rs\<close>, \<open>api_splade.rs\<close> with \<open>model_splade.rs\<close>, \<open>api_health.rs\<close>): the handlers as
    functions from state and request to response, new cache and metrics.
  \<^item> \<open>Shared_Cache\<close> (\<open>api.rs\<close>, \<open>cache_flow.rs\<close>): embedding requests that run at the same time over
    one cache, a step being one probe, one inference, one insertion or an answer; interface
    \<open>shared_cache\<close>.
  \<^item> \<open>Ipc\<close> (\<open>ipc/\<close>): messages, frames, the client. \<open>Supervisor\<close> (\<open>supervisor/\<close>): launch, spawn,
    watchdog, heartbeat, routing, and the interleaving of watchdog, heartbeat and process.
    \<open>Worker\<close> (\<open>bin/worker.rs\<close>, \<open>worker_waiters.rs\<close>): start-up, answers, connections, admission.
  \<^item> \<open>Boot\<close>, \<open>Server\<close>, \<open>Shutdown\<close> (\<open>main.rs\<close>): the registries, the worker pool and the routes; the
    whole start from the environment to the shared state; the end of the process, from the
    signal over the drain window to the shutdown of the batchers, interleaved with the
    handlers (interface \<open>graceful_shutdown\<close>).
  \<^item> \<open>Metrics\<close>, \<open>Observability\<close> (\<open>metrics.rs\<close>, \<open>proc.rs\<close>, parts of \<open>otel.rs\<close>): every recorder as the
    operations it performs on the registry (interface \<open>metric_registry\<close>), which recorder each
    component calls, the readers of the resident set, the parser of runtime log lines.
  \<^item> This theory composes the components: an embedding, a rerank and a sparse request through
    routing, client, wire, worker and model, and an embedding request inside the process.

  \<^bold>\<open>How code becomes definitions.\<close> Structs are records, enums are datatypes, a
  \<open>Result\<close> is a sum with the error on the left, a panic is \<open>None\<close>, \<open>Panic\<close> or \<open>JoinPanic\<close>.
  A panic is modelled as unwinding, so that a blocking task that panics is an error of its
  join; the release profile aborts the process instead (\<open>Cargo.toml\<close>), and there these
  branches end it. Mutable state is passed through; shared state under concurrency is a
  transition system whose steps are the critical sections and atomic operations of the code.
  Metrics are returned as lists where handlers emit them; log lines are left out.

  \<^bold>\<open>What is proved.\<close>
  \<^item> Functional correctness of the endpoints: a successful embedding response pairs every text
    with its vector whatever was cached; rerank results are the documents in descending order
    of score; worker and in-process mode agree for sparse vectors; all error branches; a
    server that has started answers every request; readiness means a working default model.
  \<^item> Transparency: batching requests, splitting them into sub-batches, padding them, the cache
    of optimised graphs and other requests at work on the same cache cannot be observed in
    the vectors returned; the sequential handler is the run of a request that is alone.
  \<^item> Safety and invariants under every interleaving: sessions are used by one thread at a time
    and are neither lost nor duplicated; process id, client slot and phase of the watchdog are
    consistent; the waiter counter and the permits of a worker are exact; no batcher is shut
    down while a handler runs.
  \<^item> Liveness: every queued request is answered, concurrent requests come to an end, a wedged
    worker is killed within the configured number of probes, an unanswered request never
    blocks a worker, the shutdown can always be completed.
  \<^item> Round trips of frames and model lists, bounds of batches, backoff and configuration; every
    request is counted once.

  \<^bold>\<open>Bounds and fuel.\<close> The batching loop, the polls and the respawn loop consume lists of
  observations, one per iteration, so they are structurally recursive; their theorems say for
  which observations they return. \<open>serve_connection\<close> takes the length of the stream as fuel,
  which exceeds the number of frames in it (each takes at least four bytes).
  Model lengths are at most \<open>2 ^ 63\<close> where \<open>next_power_of_two\<close> must not wrap. Strings are bytes;
  white space and case are those of ASCII except where a handler tests for blank input.

  \<^bold>\<open>Parameters.\<close> The tokenizer, the ONNX runtime and its sessions, the serialiser, base64, the
  SHA hash, the moka store, \<open>exp\<close> and \<open>ln\<close>, decimal parsing of floats, the unstable selection of
  the standard library, the return of the HTTP server from its graceful shutdown, the clock
  and the operating system are arguments; what the code relies on is a named hypothesis with
  a witness.

  \<^bold>\<open>Not modelled.\<close> The setup of tracing, the propagation of spans and the rendering of metrics,
  the binding of listeners, the delivery of signals, the periodic memory trim and log lines:
  they call libraries and the operating system and keep no state the modelled parts read. The
  tests inside the modules exercise the program and are no part of it.
\<close>

section \<open>A request through the supervisor, the wire, the worker and the model\<close>

text \<open>
  C5. The worker path end to end. Suppose the pool routes a model to a supervisor whose client
  is up at the first poll, the client's connection leads to a worker that hosts the embedding
  model, the two ends agree on the encoding of messages, both frames fit, the tokenizer
  gives one sequence per text, every pass gets a session and the sessions compute each row
  from its own tokens. Then the dispatch returns an embedding response to this very request
  with, for every text in order, the normalised mean of the model's vectors for the tokens
  of that text alone.
\<close>

theorem worker_path_correct:
  assumes route: "map_of (workers p) model = Some s"
    and agree: "\<And>r bs. enc_req w r = Inr bs \<Longrightarrow> dec_req cd bs = Inr r" "\<And>r bs. enc_resp cd r = Inr bs \<Longrightarrow> dec_resp w bs = Inr r"
    and host: "peer w = worker_peer cd (LoadedEmbed (\<lambda>texts msl. joined_of pt (standalone_infer encode m acq texts msl)))"
    and tok: "texts \<noteq> []" "encode texts = Inr encs" "length encs = length texts"
    and sessions: "\<And>k. \<exists>session. acq k = Inr session \<and> row_local m hid session"
    and len: "0 < em_max_len m" "em_max_len m \<le> 2 ^ 63"
    and resp: "resp = RespEmbed \<lparr>eo_request_id = request_counter c,
        eo_vectors = map (\<lambda>sq. pool_row (em_dim m) (hid (take (em_max_len m) sq))) encs, eo_dims = of_nat (em_dim m)\<rparr>"
    and fit: "write_frame (enc_req w) (ReqEmbed \<lparr>em_request_id = request_counter c, em_model = model, em_texts = texts,
        em_max_seq_len = msl\<rparr>) = Inr out" "write_frame (enc_resp cd) resp = Inr bk"
  shows "\<exists>p'. pool_dispatch_embed w texts msl p model start ((Some c, t) # obs) now = Some (Inr resp, p')"
proof -
  let ?l = "LoadedEmbed (\<lambda>texts msl. joined_of pt (standalone_infer encode m acq texts msl))"
  let ?req = "ReqEmbed \<lparr>em_request_id = request_counter c, em_model = model, em_texts = texts, em_max_seq_len = msl\<rparr>"
  have "tokenize encode m texts = Inr (map (take (em_max_len m)) encs, length (filter (\<lambda>ids. em_max_len m < length ids) encs))"
    using tok by (auto simp: tokenize_def min_def)
  then have infer: "standalone_infer encode m acq texts msl = Some (Inr (map (\<lambda>sq. pool_row (em_dim m) (hid (take (em_max_len m) sq))) encs, of_nat (em_dim m)))"
    using model_embed_tokens_map [OF sessions len] by (simp add: standalone_infer_def comp_def)
  then have serve: "serve_request ?l ?req = resp"
    by (simp add: joined_of_def reply_with_def resp)
  have "send_request w ?req = Some (Inr resp)"
    using send_request_worker [OF fit(1) _ agree host] fit(2) by (simp only: serve)
  then have "fst (client_dispatch_embed w model texts msl c) = Some (Inr resp)"
    by (simp add: client_dispatch_embed_def fetch_id_def check_embed_def resp tok)
  then show ?thesis
    using route by (simp add: pool_dispatch_embed_def pool_dispatch_def get_client_def finish_dispatch_def split: prod.splits)
qed

section \<open>Witnesses\<close>

definition wit_path_client :: WorkerClient where
  "wit_path_client = \<lparr>socket_path = ''s'', permits = 1, request_counter = 3\<rparr>"

definition wit_path_req :: WorkerRequest where
  "wit_path_req = ReqEmbed \<lparr>em_request_id = 3, em_model = ''m'', em_texts = [''t''], em_max_seq_len = 1\<rparr>"

definition wit_path_resp :: WorkerResponse where
  "wit_path_resp = RespEmbed \<lparr>eo_request_id = 3, eo_vectors = [pool_row 1 (wit_hidden [5])], eo_dims = 1\<rparr>"

definition wit_path_codec :: codec where
  "wit_path_codec = \<lparr>dec_req = (\<lambda>bs. Inr wit_path_req), enc_resp = (\<lambda>r. if r = wit_path_resp then Inr [2] else Inl ''unsupported'')\<rparr>"

definition wit_path_infer :: "string list \<Rightarrow> 32 word \<Rightarrow> (string + f32 list list \<times> 32 word) joined" where
  "wit_path_infer texts msl =
     joined_of ''panic'' (standalone_infer (\<lambda>ts. Inr (map (\<lambda>_. [5]) ts)) wit_embed_model (\<lambda>k. Inr wit_session_fn) texts msl)"

definition wit_path_wire :: wire where
  "wit_path_wire = \<lparr>enc_req = (\<lambda>r. if r = wit_path_req then Inr [1] else Inl ''unsupported''), dec_resp = (\<lambda>bs. Inr wit_path_resp),
     peer = worker_peer wit_path_codec (LoadedEmbed wit_path_infer)\<rparr>"

theorem worker_path_correct_witness:
  "\<exists>p'. pool_dispatch_embed wit_path_wire [''t''] 1 \<lparr>workers = [(''m'', wit_sup)], dispatch_timeout = 30000\<rparr> ''m'' 0
     [(Some wit_path_client, 0)] 7 = Some (Inr wit_path_resp, p')"
proof (rule worker_path_correct [where m = wit_embed_model and hid = wit_hidden and encs = "[[5]]" and s = wit_sup
      and cd = wit_path_codec and out = "[1, 0, 0, 0, 1]" and bk = "[1, 0, 0, 0, 2]" and pt = "''panic''"
      and encode = "\<lambda>ts. Inr (map (\<lambda>_. [5]) ts)" and acq = "\<lambda>k. Inr wit_session_fn"])
  show "dec_req wit_path_codec bs = Inr r" if "enc_req wit_path_wire r = Inr bs" for r bs
    using that by (simp add: wit_path_wire_def wit_path_codec_def split: if_splits)
  show "dec_resp wit_path_wire bs = Inr r" if "enc_resp wit_path_codec r = Inr bs" for r bs
    using that by (simp add: wit_path_wire_def wit_path_codec_def split: if_splits)
  show "peer wit_path_wire = worker_peer wit_path_codec (LoadedEmbed (\<lambda>texts msl. joined_of ''panic''
      (standalone_infer (\<lambda>ts. Inr (map (\<lambda>_. [5]) ts)) wit_embed_model (\<lambda>k. Inr wit_session_fn) texts msl)))"
    by (simp add: wit_path_wire_def wit_path_infer_def [abs_def])
  show "\<exists>session. (Inr wit_session_fn :: AcquireError + session_fn) = Inr session \<and> row_local wit_embed_model wit_hidden session"
    using wit_row_local by blast
qed (simp_all add: wit_embed_model_def wit_path_resp_def wit_path_client_def wit_path_wire_def wit_path_codec_def wit_path_req_def
    write_frame_def MAX_FRAME_BYTES_def u32_le_def)

section \<open>A request served in the process\<close>

lemma in_process_misses:
  assumes tok: "\<And>ts. encode ts = Inr (map tk ts)"
    and sessions: "\<And>k. \<exists>session. acq k = Inr session \<and> row_local em hid session"
    and len: "0 < em_max_len em" "em_max_len em \<le> 2 ^ 63"
    and b: "\<And>bf ids. b = Some bf \<Longrightarrow> bf ids = batch_call (\<lambda>ids. joined_of pt (model_embed_tokens em acq ids)) (run ids) ids \<and> queued (run ids) ids"
    and st: "worker_pool st = None"
  shows "\<exists>ms tokens. infer_misses st \<lparr>me_model = Some (in_process_session encode em acq pt), me_batcher = b\<rparr> model ts n =
    (ms, Inr (map (\<lambda>t. pool_row (em_dim em) (hid (take (em_max_len em) (tk t)))) ts, tokens))"
proof -
  have ids: "tokenize encode em ts = Inr (map (\<lambda>t. take (em_max_len em) (tk t)) ts, length (filter (\<lambda>ids. em_max_len em < length ids) (map tk ts)))"
    using tok by (cases "ts = []") (auto simp: tokenize_def min_def)
  have run: "model_embed_tokens em acq ids = Some (Inr (map (\<lambda>sq. pool_row (em_dim em) (hid (take (em_max_len em) sq))) ids))" for ids
    by (rule model_embed_tokens_map [OF sessions len])
  show ?thesis
  proof (cases b)
    case None
    then show ?thesis
      by (simp add: infer_misses_def st embed_in_process_def embed_ids_in_process_def in_process_session_def ids run joined_of_def comp_def)
  next
    case (Some bf)
    have "bf ids = Inr (map (\<lambda>sq. pool_row (em_dim em) (hid (take (em_max_len em) sq))) ids)" for ids
      using b [OF Some, of ids] run by (simp add: batch_call_value joined_of_def)
    then show ?thesis
      using Some by (simp add: infer_misses_def st embed_in_process_def embed_ids_in_process_def in_process_session_def ids comp_def)
  qed
qed

text \<open>
  C6. The in-process path end to end. A server without workers that is not shutting down gets a
  request of admissible size for a loaded model, with any sound cache, and with or without a
  batcher; with one, each call of it is served by a run of its worker over this very model,
  into whose queue the call gets, whatever else is queued, batched with it or cancelled. If
  the tokenizer encodes each text by itself and the sessions compute each row from its own
  tokens, the answer is 200 with one vector per text, in order: the encoding of the normalised
  mean of the model's vectors for the tokens of that text alone, or of a text with the same
  hash, whatever was cached, batched, split or padded; and the cache stays sound.
\<close>

theorem in_process_path_correct:
  assumes store: "lossy_store (mk_get mk) (mk_insert mk) view"
    and ord: "\<And>ks. mset (order ks) = mset ks"
    and sound: "cache_sound view (entry_of sha E) c"
    and tok: "\<And>ts. encode ts = Inr (map tk ts)"
    and sessions: "\<And>k. \<exists>session. acq k = Inr session \<and> row_local em hid session"
    and len: "0 < em_max_len em" "em_max_len em \<le> 2 ^ 63"
    and b: "\<And>bf ids. b = Some bf \<Longrightarrow> bf ids = batch_call (\<lambda>ids. joined_of pt (model_embed_tokens em acq ids)) (run ids) ids \<and> queued (run ids) ids"
    and st: "worker_pool st = None" "\<not> shutdown_cancelled st"
    and size: "into_vec (req_input req) \<noteq> []" "length (into_vec (req_input req)) \<le> embed_max_input_array st"
    and model: "model = (case req_model req of None \<Rightarrow> default_model st | Some x \<Rightarrow> x)"
    and entry: "app_models st model = Some \<lparr>me_model = Some (in_process_session encode em acq pt), me_batcher = b\<rparr>"
    and vec: "E (cache_model_key model (input_type_or_default (req_input_type req))) =
      (\<lambda>t. pool_row (em_dim em) (hid (take (em_max_len em) (tk t))))"
  shows "\<exists>er c' ml. embeddings b64 mk sha order st req c = (respond_ok er, c', ml) \<and>
    length (er_data er) = length (into_vec (req_input req)) \<and>
    (\<forall>j < length (er_data er). \<exists>t. hash_text sha t = hash_text sha (into_vec (req_input req) ! j) \<and>
       er_data er ! j = \<lparr>ed_embedding = embedding_value b64 (encoding_format_or_default (req_encoding_format req))
           (pool_row (em_dim em) (hid (take (em_max_len em) (tk t)))), ed_index = j\<rparr>) \<and>
    cache_sound view (entry_of sha E) c'"
proof -
  let ?vec = "\<lambda>t. pool_row (em_dim em) (hid (take (em_max_len em) (tk t)))"
  let ?entry = "\<lparr>me_model = Some (in_process_session encode em acq pt), me_batcher = b\<rparr>"
  have inf: "\<exists>ms tokens. infer_misses st ?entry md ts n = (ms, Inr (map ?vec ts, tokens))" for md ts n
    by (rule in_process_misses) (fact tok sessions len b st(1))+
  have "\<exists>er. fst (embeddings b64 mk sha order st req c) = respond_ok er"
  proof (rule embeddings_answers)
    show "app_models st (case req_model req of None \<Rightarrow> default_model st | Some x \<Rightarrow> x) = Some ?entry"
      using entry model by simp
    show "\<exists>ms vecs tokens. infer_misses st ?entry md ts n = (ms, Inr (vecs, tokens)) \<and> length vecs = length ts" for md ts n
      using inf [of md ts n] by auto
  qed (fact ord st(2) size)+
  then obtain er c' ml where res: "embeddings b64 mk sha order st req c = (respond_ok er, c', ml)"
    by (metis prod.collapse)
  let ?key = "cache_model_key model (input_type_or_default (req_input_type req))"
  have backend: "vecs = map (E (cache_model_key model (input_type_or_default (req_input_type req)))) ts"
    if "app_models st model = Some e'" "infer_misses st e' model ts n = (ms, Inr (vecs, tokens))" "length vecs = length ts" for e' ts n ms vecs tokens
    using that inf [of model ts n] entry vec by auto
  have "cache_sound view (entry_of sha E) c' \<and> length (er_data er) = length (into_vec (req_input req)) \<and>
     (\<forall>j < length (er_data er). \<exists>t. hash_text sha t = hash_text sha (into_vec (req_input req) ! j) \<and>
        er_data er ! j = \<lparr>ed_embedding = embedding_value b64 (encoding_format_or_default (req_encoding_format req)) (E ?key t),
                         ed_index = j\<rparr>)"
    by (rule embeddings_sound [where order = order, OF store ord sound model refl _ res]) (rule backend)
  then show ?thesis using res unfolding vec by blast
qed

definition wit_tok :: "string \<Rightarrow> token_seq" where
  "wit_tok t = map of_char t"

definition wit_batch_run :: "token_seq list \<Rightarrow> batch_run" where
  "wit_batch_run ids =
     \<lparr>br_before = \<lparr>name = ''m'', max_queue = 8, chan = [], receiver_alive = True\<rparr>,
      br_at_send = \<lparr>name = ''m'', max_queue = 8, chan = [], receiver_alive = True\<rparr>, br_reply = 1, br_now = 0, br_cfg = wit_cfg,
      br_gone1 = (\<lambda>i. reply i = 2), br_gone2 = (\<lambda>_. False),
      br_evs = [Recv (wit_item 0 [3]), Recv (wit_item 2 [2]), Recv \<lparr>token_ids = ids, reply = 1, enqueued_at = 0\<rparr>, Elapsed]\<rparr>"

definition wit_local_state :: AppState where
  "wit_local_state = \<lparr>app_models = (\<lambda>x. if x = ''m'' then Some \<lparr>me_model = Some (in_process_session (\<lambda>ts. Inr (map wit_tok ts))
       wit_embed_model (\<lambda>k. Inr wit_session_fn) ''panic''),
       me_batcher = Some (\<lambda>ids. batch_call (\<lambda>ids. joined_of ''panic'' (model_embed_tokens wit_embed_model (\<lambda>k. Inr wit_session_fn) ids))
         (wit_batch_run ids) ids)\<rparr> else None),
     default_model = ''m'', shutdown_cancelled = False, embed_max_input_array = 4, worker_pool = None\<rparr>"

lemma wit_queued: "queued (wit_batch_run ids) ids"
  by (simp add: queued_def wit_batch_run_def wit_item_def reject_threshold_def sender_capacity_def sat_sub_def sat_mul_def usize_max_def)

lemma all_less_Suc: "(\<forall>j < Suc n. P j) \<longleftrightarrow> P n \<and> (\<forall>j < n. P j)"
  by (auto simp: less_Suc_eq)

theorem in_process_path_correct_witness:
  "\<exists>er c' ml. embeddings (\<lambda>_. []) lru_moka id rev wit_local_state wit_request wit_cache0 = (respond_ok er, c', ml) \<and>
    length (er_data er) = 3 \<and> er_data er ! 1 = \<lparr>ed_embedding = embedding_value (\<lambda>_. []) FormatFloat (pool_row 1 (wit_hidden (wit_tok ''c''))), ed_index = 1\<rparr>"
proof -
  let ?E = "\<lambda>(_ :: string) t. pool_row 1 (wit_hidden (take 4 (wit_tok t)))"
  have "\<exists>er c' ml. embeddings (\<lambda>_. []) lru_moka id rev wit_local_state wit_request wit_cache0 = (respond_ok er, c', ml) \<and>
      length (er_data er) = length (into_vec (req_input wit_request)) \<and>
      (\<forall>j < length (er_data er). \<exists>t. hash_text id t = hash_text id (into_vec (req_input wit_request) ! j) \<and>
         er_data er ! j = \<lparr>ed_embedding = embedding_value (\<lambda>_. []) (encoding_format_or_default (req_encoding_format wit_request))
             (pool_row (em_dim wit_embed_model) (wit_hidden (take (em_max_len wit_embed_model) (wit_tok t)))), ed_index = j\<rparr>) \<and>
      cache_sound lru_view (entry_of id ?E) c'"
  proof (rule in_process_path_correct [where encode = "\<lambda>ts. Inr (map wit_tok ts)" and acq = "\<lambda>k. Inr wit_session_fn"
        and b = "Some (\<lambda>ids. batch_call (\<lambda>ids. joined_of ''panic'' (model_embed_tokens wit_embed_model (\<lambda>k. Inr wit_session_fn) ids))
           (wit_batch_run ids) ids)"
        and run = wit_batch_run and pt = "''panic''" and model = "''m''" and E = ?E and hid = wit_hidden and em = wit_embed_model and tk = wit_tok])
    show "lossy_store (mk_get lru_moka) (mk_insert lru_moka) lru_view" by (rule lru.store.lossy_store_axioms)
    show "cache_sound lru_view (entry_of id ?E) wit_cache0"
      by (simp add: cache_sound_def wit_cache0_def cache_new_def lru_moka_def opt_view_def lru_view_def)
    show "\<exists>session. (Inr wit_session_fn :: AcquireError + session_fn) = Inr session \<and> row_local wit_embed_model wit_hidden session"
      using wit_row_local by blast
  qed (auto simp: wit_queued wit_embed_model_def wit_local_state_def wit_request_def)
  then show ?thesis
    by (auto simp: wit_embed_model_def wit_request_def encoding_format_or_default_def hash_text_def wit_tok_def all_less_Suc)
qed

section \<open>A rerank request through the worker\<close>

text \<open>
  C12. The rerank path end to end. The handler in worker mode dispatches through the pool to a
  worker that serves a reranker loaded from its directory, with any set of static graphs. If
  the two ends agree on the encoding of messages, both frames fit, the tokenizer encodes each
  pair by itself into at least one token and every session computes the logit of a row from
  its own tokens, the response ranks the documents by the logits of their own pairs with the
  query, clipped to the length of the model.
\<close>

theorem rerank_path_correct:
  assumes load: "reranker_load le d nm dir ml padded ps = Inr m" "0 < ml" "builder_ok (le_build le) (rr_pad_id m) ml logit"
    and route: "map_of (workers p) model = Some s"
    and agree: "\<And>r bs. enc_req w r = Inr bs \<Longrightarrow> dec_req cd bs = Inr r" "\<And>r bs. enc_resp cd r = Inr bs \<Longrightarrow> dec_resp w bs = Inr r"
    and host: "peer w = worker_peer cd (LoadedRerank (\<lambda>q docs msl. joined_of pt (standalone_score encode m q docs msl)))"
    and tok: "\<And>pairs. encode pairs = Inr (map tk pairs)" "\<And>pair. tk pair \<noteq> []"
    and docs: "docs \<noteq> []"
    and scores: "scores = map (\<lambda>d. logit (take ml (tk (rq_query req, d)))) docs"
    and fit: "write_frame (enc_req w) (ReqRerank \<lparr>rr_request_id = request_counter c, rr_model = model, rr_query = rq_query req,
        rr_documents = docs, rr_max_seq_len = 0\<rparr>) = Inr out"
      "write_frame (enc_resp cd) (RespRerank \<lparr>ro_request_id = request_counter c, ro_scores = scores\<rparr>) = Inr bk"
    and dispatch: "\<And>md q ds msl. dispatch md q ds msl = fst (the (pool_dispatch_rerank w q ds msl p md start ((Some c, t) # obs) now))"
  shows "rerank_via_pool fo rid dispatch model req docs =
    (rerank_respond fo rid model req docs scores, [RerankRequestDone model ''success'' (length docs)])"
proof -
  let ?l = "LoadedRerank (\<lambda>q docs msl. joined_of pt (standalone_score encode m q docs msl))"
  let ?req = "ReqRerank \<lparr>rr_request_id = request_counter c, rr_model = model, rr_query = rq_query req, rr_documents = docs, rr_max_seq_len = 0\<rparr>"
  let ?resp = "RespRerank \<lparr>ro_request_id = request_counter c, ro_scores = scores\<rparr>"
  let ?ids = "map (\<lambda>d. take ml (tk (rq_query req, d))) docs"
  note m = reranker_load_ok [OF load]
  have ids: "tokenize_pairs encode m (rq_query req) docs = Inr ?ids"
    using docs by (auto simp: tokenize_pairs_def tok(1) m(2) min_def)
  have "\<forall>sq \<in> set ?ids. sq \<noteq> []" using tok(2) load(2) by auto
  from score_pairs_ok [OF m(1) this] obtain ms m' where
    "score_pairs m ?ids = Some (Inr (map (\<lambda>sq. logit (take (rr_max_len m) sq)) ?ids), ms, m')" by blast
  then have "standalone_score encode m (rq_query req) docs 0 = Some (Inr scores)"
    by (simp add: standalone_score_def ids m(2) scores comp_def)
  then have serve: "serve_request ?l ?req = ?resp"
    by (simp add: joined_of_def reply_with_def)
  have "send_request w ?req = Some (Inr ?resp)"
    using send_request_worker [OF fit(1) _ agree host] fit(2) by (simp only: serve)
  then have "fst (client_dispatch_rerank w model (rq_query req) docs 0 c) = Some (Inr ?resp)"
    by (simp add: client_dispatch_rerank_def fetch_id_def check_rerank_def scores)
  then have "dispatch model (rq_query req) docs 0 = Inr ?resp"
    using route by (simp add: dispatch pool_dispatch_rerank_def pool_dispatch_def get_client_def finish_dispatch_def split: prod.splits)
  moreover have "length docs = length scores" by (simp add: scores)
  ultimately show ?thesis by (simp add: rerank_via_pool_def rerank_respond_eq)
qed

definition wit_rk_wire_req :: WorkerRequest where
  "wit_rk_wire_req = ReqRerank \<lparr>rr_request_id = 3, rr_model = ''rr'', rr_query = ''q'', rr_documents = [''x'', ''y''], rr_max_seq_len = 0\<rparr>"

definition wit_rk_wire_resp :: WorkerResponse where
  "wit_rk_wire_resp = RespRerank \<lparr>ro_request_id = 3, ro_scores = [F32 120, F32 121]\<rparr>"

definition wit_pair :: "string \<times> string \<Rightarrow> token_seq" where
  "wit_pair pair = map of_char (snd pair @ '' '')"

definition wit_rk_codec :: codec where
  "wit_rk_codec = \<lparr>dec_req = (\<lambda>bs. Inr wit_rk_wire_req), enc_resp = (\<lambda>r. if r = wit_rk_wire_resp then Inr [2] else Inl ''unsupported'')\<rparr>"

definition wit_rk_host :: LoadedModel where
  "wit_rk_host = LoadedRerank (\<lambda>q docs msl. joined_of ''panic'' (standalone_score (\<lambda>pairs. Inr (map wit_pair pairs)) wit_rr_model q docs msl))"

definition wit_rk_wire :: wire where
  "wit_rk_wire = \<lparr>enc_req = (\<lambda>r. if r = wit_rk_wire_req then Inr [1] else Inl ''unsupported''), dec_resp = (\<lambda>bs. Inr wit_rk_wire_resp),
     peer = worker_peer wit_rk_codec wit_rk_host\<rparr>"

definition wit_rk_http :: RerankHttpRequest where
  "wit_rk_http = \<lparr>rq_model = None, rq_query = ''q'', rq_documents = [DocText ''x'', DocText ''y''], rq_top_n = None,
     rq_return_documents = False, rq_normalize = Some NormNone\<rparr>"

definition wit_rk_dispatch :: rerank_dispatch where
  "wit_rk_dispatch md q ds msl = fst (the (pool_dispatch_rerank wit_rk_wire q ds msl
     \<lparr>workers = [(''rr'', wit_sup)], dispatch_timeout = 30000\<rparr> md 0 [(Some wit_path_client, 0)] 7))"

theorem rerank_path_correct_witness:
  "rerank_via_pool wit_fo ''id'' wit_rk_dispatch ''rr'' wit_rk_http [''x'', ''y''] =
     (rerank_respond wit_fo ''id'' ''rr'' wit_rk_http [''x'', ''y''] [F32 120, F32 121], [RerankRequestDone ''rr'' ''success'' (length [''x'', ''y''])])"
proof (rule rerank_path_correct [OF wit_rr_load, where logit = wit_logit and tk = wit_pair and encode = "\<lambda>pairs. Inr (map wit_pair pairs)"
      and cd = wit_rk_codec and w = wit_rk_wire and s = wit_sup and c = wit_path_client and pt = "''panic''" and out = "[1, 0, 0, 0, 1]"
      and bk = "[1, 0, 0, 0, 2]" and p = "\<lparr>workers = [(''rr'', wit_sup)], dispatch_timeout = 30000\<rparr>" and start = 0 and t = 0
      and obs = "[]" and now = 7])
  show "builder_ok (le_build wit_rr_env) (rr_pad_id wit_rr_model) 4 wit_logit" by (rule wit_builder_ok)
  show "dec_req wit_rk_codec bs = Inr r" if "enc_req wit_rk_wire r = Inr bs" for r bs
    using that by (simp add: wit_rk_wire_def wit_rk_codec_def split: if_splits)
  show "dec_resp wit_rk_wire bs = Inr r" if "enc_resp wit_rk_codec r = Inr bs" for r bs
    using that by (simp add: wit_rk_wire_def wit_rk_codec_def split: if_splits)
  show "peer wit_rk_wire = worker_peer wit_rk_codec (LoadedRerank (\<lambda>q docs msl. joined_of ''panic''
      (standalone_score (\<lambda>pairs. Inr (map wit_pair pairs)) wit_rr_model q docs msl)))"
    by (simp add: wit_rk_wire_def wit_rk_host_def)
qed (simp_all add: wit_pair_def wit_logit_def wit_rk_http_def wit_rk_dispatch_def wit_rk_wire_def wit_rk_codec_def wit_rk_wire_req_def
    wit_rk_wire_resp_def wit_path_client_def write_frame_def MAX_FRAME_BYTES_def u32_le_def)

section \<open>A sparse request through the worker\<close>

text \<open>
  C13. The sparse path end to end. The handler in worker mode dispatches an admissible request
  through the pool to a worker that serves the sparse model. If the two ends agree on the
  encoding of messages, both frames fit, the tokenizer encodes each text by itself, every
  session computes the logits of a sequence from its tokens and the limit is positive and
  fits in 32 bits, the response has one item per text, in order, with the heaviest terms of
  the tokens of that text alone, whichever sessions the round robin picks.
\<close>

theorem sparse_path_correct:
  assumes model: "splade_ok m logits" and sel: "select_ok sel"
    and tok: "\<And>t. encode t = Inr (tk t)"
    and st: "\<not> sp_shutdown_cancelled st" "sp_worker_pool st = Some dispatch"
      "resolve_splade_name st (sq_model req) = Inr model"
    and req: "sq_input req \<noteq> []" "\<not> list_ex query_blank (sq_input req)"
    and k: "k = (case sq_top_k req of None \<Rightarrow> DEFAULT_TOP_K | Some k \<Rightarrow> k)" "0 < k" "k < 2 ^ 32"
    and mw: "mw = (case sq_min_weight req of None \<Rightarrow> DEFAULT_MIN_WEIGHT | Some w \<Rightarrow> w)"
    and route: "map_of (workers p) model = Some s"
    and agree: "\<And>r bs. enc_req w r = Inr bs \<Longrightarrow> dec_req cd bs = Inr r" "\<And>r bs. enc_resp cd r = Inr bs \<Longrightarrow> dec_resp w bs = Inr r"
    and host: "peer w = worker_peer cd (LoadedSplade (\<lambda>texts msl k mw. joined_of pt (fst (standalone_encode lnf sel encode m texts k mw))))"
    and fit: "write_frame (enc_req w) (ReqSplade \<lparr>sp_request_id = request_counter c, sp_model = model, sp_texts = sq_input req,
        sp_max_seq_len = 0, sp_top_k = of_nat k, sp_min_weight = mw\<rparr>) = Inr out"
      "write_frame (enc_resp cd) (RespSplade \<lparr>so_request_id = request_counter c,
        so_sparse = map (\<lambda>t. sparse_terms lnf sel m logits k mw (tk t)) (sq_input req)\<rparr>) = Inr bk"
    and dispatch: "\<And>md ts msl k mw. dispatch md ts msl k mw = fst (the (pool_dispatch_splade w ts msl k mw p md start ((Some c, t) # obs) now))"
  shows "fst (sparse_embeddings lnf' sel' encode' pt' st req) = respond_ok \<lparr>sr_model = model,
    sr_data = map (\<lambda>(i, t). local_item i (sparse_terms lnf sel m logits k mw (tk t))) (enumerate 0 (sq_input req))\<rparr>"
proof -
  let ?l = "LoadedSplade (\<lambda>texts msl k mw. joined_of pt (fst (standalone_encode lnf sel encode m texts k mw)))"
  let ?req = "ReqSplade \<lparr>sp_request_id = request_counter c, sp_model = model, sp_texts = sq_input req, sp_max_seq_len = 0,
    sp_top_k = of_nat k, sp_min_weight = mw\<rparr>"
  let ?vs = "map (\<lambda>t. sparse_terms lnf sel m logits k mw (tk t)) (sq_input req)"
  let ?resp = "RespSplade \<lparr>so_request_id = request_counter c, so_sparse = ?vs\<rparr>"
  have "fst (standalone_encode lnf sel encode m (sq_input req) (of_nat k) mw) = Some (Inr ?vs)"
    using standalone_encode_map [where encode = encode, OF model tok, of lnf sel "sq_input req" "of_nat k" mw]
    by (auto simp: effective_top_k_of_nat [OF k(3,2)])
  then have serve: "serve_request ?l ?req = ?resp"
    by (simp add: joined_of_def reply_with_def)
  have "send_request w ?req = Some (Inr ?resp)"
    using send_request_worker [OF fit(1) _ agree host] fit(2) by (simp only: serve)
  then have "fst (client_dispatch_splade w model (sq_input req) 0 (of_nat k) mw c) = Some (Inr ?resp)"
    by (simp add: client_dispatch_splade_def fetch_id_def check_splade_def)
  then have d: "dispatch model (sq_input req) 0 (of_nat k) mw = Inr ?resp"
    using route by (simp add: dispatch pool_dispatch_splade_def pool_dispatch_def get_client_def finish_dispatch_def split: prod.splits)
  have items: "pool_item k mw i (sparse_terms lnf sel m logits k mw ids) = local_item i (sparse_terms lnf sel m logits k mw ids)" for i ids
    using sparse_terms_bounds [OF sel] by (intro pool_item_local) auto
  obtain e where e: "map_of (splades st) model = Some e"
    using st(3) by (auto simp: resolve_splade_name_def split: option.splits if_splits list.splits)
  show ?thesis
    by (simp add: sparse_embeddings_def st req e Let_def k(1) [symmetric] mw [symmetric] sparse_via_pool_def d enumerate_eq_zip zip_map2 items
        comp_def case_prod_unfold)
qed

definition wit_sp_wire_req :: WorkerRequest where
  "wit_sp_wire_req = ReqSplade \<lparr>sp_request_id = 3, sp_model = ''s'', sp_texts = [''a''], sp_max_seq_len = 0, sp_top_k = 1,
     sp_min_weight = f32_zero\<rparr>"

definition wit_sp_terms :: "string \<Rightarrow> sparse_vec" where
  "wit_sp_terms t = sparse_terms id (\<lambda>n. sort_key weight_key) wit_splade (map (\<lambda>_. [f32_one, f32_zero, f32_one])) 1 f32_zero
     (map of_char t)"

definition wit_sp_wire_resp :: WorkerResponse where
  "wit_sp_wire_resp = RespSplade \<lparr>so_request_id = 3, so_sparse = [wit_sp_terms ''a'']\<rparr>"

definition wit_sp_codec :: codec where
  "wit_sp_codec = \<lparr>dec_req = (\<lambda>bs. Inr wit_sp_wire_req), enc_resp = (\<lambda>r. if r = wit_sp_wire_resp then Inr [2] else Inl ''unsupported'')\<rparr>"

definition wit_sp_wire :: wire where
  "wit_sp_wire = \<lparr>enc_req = (\<lambda>r. if r = wit_sp_wire_req then Inr [1] else Inl ''unsupported''), dec_resp = (\<lambda>bs. Inr wit_sp_wire_resp),
     peer = worker_peer wit_sp_codec (LoadedSplade (\<lambda>texts msl k mw. joined_of ''panic''
       (fst (standalone_encode id (\<lambda>n. sort_key weight_key) (\<lambda>t. Inr (map of_char t)) wit_splade texts k mw))))\<rparr>"

definition wit_sp_dispatch :: splade_dispatch where
  "wit_sp_dispatch md ts msl k mw = fst (the (pool_dispatch_splade wit_sp_wire ts msl k mw
     \<lparr>workers = [(''s'', wit_sup)], dispatch_timeout = 30000\<rparr> md 0 [(Some wit_path_client, 0)] 7))"

theorem sparse_path_correct_witness:
  "fst (sparse_embeddings id (\<lambda>n. sort_key weight_key) (\<lambda>t. Inl '''') '''' (wit_splade_state\<lparr>sp_worker_pool := Some wit_sp_dispatch\<rparr>)
     wit_splade_request) = respond_ok \<lparr>sr_model = ''s'', sr_data = [local_item 0 (wit_sp_terms ''a'')]\<rparr>"
proof -
  let ?logits = "map (\<lambda>_. [f32_one, f32_zero, f32_one]) :: int list \<Rightarrow> f32 list list"
  let ?st = "wit_splade_state\<lparr>sp_worker_pool := Some wit_sp_dispatch\<rparr>"
  have "fst (sparse_embeddings id (\<lambda>n. sort_key weight_key) (\<lambda>t. Inl '''') '''' ?st wit_splade_request) =
      respond_ok \<lparr>sr_model = ''s'', sr_data = map (\<lambda>(i, t). local_item i (sparse_terms id (\<lambda>n. sort_key weight_key) wit_splade ?logits 1
        f32_zero (map of_char t))) (enumerate 0 (sq_input wit_splade_request))\<rparr>"
  proof (rule sparse_path_correct [where tk = "map of_char" and encode = "\<lambda>t. Inr (map of_char t)" and dispatch = wit_sp_dispatch
        and w = wit_sp_wire and cd = wit_sp_codec and pt = "''panic''" and c = wit_path_client and s = wit_sup and start = 0 and t = 0
        and obs = "[]" and now = 7 and out = "[1, 0, 0, 0, 1]" and bk = "[1, 0, 0, 0, 2]"
        and p = "\<lparr>workers = [(''s'', wit_sup)], dispatch_timeout = 30000\<rparr>"])
    show "splade_ok wit_splade ?logits" by (simp add: splade_ok_def wit_splade_def wit_run_def)
    show "select_ok (\<lambda>n. sort_key weight_key)" by (rule select_ok_sort)
    show "dec_req wit_sp_codec bs = Inr r" if "enc_req wit_sp_wire r = Inr bs" for r bs
      using that by (simp add: wit_sp_wire_def wit_sp_codec_def split: if_splits)
    show "dec_resp wit_sp_wire bs = Inr r" if "enc_resp wit_sp_codec r = Inr bs" for r bs
      using that by (simp add: wit_sp_wire_def wit_sp_codec_def split: if_splits)
  qed (simp_all add: wit_splade_state_def wit_splade_request_def resolve_splade_name_def query_blank_def DEFAULT_MIN_WEIGHT_def
      wit_sp_dispatch_def wit_sp_wire_def wit_sp_codec_def wit_sp_wire_req_def wit_sp_wire_resp_def wit_sp_terms_def
      wit_path_client_def write_frame_def MAX_FRAME_BYTES_def u32_le_def)
  then show ?thesis by (simp add: wit_splade_request_def wit_sp_terms_def)
qed

end
